(* ===== verification/JsCore.thy ===== *)
theory JsCore
  imports Complex_Main "HOL-Library.Sublist" "HOL-Library.Multiset" "HOL-Library.AList"
begin

text \<open>
  The part of JavaScript the modelled code uses, and the generic lemmas the components share:
  numbers (exact rationals), strings (lists of ASCII characters; the few non-ASCII separators of the
  interface texts are their UTF-8 bytes), arrays as lists, \<open>null\<close> and \<open>undefined\<close> as \<open>None\<close>,
  \<open>Map\<close> and \<open>Set\<close> as lists in insertion order, number formatting and reading.
  The collections: \<open>js_defs\<close> unfolds the small library functions, \<open>vg_eval\<close> holds the equations a
  concrete evaluation needs.
\<close>

named_theorems js_defs \<open>definitions of the JavaScript library functions\<close>
named_theorems vg_eval \<open>equations for evaluating closed terms\<close>

type_synonym num = rat

section \<open>Arrays\<close>

definition nth_opt :: "'a list \<Rightarrow> nat \<Rightarrow> 'a option" where
  "nth_opt xs i = (if i < length xs then Some (xs ! i) else None)"

definition last_opt :: "'a list \<Rightarrow> 'a option" where
  "last_opt xs = (if xs = [] then None else Some (last xs))"

text \<open>The positions of a list, for callbacks that take the index: \<open>xs.map((x, i) => ...)\<close>.\<close>

definition indexed :: "'a list \<Rightarrow> (nat \<times> 'a) list" where
  "indexed xs = zip [0..<length xs] xs"

fun somes :: "'a option list \<Rightarrow> 'a list" where
  "somes [] = []"
| "somes (None # xs) = somes xs"
| "somes (Some x # xs) = x # somes xs"

text \<open>\<open>[...new Set(xs)]\<close>: the first occurrence of each value, in order.\<close>

fun uniq :: "'a list \<Rightarrow> 'a list" where
  "uniq [] = []"
| "uniq (x # xs) = x # filter (\<lambda>y. y \<noteq> x) (uniq xs)"

lemma length_indexed [simp]: "length (indexed xs) = length xs"
  by (simp add: indexed_def)

lemma nth_indexed [simp]: "i < length xs \<Longrightarrow> indexed xs ! i = (i, xs ! i)"
  by (simp add: indexed_def)

lemma indexed_Nil [simp, vg_eval]: "indexed [] = []"
  by (simp add: indexed_def)

lemma map_fst_indexed [simp]: "map fst (indexed xs) = [0..<length xs]"
  by (simp add: indexed_def)

lemma map_snd_indexed [simp]: "map snd (indexed xs) = xs"
  by (simp add: indexed_def)

lemma in_set_indexed: "(i, x) \<in> set (indexed xs) \<longleftrightarrow> i < length xs \<and> x = xs ! i"
  by (auto simp: indexed_def set_zip) (metis add_0 nth_upt)

lemma nth_opt_Some [simp]: "nth_opt xs i = Some x \<longleftrightarrow> i < length xs \<and> xs ! i = x"
  by (auto simp: nth_opt_def)

lemma nth_opt_None [simp]: "nth_opt xs i = None \<longleftrightarrow> length xs \<le> i"
  by (auto simp: nth_opt_def)

lemma last_opt_None [simp]: "last_opt xs = None \<longleftrightarrow> xs = []"
  by (simp add: last_opt_def)

lemma last_opt_in: "last_opt xs = Some x \<Longrightarrow> x \<in> set xs"
  by (auto simp: last_opt_def split: if_splits)

lemma last_opt_filter: "last_opt (filter P xs) = Some x \<Longrightarrow> x \<in> set xs \<and> P x"
  by (drule last_opt_in) auto

lemma set_uniq [simp]: "set (uniq xs) = set xs"
  by (induction xs) auto

lemma distinct_uniq [simp]: "distinct (uniq xs)"
  by (induction xs) auto

lemma uniq_distinct: "distinct xs \<Longrightarrow> uniq xs = xs"
proof (induction xs)
  case Nil
  then show ?case by simp
next
  case (Cons x xs)
  then have "filter (\<lambda>y. y \<noteq> x) xs = xs" by (intro filter_True) auto
  with Cons show ?case by simp
qed

lemma set_somes: "set (somes xs) = {x. Some x \<in> set xs}"
  by (induction xs rule: somes.induct) auto

lemma find_Some_in: "find P xs = Some x \<Longrightarrow> x \<in> set xs \<and> P x"
  by (auto simp: find_Some_iff)

lemma find_Some_first:
  "find P xs = Some x \<longleftrightarrow> (\<exists>ys zs. xs = ys @ x # zs \<and> P x \<and> (\<forall>y \<in> set ys. \<not> P y))"
proof (induction xs)
  case Nil
  then show ?case by simp
next
  case (Cons a xs)
  show ?case
  proof (cases "P a")
    case True
    then show ?thesis by (fastforce simp: Cons_eq_append_conv)
  next
    case False
    with Cons show ?thesis
      by (auto simp: Cons_eq_append_conv) (metis set_ConsD)
  qed
qed

section \<open>Strings\<close>

definition middot :: string where
  "middot = [CHR 0xC2, CHR 0xB7]"

definition bullet :: string where
  "bullet = [CHR 0xE2, CHR 0x80, CHR 0xA2]"

definition code :: "char \<Rightarrow> nat" where
  "code c = of_char c"

definition is_ws :: "char \<Rightarrow> bool" where
  "is_ws c \<longleftrightarrow> code c = 32 \<or> (9 \<le> code c \<and> code c \<le> 13)"

definition is_digit :: "char \<Rightarrow> bool" where
  "is_digit c \<longleftrightarrow> 48 \<le> code c \<and> code c \<le> 57"

definition is_lower :: "char \<Rightarrow> bool" where
  "is_lower c \<longleftrightarrow> 97 \<le> code c \<and> code c \<le> 122"

definition is_upper :: "char \<Rightarrow> bool" where
  "is_upper c \<longleftrightarrow> 65 \<le> code c \<and> code c \<le> 90"

definition lower :: "string \<Rightarrow> string" where
  "lower = map (\<lambda>c. if is_upper c then char_of (code c + 32) else c)"

definition trim_start :: "string \<Rightarrow> string" where
  "trim_start = dropWhile is_ws"

definition trim_end :: "string \<Rightarrow> string" where
  "trim_end s = rev (dropWhile is_ws (rev s))"

definition trim :: "string \<Rightarrow> string" where
  "trim s = trim_end (trim_start s)"

definition starts_with :: "string \<Rightarrow> string \<Rightarrow> bool" where
  "starts_with s p \<longleftrightarrow> take (length p) s = p"

definition ends_with :: "string \<Rightarrow> string \<Rightarrow> bool" where
  "ends_with s p \<longleftrightarrow> length p \<le> length s \<and> drop (length s - length p) s = p"

fun has_sub :: "string \<Rightarrow> string \<Rightarrow> bool" where
  "has_sub [] t = (t = [])"
| "has_sub (c # cs) t = (starts_with (c # cs) t \<or> has_sub cs t)"

fun join :: "'a list \<Rightarrow> 'a list list \<Rightarrow> 'a list" where
  "join sep [] = []"
| "join sep [x] = x"
| "join sep (x # y # xs) = x @ sep @ join sep (y # xs)"

text \<open>\<open>s.split(sep)\<close> for a non-empty separator.\<close>

function split_go :: "string \<Rightarrow> string \<Rightarrow> string \<Rightarrow> string list" where
  "split_go sep acc [] = [rev acc]"
| "split_go sep acc (c # cs) =
     (if starts_with (c # cs) sep then rev acc # split_go sep [] (drop (length sep - 1) cs)
      else split_go sep (c # acc) cs)"
  by pat_completeness auto
termination
  by (relation "measure (\<lambda>(sep, acc, s). length s)") auto

definition split :: "string \<Rightarrow> string \<Rightarrow> string list" where
  "split sep s = split_go sep [] s"

text \<open>\<open>s.search(re)\<close> and \<open>s.indexOf(c)\<close> for a class of characters: the first position, if any.\<close>

fun search :: "(char \<Rightarrow> bool) \<Rightarrow> string \<Rightarrow> nat option" where
  "search P [] = None"
| "search P (c # cs) = (if P c then Some 0 else map_option Suc (search P cs))"

text \<open>Code points of UTF-8 text: the bytes that do not continue one.\<close>

definition code_points :: "string \<Rightarrow> nat" where
  "code_points s = length (filter (\<lambda>c. \<not> (128 \<le> code c \<and> code c < 192)) s)"

text \<open>What \<open>.\<close> does not match: line feed, carriage return, U+2028 and U+2029.\<close>

definition line_break_free :: "string \<Rightarrow> bool" where
  "line_break_free s \<longleftrightarrow> list_all (\<lambda>c. code c \<noteq> 10 \<and> code c \<noteq> 13) s \<and>
     \<not> has_sub s [CHR 0xE2, CHR 0x80, CHR 0xA8] \<and> \<not> has_sub s [CHR 0xE2, CHR 0x80, CHR 0xA9]"

lemma search_take: "search P s = Some n \<Longrightarrow> take n s = takeWhile (\<lambda>c. \<not> P c) s"
  by (induction s arbitrary: n) (auto split: if_splits)

lemma search_None: "search P s = None \<longleftrightarrow> (\<forall>c \<in> set s. \<not> P c)"
  by (induction s) auto

lemma starts_with_prefix: "starts_with s p \<longleftrightarrow> prefix p s"
  unfolding starts_with_def by (metis append_take_drop_id prefixI prefix_def append_eq_conv_conj)

lemma starts_with_append [simp]: "starts_with (p @ s) p"
  by (simp add: starts_with_def)

lemma ends_with_suffix: "ends_with s p \<longleftrightarrow> suffix p s"
  unfolding ends_with_def suffix_def
  by (metis append_take_drop_id diff_diff_cancel length_append length_drop append_eq_conv_conj
      le_add2 diff_add_inverse2)

lemma has_sub_sublist: "has_sub s t \<longleftrightarrow> sublist t s"
  by (induction s) (auto simp: starts_with_prefix sublist_Cons_right)

lemma trim_start_idem [simp]: "trim_start (trim_start s) = trim_start s"
  unfolding trim_start_def by (induction s) auto

lemma join_Cons: "xs \<noteq> [] \<Longrightarrow> join sep (x # xs) = x @ sep @ join sep xs"
  by (cases xs) auto

end
