(* ===== verification/JsNum.thy ===== *)
theory JsNum
  imports JsCore
begin

text \<open>
  JavaScript numbers. A number is an exact rational: the arithmetic of the modelled code is done
  without the rounding of binary floating point, and the values the code singles out by name
  (\<open>NaN\<close>, \<open>Infinity\<close>) are the constructors of \<open>jsnum\<close>. \<open>to_fixed\<close> is \<open>Number.prototype.toFixed\<close>,
  \<open>num_str\<close> the conversion of a template literal, \<open>js_number\<close> the conversion \<open>Number(text)\<close>,
  \<open>js_round\<close> is \<open>Math.round\<close>. \<open>date_parse\<close> reads the ISO 8601 date-times of the API
  (\<open>Date.parse\<close>, milliseconds since the epoch).
\<close>

datatype jsnum = Num num | NaN | PosInf | NegInf

fun finite_num :: "jsnum \<Rightarrow> num option" where
  "finite_num (Num x) = Some x"
| "finite_num _ = None"

definition is_finite :: "jsnum \<Rightarrow> bool" where
  "is_finite x \<longleftrightarrow> finite_num x \<noteq> None"

text \<open>\<open><\<close> and \<open><=\<close>: false with \<open>NaN\<close>.\<close>

fun js_lt :: "jsnum \<Rightarrow> jsnum \<Rightarrow> bool" where
  "js_lt NaN y = False"
| "js_lt x NaN = False"
| "js_lt PosInf y = False"
| "js_lt x NegInf = False"
| "js_lt NegInf y = True"
| "js_lt x PosInf = True"
| "js_lt (Num x) (Num y) = (x < y)"

definition js_le :: "jsnum \<Rightarrow> jsnum \<Rightarrow> bool" where
  "js_le x y \<longleftrightarrow> js_lt x y \<or> x = y \<and> x \<noteq> NaN"

lemma js_le_simps [simp]: "js_le (Num x) (Num y) \<longleftrightarrow> x \<le> y" "\<not> js_le NaN v" "\<not> js_le u NaN"
  by (auto simp: js_le_def) (cases u; simp)

text \<open>Subtraction.\<close>

fun js_minus :: "jsnum \<Rightarrow> jsnum \<Rightarrow> jsnum" where
  "js_minus NaN y = NaN"
| "js_minus x NaN = NaN"
| "js_minus PosInf PosInf = NaN"
| "js_minus NegInf NegInf = NaN"
| "js_minus PosInf y = PosInf"
| "js_minus NegInf y = NegInf"
| "js_minus x PosInf = NegInf"
| "js_minus x NegInf = PosInf"
| "js_minus (Num x) (Num y) = Num (x - y)"

section \<open>Rounding and printing\<close>

definition js_round :: "num \<Rightarrow> int" where
  "js_round x = \<lfloor>x + 1 / 2\<rfloor>"

definition is_integer :: "num \<Rightarrow> bool" where
  "is_integer x \<longleftrightarrow> of_int \<lfloor>x\<rfloor> = x"

fun nat_str :: "nat \<Rightarrow> string" where
  "nat_str n = (if n < 10 then [char_of (48 + n)] else nat_str (n div 10) @ [char_of (48 + n mod 10)])"

declare nat_str.simps [simp del]

definition int_str :: "int \<Rightarrow> string" where
  "int_str i = (if i < 0 then ''-'' @ nat_str (nat (- i)) else nat_str (nat i))"

definition pad_start :: "nat \<Rightarrow> string \<Rightarrow> string" where
  "pad_start n s = replicate (n - length s) (CHR ''0'') @ s"

definition to_fixed :: "nat \<Rightarrow> num \<Rightarrow> string" where
  "to_fixed d x =
     (let n = nat \<lfloor>\<bar>x\<bar> * 10 ^ d + 1 / 2\<rfloor>
      in (if x < 0 then ''-'' else []) @ nat_str (n div 10 ^ d) @
         (if d = 0 then [] else ''.'' @ pad_start d (nat_str (n mod 10 ^ d))))"

text \<open>The digits after the point of a fraction in \<open>[0, 1)\<close>, at most \<open>fuel\<close> of them: a double
  prints at most 17 significant digits, so 20 are enough for the values the code prints.\<close>

fun frac_digits :: "nat \<Rightarrow> num \<Rightarrow> string" where
  "frac_digits 0 x = []"
| "frac_digits (Suc fuel) x =
     (if x = 0 then []
      else char_of (48 + nat \<lfloor>10 * x\<rfloor>) # frac_digits fuel (10 * x - of_int \<lfloor>10 * x\<rfloor>))"

definition num_str :: "num \<Rightarrow> string" where
  "num_str x =
     (let a = \<bar>x\<bar>; f = frac_digits 20 (a - of_int \<lfloor>a\<rfloor>)
      in (if x < 0 then ''-'' else []) @ nat_str (nat \<lfloor>a\<rfloor>) @ (if f = [] then [] else ''.'' @ f))"

section \<open>Reading\<close>

definition digit_of :: "char \<Rightarrow> nat" where
  "digit_of c = code c - 48"

definition digits_val :: "string \<Rightarrow> nat" where
  "digits_val s = foldl (\<lambda>a c. 10 * a + digit_of c) 0 s"

definition pow10 :: "int \<Rightarrow> num" where
  "pow10 e = (if 0 \<le> e then 10 ^ nat e else 1 / 10 ^ nat (- e))"

fun signed_part :: "string \<Rightarrow> bool \<times> string" where
  "signed_part [] = (False, [])"
| "signed_part (c # s) = (if c = CHR ''-'' then (True, s) else if c = CHR ''+'' then (False, s) else (False, c # s))"

definition exponent :: "string \<Rightarrow> int option" where
  "exponent s =
     (case s of
        [] \<Rightarrow> Some 0
      | c # r \<Rightarrow>
          if c = CHR ''e'' \<or> c = CHR ''E''
          then (let (neg, ds) = signed_part r
                in if ds \<noteq> [] \<and> list_all is_digit ds
                   then Some (if neg then - int (digits_val ds) else int (digits_val ds)) else None)
          else None)"

definition decimal :: "string \<Rightarrow> num option" where
  "decimal s =
     (let ip = takeWhile is_digit s; r = dropWhile is_digit s;
          (fp, rest) = (case r of
              [] \<Rightarrow> ([], [])
            | c # t \<Rightarrow> if c = CHR ''.'' then (takeWhile is_digit t, dropWhile is_digit t) else ([], r))
      in if ip = [] \<and> fp = [] then None
         else map_option (\<lambda>e. of_nat (digits_val (ip @ fp)) / 10 ^ length fp * pow10 e) (exponent rest))"

definition radix_digit :: "char \<Rightarrow> nat option" where
  "radix_digit c =
     (if is_digit c then Some (code c - 48)
      else if 97 \<le> code c \<and> code c \<le> 102 then Some (code c - 87)
      else if 65 \<le> code c \<and> code c \<le> 70 then Some (code c - 55) else None)"

fun radix_val :: "nat \<Rightarrow> nat \<Rightarrow> string \<Rightarrow> nat option" where
  "radix_val b acc [] = Some acc"
| "radix_val b acc (c # s) =
     (case radix_digit c of
        Some d \<Rightarrow> if d < b then radix_val b (b * acc + d) s else None
      | None \<Rightarrow> None)"

definition radix_of :: "string \<Rightarrow> (nat \<times> string) option" where
  "radix_of s =
     (if starts_with s ''0x'' \<or> starts_with s ''0X'' then Some (16, drop 2 s)
      else if starts_with s ''0o'' \<or> starts_with s ''0O'' then Some (8, drop 2 s)
      else if starts_with s ''0b'' \<or> starts_with s ''0B'' then Some (2, drop 2 s) else None)"

definition js_number :: "string \<Rightarrow> jsnum" where
  "js_number text =
     (let s = trim text; (neg, u) = signed_part s
      in if s = [] then Num 0
         else (case radix_of s of
             Some (b, ds) \<Rightarrow>
               (case radix_val b 0 ds of
                  Some n \<Rightarrow> if ds = [] then NaN else Num (of_nat n)
                | None \<Rightarrow> NaN)
           | None \<Rightarrow>
               if u = ''Infinity'' then (if neg then NegInf else PosInf)
               else (case decimal u of
                       Some x \<Rightarrow> Num (if neg then - x else x)
                     | None \<Rightarrow> NaN)))"

section \<open>Dates\<close>

text \<open>Days from the epoch to a civil date, and the reading of \<open>YYYY-MM-DD\<close> with an optional
  \<open>THH:mm[:ss[.fff]]\<close> and a zone (\<open>Z\<close> or an offset). Any other text, a local time without a zone
  included, is not a date-time of the API's contract and reads as \<open>None\<close> (\<open>NaN\<close>).\<close>

definition days_from_civil :: "int \<Rightarrow> int \<Rightarrow> int \<Rightarrow> int" where
  "days_from_civil y m d =
     (let y' = (if m \<le> 2 then y - 1 else y); era = y' div 400; yoe = y' - era * 400;
          mp = (m + 9) mod 12; doy = (153 * mp + 2) div 5 + d - 1;
          doe = yoe * 365 + yoe div 4 - yoe div 100 + doy
      in era * 146097 + doe - 719468)"

definition leap :: "int \<Rightarrow> bool" where
  "leap y \<longleftrightarrow> (y mod 4 = 0 \<and> y mod 100 \<noteq> 0) \<or> y mod 400 = 0"

definition month_days :: "int \<Rightarrow> int \<Rightarrow> int" where
  "month_days y m = (if m = 2 then (if leap y then 29 else 28) else if m \<in> {4, 6, 9, 11} then 30 else 31)"

text \<open>\<open>n\<close> digits, then the rest.\<close>

definition take_digits :: "nat \<Rightarrow> string \<Rightarrow> (int \<times> string) option" where
  "take_digits n s =
     (if length (take n s) = n \<and> list_all is_digit (take n s)
      then Some (int (digits_val (take n s)), drop n s) else None)"

fun expect :: "char \<Rightarrow> string \<Rightarrow> string option" where
  "expect c [] = None"
| "expect c (d # s) = (if c = d then Some s else None)"

definition zone_ms :: "string \<Rightarrow> int option" where
  "zone_ms s =
     (case s of
        [] \<Rightarrow> None
      | c # r \<Rightarrow>
          if c = CHR ''Z'' then (if r = [] then Some 0 else None)
          else if c = CHR ''+'' \<or> c = CHR ''-'' then
            Option.bind (take_digits 2 r) (\<lambda>(h, r1). Option.bind (expect (CHR '':'') r1) (\<lambda>r2.
            Option.bind (take_digits 2 r2) (\<lambda>(m, r3).
              if r3 = [] \<and> h < 24 \<and> m < 60
              then Some ((if c = CHR ''-'' then - 1 else 1) * (h * 60 + m) * 60000) else None)))
          else None)"

definition clock_ms :: "string \<Rightarrow> (num \<times> string) option" where
  "clock_ms s =
     Option.bind (take_digits 2 s) (\<lambda>(h, r1). Option.bind (expect (CHR '':'') r1) (\<lambda>r2.
     Option.bind (take_digits 2 r2) (\<lambda>(mi, r3).
       (case expect (CHR '':'') r3 of
          None \<Rightarrow> if h < 24 \<and> mi < 60 then Some (of_int ((h * 60 + mi) * 60000), r3) else None
        | Some r4 \<Rightarrow>
            Option.bind (take_digits 2 r4) (\<lambda>(sec, r5).
              if h < 24 \<and> mi < 60 \<and> sec < 60
              then (let base = of_int (((h * 60 + mi) * 60 + sec) * 1000) in
                    (case expect (CHR ''.'') r5 of
                       None \<Rightarrow> Some (base, r5)
                     | Some r6 \<Rightarrow>
                         (let ds = takeWhile is_digit r6
                          in if ds = [] then None
                             else Some (base + of_int \<lfloor>of_nat (digits_val ds) * 1000 / 10 ^ length ds :: num\<rfloor>,
                                        dropWhile is_digit r6))))
              else None)))))"

definition date_parse :: "string \<Rightarrow> num option" where
  "date_parse s =
     Option.bind (take_digits 4 s) (\<lambda>(y, r1). Option.bind (expect (CHR ''-'') r1) (\<lambda>r2.
     Option.bind (take_digits 2 r2) (\<lambda>(m, r3). Option.bind (expect (CHR ''-'') r3) (\<lambda>r4.
     Option.bind (take_digits 2 r4) (\<lambda>(d, r5).
       if 1 \<le> m \<and> m \<le> 12 \<and> 1 \<le> d \<and> d \<le> month_days y m
       then (let day = of_int (days_from_civil y m d * 86400000) in
             (case expect (CHR ''T'') r5 of
                None \<Rightarrow> if r5 = [] then Some day else None
              | Some r6 \<Rightarrow>
                  Option.bind (clock_ms r6) (\<lambda>(t, z).
                    map_option (\<lambda>off. day + t - of_int off) (zone_ms z))))
       else None)))))"

text \<open>\<open>new Date(ms).toISOString()\<close>: the civil date of a day, and the text, whole milliseconds only. A time the
  platform cannot hold (beyond 8.64e15 ms) is outside the model.\<close>

definition civil_from_days :: "int \<Rightarrow> int \<times> int \<times> int" where
  "civil_from_days z =
     (let z' = z + 719468; era = z' div 146097; doe = z' mod 146097;
          yoe = (doe - doe div 1460 + doe div 36524 - doe div 146096) div 365;
          doy = doe - (365 * yoe + yoe div 4 - yoe div 100); mp = (5 * doy + 2) div 153;
          m = (if mp < 10 then mp + 3 else mp - 9)
      in (yoe + era * 400 + (if m \<le> 2 then 1 else 0), m, doy - (153 * mp + 2) div 5 + 1))"

definition pad_int :: "nat \<Rightarrow> int \<Rightarrow> string" where
  "pad_int n i = pad_start n (nat_str (nat i))"

definition year_str :: "int \<Rightarrow> string" where
  "year_str y = (if 0 \<le> y \<and> y \<le> 9999 then pad_int 4 y else (if y < 0 then ''-'' else ''+'') @ pad_int 6 \<bar>y\<bar>)"

definition to_iso :: "num \<Rightarrow> string" where
  "to_iso ms =
     (let t = (if ms < 0 then \<lceil>ms\<rceil> else \<lfloor>ms\<rfloor>); (y, m, d) = civil_from_days (t div 86400000); r = t mod 86400000
      in year_str y @ ''-'' @ pad_int 2 m @ ''-'' @ pad_int 2 d @ ''T'' @ pad_int 2 (r div 3600000) @ '':'' @
         pad_int 2 (r div 60000 mod 60) @ '':'' @ pad_int 2 (r div 1000 mod 60) @ ''.'' @ pad_int 3 (r mod 1000) @ ''Z'')"

section \<open>Laws\<close>

lemma nat_str_nonempty [simp]: "nat_str n \<noteq> []"
  by (subst nat_str.simps) simp

lemma code_char_of [simp]: "n < 256 \<Longrightarrow> code (char_of n) = n"
  by (simp add: code_def)

lemma nat_str_digits: "list_all is_digit (nat_str n)"
proof (induction n rule: nat_str.induct)
  case (1 n)
  have "is_digit (char_of (48 + n mod 10))" by (simp add: is_digit_def)
  with 1 show ?case
    by (cases "n < 10") (auto simp: nat_str.simps [of n] is_digit_def)
qed

lemma digits_val_snoc: "digits_val (s @ [c]) = 10 * digits_val s + digit_of c"
  by (simp add: digits_val_def)

lemma digits_val_nat_str [simp]: "digits_val (nat_str n) = n"
proof (induction n rule: nat_str.induct)
  case (1 n)
  show ?case
  proof (cases "n < 10")
    case True
    then show ?thesis by (simp add: nat_str.simps [of n] digits_val_def digit_of_def)
  next
    case False
    with 1 have "digits_val (nat_str (n div 10)) = n div 10" by simp
    with False show ?thesis
      by (simp add: nat_str.simps [of n] digits_val_snoc digit_of_def)
  qed
qed

lemma nat_str_inj [simp]: "nat_str m = nat_str n \<longleftrightarrow> m = n"
  by (metis digits_val_nat_str)

lemma digit_not_ws: "is_digit c \<Longrightarrow> \<not> is_ws c"
  by (simp add: is_digit_def is_ws_def)

lemma trim_no_ws: "s \<noteq> [] \<Longrightarrow> \<not> is_ws (hd s) \<Longrightarrow> \<not> is_ws (last s) \<Longrightarrow> trim s = s"
  by (simp add: trim_def trim_end_def trim_start_def dropWhile_eq_self_iff [THEN iffD2] hd_rev)

lemma js_round_of_int [simp]: "js_round (of_int i) = i"
  by (simp add: js_round_def floor_eq_iff)

lemma js_round_mono: "x \<le> y \<Longrightarrow> js_round x \<le> js_round y"
  by (simp add: js_round_def floor_mono)

lemma js_round_near: "\<bar>of_int (js_round x) - x\<bar> \<le> 1 / 2"
  unfolding js_round_def by linarith

end
