(* ===== verification/JsOrder.thy ===== *)
theory JsOrder
  imports JsNum
begin

text \<open>
  \<open>Array.prototype.sort\<close>: a stable sort by a comparison, modelled as insertion sort, and the
  contract its clients rely on. A comparator is given by "sorts before" (\<open>compare(a, b) < 0\<close>).
  The interface \<open>weak_order\<close> states what a comparator must satisfy for the result to be determined
  by the specification: the order is irreflexive and "not before" is transitive. Its lemmas
  (permutation, sortedness, stability) are proved once; each comparator of the code interprets it.
\<close>

fun ins_by :: "('a \<Rightarrow> 'a \<Rightarrow> bool) \<Rightarrow> 'a \<Rightarrow> 'a list \<Rightarrow> 'a list" where
  "ins_by lt x [] = [x]"
| "ins_by lt x (y # ys) = (if lt y x then y # ins_by lt x ys else x # y # ys)"

definition sort_by :: "('a \<Rightarrow> 'a \<Rightarrow> bool) \<Rightarrow> 'a list \<Rightarrow> 'a list" where
  "sort_by lt xs = foldr (ins_by lt) xs []"

lemma sort_by_Nil [simp]: "sort_by lt [] = []"
  by (simp add: sort_by_def)

lemma sort_by_Cons [simp]: "sort_by lt (x # xs) = ins_by lt x (sort_by lt xs)"
  by (simp add: sort_by_def)

lemma mset_ins_by [simp]: "mset (ins_by lt x xs) = add_mset x (mset xs)"
  by (induction xs) auto

lemma mset_sort_by [simp]: "mset (sort_by lt xs) = mset xs"
  by (induction xs) auto

lemma set_ins_by [simp]: "set (ins_by lt x xs) = insert x (set xs)"
  by (induction xs) auto

lemma set_sort_by [simp]: "set (sort_by lt xs) = set xs"
  by (induction xs) auto

lemma length_sort_by [simp]: "length (sort_by lt xs) = length xs"
  by (metis mset_sort_by size_mset)

lemma sort_by_empty_iff [simp]: "sort_by lt xs = [] \<longleftrightarrow> xs = []"
  by (metis length_0_conv length_sort_by)

lemma distinct_sort_by [simp]: "distinct (sort_by lt xs) \<longleftrightarrow> distinct xs"
  by (metis mset_sort_by mset_eq_imp_distinct_iff)

text \<open>"\<open>b\<close> does not sort before \<open>a\<close>" holds along the list.\<close>

abbreviation ordered_by :: "('a \<Rightarrow> 'a \<Rightarrow> bool) \<Rightarrow> 'a list \<Rightarrow> bool" where
  "ordered_by lt xs \<equiv> sorted_wrt (\<lambda>a b. \<not> lt b a) xs"

lemma distinct_map_sort: "distinct (map f (sort_by lt xs)) \<longleftrightarrow> distinct (map f xs)"
  by (metis mset_map mset_sort_by mset_eq_imp_distinct_iff)

text \<open>Two elements the comparison does not tell apart (\<open>compare(a, b) = 0\<close>).\<close>

definition ties :: "('a \<Rightarrow> 'a \<Rightarrow> bool) \<Rightarrow> 'a \<Rightarrow> 'a \<Rightarrow> bool" where
  "ties lt a b \<longleftrightarrow> \<not> lt a b \<and> \<not> lt b a"

locale weak_order =
  fixes lt :: "'a \<Rightarrow> 'a \<Rightarrow> bool"
  assumes asym: "lt a b \<Longrightarrow> \<not> lt b a"
    and negtrans: "\<not> lt a b \<Longrightarrow> \<not> lt b c \<Longrightarrow> \<not> lt a c"
begin

lemma ordered_ins: "ordered_by lt xs \<Longrightarrow> ordered_by lt (ins_by lt x xs)"
proof (induction xs)
  case Nil
  then show ?case by simp
next
  case (Cons y ys)
  show ?case
  proof (cases "lt y x")
    case True
    with Cons show ?thesis by (auto dest: asym)
  next
    case False
    with Cons show ?thesis by (auto, metis negtrans)
  qed
qed

lemma ordered: "ordered_by lt (sort_by lt xs)"
  by (induction xs) (auto intro: ordered_ins)

lemma filter_ins_out: "\<not> P x \<Longrightarrow> filter P (ins_by lt x xs) = filter P xs"
  by (induction xs) auto

lemma filter_ins_tie:
  "ordered_by lt xs \<Longrightarrow> ties lt k x \<Longrightarrow>
     filter (ties lt k) (ins_by lt x xs) = x # filter (ties lt k) xs"
proof (induction xs)
  case Nil
  then show ?case by simp
next
  case (Cons y ys)
  have "\<not> ties lt k y" if "lt y x"
    using that Cons.prems(2) negtrans unfolding ties_def by blast
  with Cons show ?case by auto
qed

lemma stable: "filter (ties lt k) (sort_by lt xs) = filter (ties lt k) xs"
proof (induction xs)
  case Nil
  then show ?case by simp
next
  case (Cons x xs)
  then show ?case
    by (cases "ties lt k x") (simp_all add: filter_ins_tie filter_ins_out ordered)
qed

lemma ins_front: "(\<And>y. y \<in> set xs \<Longrightarrow> \<not> lt y x) \<Longrightarrow> ins_by lt x xs = x # xs"
  by (cases xs) auto

lemma sorted_id: "ordered_by lt xs \<Longrightarrow> sort_by lt xs = xs"
  by (induction xs) (auto simp: ins_front)

lemma idem [simp]: "sort_by lt (sort_by lt xs) = sort_by lt xs"
  by (rule sorted_id [OF ordered])

lemma hd_least: "x \<in> set xs \<Longrightarrow> \<not> lt x (hd (sort_by lt xs))"
proof -
  assume x: "x \<in> set xs"
  then obtain y ys where s: "sort_by lt xs = y # ys"
    by (metis length_greater_0_conv length_pos_if_in_set length_sort_by neq_Nil_conv)
  from x have "x \<in> set (sort_by lt xs)" by simp
  with s ordered [of xs] show ?thesis by (auto dest: asym)
qed

end

text \<open>A comparator that orders by a key of a linear order.\<close>

locale key_order =
  fixes key :: "'a \<Rightarrow> 'k::linorder" and lt :: "'a \<Rightarrow> 'a \<Rightarrow> bool"
  assumes lt_key: "lt a b \<longleftrightarrow> key a < key b"

sublocale key_order \<subseteq> weak_order lt
  by unfold_locales (auto simp: lt_key)

context key_order
begin

lemma keys_sorted: "sorted (map key (sort_by lt xs))"
proof -
  have "sorted_wrt (\<lambda>a b. key a \<le> key b) (sort_by lt xs)"
    using ordered [of xs] by (rule sorted_wrt_mono_rel [rotated]) (auto simp: lt_key)
  then show ?thesis by (simp add: sorted_wrt_map)
qed

lemma ties_key: "ties lt a b \<longleftrightarrow> key a = key b"
  by (auto simp: ties_def lt_key)

lemma key_stable: "filter (\<lambda>x. key x = k) (sort_by lt xs) = filter (\<lambda>x. key x = k) xs"
proof (cases "\<exists>a \<in> set xs. key a = k")
  case True
  then obtain a where "key a = k" by blast
  then have eq: "(\<lambda>x. key x = k) = ties lt a" by (auto simp: ties_key fun_eq_iff)
  show ?thesis unfolding eq by (rule stable)
next
  case False
  then show ?thesis by (auto intro: filter_False simp: filter_empty_conv)
qed

text \<open>So it is the library's stable sort.\<close>

lemma sort_by_key: "sort_by lt xs = sort_key key xs"
proof (rule properties_for_sort_key [symmetric])
  show "filter (\<lambda>x. key k = key x) (sort_by lt xs) = filter (\<lambda>x. key k = key x) xs" for k
    using key_stable [of "key k" xs] by (simp add: eq_commute)
qed (simp_all add: keys_sorted)

end

section \<open>Numbers in order\<close>

text \<open>\<open>xs.sort((a, b) => a - b)\<close>, and the median and 90th percentile the pages read off it.\<close>

definition num_lt :: "num \<Rightarrow> num \<Rightarrow> bool" where
  "num_lt a b \<longleftrightarrow> a < b"

interpretation num_ord: key_order "\<lambda>x. x" num_lt
  by unfold_locales (simp add: num_lt_def)

definition median :: "num list \<Rightarrow> num option" where
  "median xs = (if xs = [] then None else Some (sort_by num_lt xs ! (length xs div 2)))"

lemma median_in: "median xs = Some m \<Longrightarrow> m \<in> set xs"
  by (metis median_def length_greater_0_conv div_less_dividend nth_mem length_sort_by set_sort_by
      option.distinct(1) option.inject one_less_numeral_iff semiring_norm(76))

text \<open>At least half of the values are at most the median, and at least half are at least it.\<close>

lemma sorted_counts:
  assumes "sorted s" "k < length s"
  shows "Suc k \<le> length (filter (\<lambda>x. x \<le> s ! k) s)"
    and "length s - k \<le> length (filter (\<lambda>x. s ! k \<le> x) s)"
proof -
  have "length (filter (\<lambda>x. x \<le> s ! k) (take (Suc k) s)) = Suc k"
    using assms by (subst filter_True) (auto simp: in_set_conv_nth sorted_nth_mono)
  moreover have "length (filter P s) = length (filter P (take (Suc k) s)) + length (filter P (drop (Suc k) s))"
    for P by (metis append_take_drop_id filter_append length_append)
  ultimately show "Suc k \<le> length (filter (\<lambda>x. x \<le> s ! k) s)" by (metis le_add1)
  have "length (filter (\<lambda>x. s ! k \<le> x) (drop k s)) = length s - k"
    using assms by (subst filter_True) (auto simp: in_set_conv_nth sorted_nth_mono)
  moreover have "length (filter P s) = length (filter P (take k s)) + length (filter P (drop k s))"
    for P by (metis append_take_drop_id filter_append length_append)
  ultimately show "length s - k \<le> length (filter (\<lambda>x. s ! k \<le> x) s)" by (metis le_add2)
qed

lemma length_filter_sort [simp]: "length (filter P (sort_by lt xs)) = length (filter P xs)"
  by (metis mset_filter mset_sort_by size_mset)

lemma median_halves:
  assumes "median xs = Some m"
  shows "length xs div 2 < length (filter (\<lambda>x. x \<le> m) xs)"
    and "length xs - length xs div 2 \<le> length (filter (\<lambda>x. m \<le> x) xs)"
proof -
  let ?s = "sort_by num_lt xs" and ?k = "length xs div 2"
  from assms have ne: "xs \<noteq> []" and m: "m = ?s ! ?k" by (auto simp: median_def split: if_splits)
  have s: "sorted ?s" using num_ord.keys_sorted [of xs] by simp
  from ne have k: "?k < length ?s" by simp
  show "?k < length (filter (\<lambda>x. x \<le> m) xs)"
    using sorted_counts(1) [OF s k] by (simp add: m)
  show "length xs - ?k \<le> length (filter (\<lambda>x. m \<le> x) xs)"
    using sorted_counts(2) [OF s k] by (simp add: m)
qed

lemma median_None [simp]: "median xs = None \<longleftrightarrow> xs = []"
  by (simp add: median_def)

end
