(* ===== verification/JsJson.thy ===== *)
theory JsJson
  imports JsOrder
begin

text \<open>
  \<open>JSON.parse\<close> and \<open>JSON.stringify\<close>. The text is cut into tokens, then one pass over the tokens with
  a stack of open arrays and objects builds the value, so both steps are total; \<open>None\<close> is the
  \<open>SyntaxError\<close>. An object keeps its keys in insertion order and the last value of a repeated key.
  Also the conversions of a JSON value to text that \<open>join\<close> and template literals make.
\<close>

datatype json =
    JNull
  | JBool bool
  | JNum num
  | JStr string
  | JArr "json list"
  | JObj "(string \<times> json) list"

section \<open>Tokens\<close>

datatype tok = LBrack | RBrack | LBrace | RBrace | Comma | Colon | Lit json

definition quote :: char where
  "quote = CHR 0x22"

definition backslash :: char where
  "backslash = CHR 0x5C"

text \<open>A code point as UTF-8 bytes.\<close>

definition utf8 :: "nat \<Rightarrow> string" where
  "utf8 n =
     (if n < 128 then [char_of n]
      else if n < 2048 then [char_of (192 + n div 64), char_of (128 + n mod 64)]
      else if n < 65536 then [char_of (224 + n div 4096), char_of (128 + n div 64 mod 64), char_of (128 + n mod 64)]
      else [char_of (240 + n div 262144), char_of (128 + n div 4096 mod 64),
            char_of (128 + n div 64 mod 64), char_of (128 + n mod 64)])"

definition hex4 :: "string \<Rightarrow> (nat \<times> string) option" where
  "hex4 s =
     (if length (take 4 s) = 4
      then map_option (\<lambda>n. (n, drop 4 s)) (radix_val 16 0 (take 4 s)) else None)"

text \<open>The code point of a \<open>\uXXXX\<close> escape, a surrogate pair read as one.\<close>

definition unicode_escape :: "string \<Rightarrow> (string \<times> string) option" where
  "unicode_escape s =
     Option.bind (hex4 s) (\<lambda>(n, r).
       (case (if 55296 \<le> n \<and> n < 56320 \<and> take 2 r = [backslash, CHR ''u''] then hex4 (drop 2 r) else None) of
          Some (m, r') \<Rightarrow>
            if 56320 \<le> m \<and> m < 57344 then Some (utf8 (65536 + (n - 55296) * 1024 + (m - 56320)), r')
            else Some (utf8 n, r)
        | None \<Rightarrow> Some (utf8 n, r)))"

definition simple_escape :: "char \<Rightarrow> char option" where
  "simple_escape c =
     map_of [(quote, quote), (backslash, backslash), (CHR ''/'', CHR ''/''), (CHR ''b'', CHR 0x08),
       (CHR ''f'', CHR 0x0C), (CHR ''n'', CHR 0x0A), (CHR ''r'', CHR 0x0D), (CHR ''t'', CHR 0x09)] c"

lemma hex4_length: "hex4 s = Some (n, r) \<Longrightarrow> length r < length s"
  by (auto simp: hex4_def split: if_splits)

lemma unicode_escape_length: "unicode_escape s = Some (x, r) \<Longrightarrow> length r < length s"
proof -
  assume "unicode_escape s = Some (x, r)"
  then obtain n t where n: "hex4 s = Some (n, t)" and
    a: "(case (if 55296 \<le> n \<and> n < 56320 \<and> take 2 t = [backslash, CHR ''u''] then hex4 (drop 2 t) else None) of
          Some (m, r') \<Rightarrow>
            if 56320 \<le> m \<and> m < 57344 then Some (utf8 (65536 + (n - 55296) * 1024 + (m - 56320)), r')
            else Some (utf8 n, t)
        | None \<Rightarrow> Some (utf8 n, t)) = Some (x, r)"
    by (auto simp only: unicode_escape_def bind_eq_Some_conv split_paired_all prod.case)
  have o1: "r = t \<or> (\<exists>m. hex4 (drop 2 t) = Some (m, r))"
  proof (cases "if 55296 \<le> n \<and> n < 56320 \<and> take 2 t = [backslash, CHR ''u''] then hex4 (drop 2 t) else None")
    case None
    with a show ?thesis by simp
  next
    case (Some p)
    then have "hex4 (drop 2 t) = Some p" by (simp split: if_splits)
    with a Some show ?thesis by (cases p) (simp split: if_splits)
  qed
  from o1 have "length r \<le> length t" by (auto dest!: hex4_length)
  with hex4_length [OF n] show ?thesis by simp
qed

text \<open>The rest of a string literal after its opening quote.\<close>

function lex_str :: "string \<Rightarrow> string \<Rightarrow> (string \<times> string) option" where
  "lex_str acc [] = None"
| "lex_str acc (c # s) =
     (if c = quote then Some (acc, s)
      else if code c < 32 then None
      else if c = backslash then
        (case s of
           [] \<Rightarrow> None
         | d # r \<Rightarrow>
             if d = CHR ''u'' then
               (case unicode_escape r of Some (x, r') \<Rightarrow> lex_str (acc @ x) r' | None \<Rightarrow> None)
             else (case simple_escape d of Some x \<Rightarrow> lex_str (acc @ [x]) r | None \<Rightarrow> None))
      else lex_str (acc @ [c]) s)"
  by pat_completeness auto
termination
  by (relation "measure (\<lambda>(acc, s). length s)") (auto dest: unicode_escape_length)

lemma lex_str_length: "lex_str acc s = Some (x, r) \<Longrightarrow> length r < length s"
proof (induction acc s rule: lex_str.induct)
  case (1 acc)
  then show ?case by simp
next
  case (2 acc c s)
  consider "c = quote" | (plain) "c \<noteq> quote" "c \<noteq> backslash" "code c \<ge> 32" | (esc) d t where
    "c = backslash" "c \<noteq> quote" "code c \<ge> 32" "s = d # t"
    using "2.prems" by (cases s) (auto split: if_splits)
  then show ?case
  proof cases
    case esc
    show ?thesis
    proof (cases "d = CHR ''u''")
      case True
      with esc "2.prems" obtain y t' where "unicode_escape t = Some (y, t')" "lex_str (acc @ y) t' = Some (x, r)"
        by (auto split: option.splits)
      with "2.IH"(1) esc True unicode_escape_length show ?thesis by fastforce
    next
      case False
      with esc "2.prems" obtain y where "simple_escape d = Some y" "lex_str (acc @ [y]) t = Some (x, r)"
        by (auto split: option.splits)
      with "2.IH"(2) esc False show ?thesis by fastforce
    qed
  qed (use 2 in auto)
qed

text \<open>A number: an optional sign, an integer part without leading zeros, a fraction, an exponent.\<close>

definition lex_digits :: "string \<Rightarrow> (string \<times> string) option" where
  "lex_digits s = (if takeWhile is_digit s = [] then None else Some (takeWhile is_digit s, dropWhile is_digit s))"

definition lex_exp :: "string \<Rightarrow> (int \<times> string) option" where
  "lex_exp s =
     (case s of
        [] \<Rightarrow> Some (0, [])
      | c # r \<Rightarrow>
          if c = CHR ''e'' \<or> c = CHR ''E'' then
            (let (neg, t) = signed_part r in
             map_option (\<lambda>(ds, r'). (if neg then - int (digits_val ds) else int (digits_val ds), r')) (lex_digits t))
          else Some (0, s))"

definition lex_num :: "string \<Rightarrow> (num \<times> string) option" where
  "lex_num s =
     (let (neg, u) = (if take 1 s = ''-'' then (True, drop 1 s) else (False, s)) in
      Option.bind (lex_digits u) (\<lambda>(ip, r).
        if length ip > 1 \<and> hd ip = CHR ''0'' then None
        else Option.bind (if take 1 r = ''.'' then lex_digits (drop 1 r) else Some ([], r)) (\<lambda>(fp, r2).
          map_option (\<lambda>(e, r3).
            (let x = of_nat (digits_val (ip @ fp)) / 10 ^ length fp * pow10 e in (if neg then - x else x, r3)))
            (lex_exp r2))))"

definition punct :: "char \<Rightarrow> tok option" where
  "punct c = map_of [(CHR ''['', LBrack), (CHR '']'', RBrack), (CHR ''{'', LBrace), (CHR ''}'', RBrace),
     (CHR '','', Comma), (CHR '':'', Colon)] c"

definition json_ws :: "char \<Rightarrow> bool" where
  "json_ws c \<longleftrightarrow> code c \<in> {32, 9, 10, 13}"

text \<open>A token is never longer than what is left; the length test keeps the cutting total.\<close>

definition lex_one :: "string \<Rightarrow> (tok \<times> string) option" where
  "lex_one s =
     (case s of
        [] \<Rightarrow> None
      | c # r \<Rightarrow>
          (case punct c of
             Some t \<Rightarrow> Some (t, r)
           | None \<Rightarrow>
               if c = quote then map_option (\<lambda>(x, r'). (Lit (JStr x), r')) (lex_str [] r)
               else if starts_with s ''true'' then Some (Lit (JBool True), drop 4 s)
               else if starts_with s ''false'' then Some (Lit (JBool False), drop 5 s)
               else if starts_with s ''null'' then Some (Lit JNull, drop 4 s)
               else map_option (\<lambda>(x, r'). (Lit (JNum x), r')) (lex_num s)))"

lemma lex_digits_length: "lex_digits s = Some (d, r) \<Longrightarrow> length r < length s"
proof -
  assume a: "lex_digits s = Some (d, r)"
  then have "takeWhile is_digit s \<noteq> []" "r = dropWhile is_digit s" by (auto simp: lex_digits_def split: if_splits)
  then show ?thesis by (cases s) (auto split: if_splits simp: less_Suc_eq_le length_dropWhile_le)
qed

lemma lex_exp_length: "lex_exp s = Some (e, r) \<Longrightarrow> length r \<le> length s"
proof -
  have sp: "length (snd (signed_part t)) \<le> length t" for t by (cases t) auto
  assume "lex_exp s = Some (e, r)"
  then show ?thesis using sp [of "tl s"]
    by (auto simp: lex_exp_def split: list.splits if_splits prod.splits dest!: lex_digits_length)
qed

lemma lex_num_length: "lex_num s = Some (x, r) \<Longrightarrow> length r < length s"
  by (fastforce simp: lex_num_def Let_def bind_eq_Some_conv split: if_splits prod.splits
      dest!: lex_digits_length lex_exp_length)

lemma lex_one_length: "lex_one s = Some (t, r) \<Longrightarrow> length r < length s"
  by (auto simp: lex_one_def split: list.splits option.splits if_splits
      dest: lex_str_length lex_num_length)

function lex :: "string \<Rightarrow> tok list option" where
  "lex s =
     (case s of
        [] \<Rightarrow> Some []
      | c # r \<Rightarrow>
          if json_ws c then lex r
          else (case lex_one (c # r) of
                  None \<Rightarrow> None
                | Some (t, r') \<Rightarrow> map_option ((#) t) (lex r')))"
  by pat_completeness auto
termination
  by (relation "measure length") (auto dest: lex_one_length)

declare lex.simps [simp del]

section \<open>Values\<close>

datatype frame = FArr "json list" | FObj "(string \<times> json) list" string
datatype mode = Want | WantOrClose | After | KeyOrClose | WantKey | WantColon string | Finished json

text \<open>Sets a key: in its old place if it is there, else last.\<close>

definition obj_set :: "string \<Rightarrow> json \<Rightarrow> (string \<times> json) list \<Rightarrow> (string \<times> json) list" where
  "obj_set k v kvs =
     (if k \<in> fst ` set kvs then map (\<lambda>(a, b). (a, if a = k then v else b)) kvs else kvs @ [(k, v)])"

fun complete :: "json \<Rightarrow> frame list \<Rightarrow> frame list \<times> mode" where
  "complete v [] = ([], Finished v)"
| "complete v (FArr xs # st) = (FArr (xs @ [v]) # st, After)"
| "complete v (FObj kvs k # st) = (FObj (obj_set k v kvs) k # st, After)"

definition want_value :: "tok \<Rightarrow> frame list \<Rightarrow> (frame list \<times> mode) option" where
  "want_value t st =
     (case t of
        Lit v \<Rightarrow> Some (complete v st)
      | LBrack \<Rightarrow> Some (FArr [] # st, WantOrClose)
      | LBrace \<Rightarrow> Some (FObj [] [] # st, KeyOrClose)
      | _ \<Rightarrow> None)"

text \<open>What may follow a value: a comma or the end of the enclosing array or object.\<close>

fun after_value :: "tok \<Rightarrow> frame list \<Rightarrow> (frame list \<times> mode) option" where
  "after_value Comma (FArr xs # st) = Some (FArr xs # st, Want)"
| "after_value Comma (FObj kvs k # st) = Some (FObj kvs k # st, WantKey)"
| "after_value RBrack (FArr xs # st) = Some (complete (JArr xs) st)"
| "after_value RBrace (FObj kvs k # st) = Some (complete (JObj kvs) st)"
| "after_value _ _ = None"

definition want_key :: "tok \<Rightarrow> frame list \<Rightarrow> (frame list \<times> mode) option" where
  "want_key t st =
     (case t of Lit v \<Rightarrow> (case v of JStr k \<Rightarrow> Some (st, WantColon k) | _ \<Rightarrow> None) | _ \<Rightarrow> None)"

definition feed :: "tok \<Rightarrow> frame list \<times> mode \<Rightarrow> (frame list \<times> mode) option" where
  "feed t s =
     (case s of (st, md) \<Rightarrow>
        (case md of
           Want \<Rightarrow> want_value t st
         | WantOrClose \<Rightarrow> if t = RBrack then after_value t st else want_value t st
         | After \<Rightarrow> after_value t st
         | KeyOrClose \<Rightarrow> if t = RBrace then after_value t st else want_key t st
         | WantKey \<Rightarrow> want_key t st
         | WantColon k \<Rightarrow>
             (case (t, st) of (Colon, FObj kvs _ # st') \<Rightarrow> Some (FObj kvs k # st', Want) | _ \<Rightarrow> None)
         | Finished v \<Rightarrow> None))"

fun feed_all :: "tok list \<Rightarrow> frame list \<times> mode \<Rightarrow> (frame list \<times> mode) option" where
  "feed_all [] s = Some s"
| "feed_all (t # ts) s = Option.bind (feed t s) (feed_all ts)"

definition json_parse :: "string \<Rightarrow> json option" where
  "json_parse s =
     Option.bind (lex s) (\<lambda>ts. Option.bind (feed_all ts ([], Want)) (\<lambda>(st, md).
       (case md of Finished v \<Rightarrow> Some v | _ \<Rightarrow> None)))"

section \<open>Writing\<close>

definition hex_digit :: "nat \<Rightarrow> char" where
  "hex_digit n = (if n < 10 then char_of (48 + n) else char_of (87 + n))"

definition esc_char :: "char \<Rightarrow> string" where
  "esc_char c =
     (case map_of [(quote, quote), (backslash, backslash), (CHR 0x08, CHR ''b''), (CHR 0x0C, CHR ''f''),
         (CHR 0x0A, CHR ''n''), (CHR 0x0D, CHR ''r''), (CHR 0x09, CHR ''t'')] c of
        Some d \<Rightarrow> [backslash, d]
      | None \<Rightarrow>
          if code c < 32
          then [backslash] @ ''u00'' @ [hex_digit (code c div 16), hex_digit (code c mod 16)]
          else [c])"

definition json_quote :: "string \<Rightarrow> string" where
  "json_quote s = [quote] @ concat (map esc_char s) @ [quote]"

text \<open>The order of an object's own keys: array indices in ascending order, then the others as added.\<close>

definition array_index :: "string \<Rightarrow> nat option" where
  "array_index k =
     (if list_all is_digit k \<and> k = nat_str (digits_val k) \<and> int (digits_val k) < 4294967295
      then Some (digits_val k) else None)"

definition index_before :: "string \<times> 'a \<Rightarrow> string \<times> 'a \<Rightarrow> bool" where
  "index_before a b =
     (case (array_index (fst a), array_index (fst b)) of
        (Some m, Some n) \<Rightarrow> m < n
      | (Some _, None) \<Rightarrow> True
      | _ \<Rightarrow> False)"

definition own_entries :: "(string \<times> 'a) list \<Rightarrow> (string \<times> 'a) list" where
  "own_entries kvs = sort_by index_before kvs"

fun json_str :: "json \<Rightarrow> string" where
  "json_str JNull = ''null''"
| "json_str (JBool b) = (if b then ''true'' else ''false'')"
| "json_str (JNum x) = num_str x"
| "json_str (JStr s) = json_quote s"
| "json_str (JArr xs) = ''['' @ join '','' (map json_str xs) @ '']''"
| "json_str (JObj kvs) =
     ''{'' @ join '','' (map (\<lambda>(k, v). json_quote k @ '':'' @ v)
       (own_entries (map (\<lambda>(k, v). (k, json_str v)) kvs))) @ ''}''"

section \<open>Reading properties and converting to text\<close>

text \<open>\<open>x.key\<close>: the outer \<open>None\<close> is the \<open>TypeError\<close> on \<open>null\<close>; the inner one is \<open>undefined\<close>.\<close>

fun prop_of :: "json \<Rightarrow> string \<Rightarrow> json option option" where
  "prop_of JNull k = None"
| "prop_of (JObj kvs) k = Some (map_of kvs k)"
| "prop_of _ k = Some None"

text \<open>\<open>a ?? b\<close> on a property's value.\<close>

fun nullish :: "json option \<Rightarrow> bool" where
  "nullish None = True"
| "nullish (Some JNull) = True"
| "nullish _ = False"

text \<open>\<open>String(x)\<close>; in an array an absent element and \<open>null\<close> are empty.\<close>

fun js_string :: "json \<Rightarrow> string" where
  "js_string JNull = ''null''"
| "js_string (JBool b) = (if b then ''true'' else ''false'')"
| "js_string (JNum x) = num_str x"
| "js_string (JStr s) = s"
| "js_string (JArr xs) = join '','' (map (\<lambda>x. if x = JNull then [] else js_string x) xs)"
| "js_string (JObj kvs) = ''[object Object]''"

fun template :: "json option \<Rightarrow> string" where
  "template None = ''undefined''"
| "template (Some v) = js_string v"

fun joined :: "json option \<Rightarrow> string" where
  "joined None = []"
| "joined (Some JNull) = []"
| "joined (Some v) = js_string v"

text \<open>\<open>xs.map(f)\<close> with an \<open>f\<close> that may throw.\<close>

fun map_try :: "('a \<Rightarrow> 'b option) \<Rightarrow> 'a list \<Rightarrow> 'b list option" where
  "map_try f [] = Some []"
| "map_try f (x # xs) = Option.bind (f x) (\<lambda>y. map_option ((#) y) (map_try f xs))"

end
