(* ===== verification/FilterQuery.thy ===== *)
theory FilterQuery
  imports JsJson
begin

text \<open>
  \<open>components/reui/filters/filters-query.tsx\<close>: the filter tree of the Calls page and every operation
  on it. A node is a rule or a group; a query is a group (the operations leave a bare rule, which the
  source's types exclude, as it is). The \<open>changed\<close> flags of \<open>removeFilterNode\<close> are kept because they
  decide whether an empty group that was already there survives; where they only preserve object
  identity (\<open>rewriteGroup\<close>, \<open>detachFilterNode\<close>) the value is the same either way. The id factory of
  \<open>filters-lib.tsx\<close> is a seed and a counter, passed and returned.
\<close>

section \<open>The tree\<close>

datatype combinator = AndC | OrC

text \<open>A rule's value: \<open>undefined\<close>, \<open>null\<close>, a boolean, a number, a string, a date (in milliseconds, or
  invalid), an array.\<close>

datatype fvalue =
    FvUndef
  | FvNull
  | FvBool bool
  | FvNum jsnum
  | FvStr string
  | FvDate "num option"
  | FvArr "fvalue list"

record frule =
  fr_id :: string
  fr_path :: "string list"
  fr_operator :: string
  fr_value :: fvalue
  fr_negated :: bool

datatype fnode = Rule frule | Group string combinator "fnode list"

fun node_id :: "fnode \<Rightarrow> string" where
  "node_id (Rule r) = fr_id r"
| "node_id (Group g c rs) = g"

fun node_rules :: "fnode \<Rightarrow> fnode list" where
  "node_rules (Rule r) = []"
| "node_rules (Group g c rs) = rs"

fun node_combinator :: "fnode \<Rightarrow> combinator" where
  "node_combinator (Rule r) = AndC"
| "node_combinator (Group g c rs) = c"

fun isFilterRule :: "fnode \<Rightarrow> bool" where
  "isFilterRule (Rule _) = True"
| "isFilterRule (Group _ _ _) = False"

fun isFilterGroup :: "fnode \<Rightarrow> bool" where
  "isFilterGroup (Rule _) = False"
| "isFilterGroup (Group _ _ _) = True"

definition createFilterRule :: "string \<Rightarrow> string list \<Rightarrow> string \<Rightarrow> fvalue \<Rightarrow> bool \<Rightarrow> frule" where
  "createFilterRule i p opr v neg =
     \<lparr>fr_id = i, fr_path = p, fr_operator = opr, fr_value = v, fr_negated = neg\<rparr>"

definition createFilterGroup :: "string \<Rightarrow> combinator option \<Rightarrow> fnode list option \<Rightarrow> fnode" where
  "createFilterGroup i c rs =
     Group i (case c of Some x \<Rightarrow> x | None \<Rightarrow> AndC) (case rs of Some x \<Rightarrow> x | None \<Rightarrow> [])"

definition createFilterQuery :: "fnode list \<Rightarrow> combinator \<Rightarrow> string \<Rightarrow> fnode" where
  "createFilterQuery rs c i = Group i c rs"

text \<open>The factory \<open>createFilterIdFactory(seed)\<close>: the next id and the counter after it.\<close>

definition next_id :: "string \<Rightarrow> nat \<Rightarrow> string \<times> nat" where
  "next_id seed n = (seed @ nat_str (n + 1), n + 1)"

section \<open>Reading\<close>

fun flattenFilterRules :: "fnode \<Rightarrow> frule list" where
  "flattenFilterRules (Rule r) = [r]"
| "flattenFilterRules (Group g c rs) = concat (map flattenFilterRules rs)"

record fcondition =
  fc_path :: "string list"
  fc_field :: string
  fc_operator :: string
  fc_values :: "fvalue list"
  fc_negated :: bool

definition isFilterRuleComplete :: "frule \<Rightarrow> bool" where
  "isFilterRuleComplete r \<longleftrightarrow> fr_operator r \<noteq> []"

fun rule_values :: "fvalue \<Rightarrow> fvalue list" where
  "rule_values FvUndef = []"
| "rule_values FvNull = []"
| "rule_values (FvArr vs) = vs"
| "rule_values v = [v]"

definition condition_of :: "frule \<Rightarrow> fcondition" where
  "condition_of r =
     \<lparr>fc_path = fr_path r, fc_field = (case fr_path r of [] \<Rightarrow> ''undefined'' | p # _ \<Rightarrow> p),
      fc_operator = fr_operator r, fc_values = rule_values (fr_value r), fc_negated = fr_negated r\<rparr>"

definition flattenFilterConditions :: "fnode \<Rightarrow> fcondition list" where
  "flattenFilterConditions q = map condition_of (filter isFilterRuleComplete (flattenFilterRules q))"

fun countFilterRules :: "fnode \<Rightarrow> nat" where
  "countFilterRules (Rule r) = 1"
| "countFilterRules (Group g c rs) = sum_list (map countFilterRules rs)"

definition isFilterQueryEmpty :: "fnode \<Rightarrow> bool" where
  "isFilterQueryEmpty q \<longleftrightarrow> countFilterRules q = 0"

text \<open>Where a node is: the node, its parent, its index there. The root has neither.\<close>

fun find_walk :: "string \<Rightarrow> fnode \<Rightarrow> (fnode \<times> fnode \<times> nat) option"
  and find_kids :: "string \<Rightarrow> fnode \<Rightarrow> nat \<Rightarrow> fnode list \<Rightarrow> (fnode \<times> fnode \<times> nat) option" where
  "find_walk i (Rule r) = None"
| "find_walk i (Group g c rs) = find_kids i (Group g c rs) 0 rs"
| "find_kids i p k [] = None"
| "find_kids i p k (x # xs) =
     (if node_id x = i then Some (x, p, k)
      else (case find_walk i x of Some f \<Rightarrow> Some f | None \<Rightarrow> find_kids i p (Suc k) xs))"

definition findFilterNode :: "fnode \<Rightarrow> string \<Rightarrow> (fnode \<times> (fnode \<times> nat) option) option" where
  "findFilterNode q i =
     (if node_id q = i then Some (q, None)
      else map_option (\<lambda>(x, p, k). (x, Some (p, k))) (find_walk i q))"

definition findFilterRule :: "fnode \<Rightarrow> string \<Rightarrow> frule option" where
  "findFilterRule q i = (case findFilterNode q i of Some (Rule r, _) \<Rightarrow> Some r | _ \<Rightarrow> None)"

section \<open>Issues\<close>

datatype arity = ArNone | ArOne | ArMany | ArRange
datatype issue_reason = MissingOperator | MissingValue | IncompleteRange | ReversedRange | EmptyGroup | CustomIssue string
datatype issue_column = ColGroup | ColOperator | ColValue

record fissue =
  fi_node :: string
  fi_column :: issue_column
  fi_reason :: issue_reason

definition Issue :: "string \<Rightarrow> issue_column \<Rightarrow> issue_reason \<Rightarrow> fissue" where
  "Issue n c r = \<lparr>fi_node = n, fi_column = c, fi_reason = r\<rparr>"

definition isBlankFilterValue :: "fvalue \<Rightarrow> bool" where
  "isBlankFilterValue v \<longleftrightarrow> v = FvUndef \<or> v = FvNull \<or> v = FvStr []"

text \<open>The difference of two dates; \<open>None\<close> is \<open>null\<close>.\<close>

definition date_difference :: "num option \<Rightarrow> num option \<Rightarrow> jsnum option" where
  "date_difference a b =
     (case a of None \<Rightarrow> None | Some x \<Rightarrow> (case b of None \<Rightarrow> None | Some y \<Rightarrow> Some (Num (x - y))))"

fun compareFilterBounds :: "fvalue \<Rightarrow> fvalue \<Rightarrow> jsnum option" where
  "compareFilterBounds (FvNum x) (FvNum y) = (if x = NaN \<or> y = NaN then None else Some (js_minus x y))"
| "compareFilterBounds (FvDate a) (FvDate b) = date_difference a b"
| "compareFilterBounds (FvStr a) (FvStr b) = date_difference (date_parse a) (date_parse b)"
| "compareFilterBounds _ _ = None"

fun positive :: "jsnum \<Rightarrow> bool" where
  "positive (Num x) = (x > 0)"
| "positive PosInf = True"
| "positive _ = False"

definition range_issue :: "frule \<Rightarrow> fvalue list \<Rightarrow> fissue list" where
  "range_issue r vs =
     (if length vs < 2 \<or> isBlankFilterValue (vs ! 0) \<or> isBlankFilterValue (vs ! 1)
      then [Issue (fr_id r) ColValue IncompleteRange]
      else (case compareFilterBounds (vs ! 0) (vs ! 1) of
              Some d \<Rightarrow> if positive d then [Issue (fr_id r) ColValue ReversedRange] else []
            | None \<Rightarrow> []))"

text \<open>The issue of a rule, if any: \<open>arityOf\<close> and \<open>validateOf\<close> are the caller's resolvers.\<close>

definition rule_issue :: "(frule \<Rightarrow> arity option) \<Rightarrow> (frule \<Rightarrow> string option) \<Rightarrow> frule \<Rightarrow> fissue list" where
  "rule_issue arityOf validateOf r =
     (case arityOf r of
        None \<Rightarrow> []
      | Some a \<Rightarrow>
          if \<not> isFilterRuleComplete r then [Issue (fr_id r) ColOperator MissingOperator]
          else if a = ArNone then []
          else (let vs = rule_values (fr_value r) in
            if a = ArRange then range_issue r vs
            else if vs = [] \<or> list_all isBlankFilterValue vs then [Issue (fr_id r) ColValue MissingValue]
            else (case validateOf r of
                    Some m \<Rightarrow> if m \<noteq> [] then [Issue (fr_id r) ColValue (CustomIssue m)] else []
                  | None \<Rightarrow> [])))"

fun visit_issues :: "(frule \<Rightarrow> arity option) \<Rightarrow> (frule \<Rightarrow> string option) \<Rightarrow> bool \<Rightarrow> fnode \<Rightarrow> fissue list" where
  "visit_issues ar va isRoot (Rule r) = rule_issue ar va r"
| "visit_issues ar va isRoot (Group g c rs) =
     (if \<not> isRoot \<and> rs = [] then [Issue g ColGroup EmptyGroup] else []) @
     concat (map (visit_issues ar va False) rs)"

definition collectFilterIssues :: "fnode \<Rightarrow> (frule \<Rightarrow> arity option) \<Rightarrow> (frule \<Rightarrow> string option) \<Rightarrow> fissue list" where
  "collectFilterIssues q arityOf validateOf = visit_issues arityOf validateOf True q"

section \<open>Changing\<close>

fun rewriteGroup :: "(fnode \<Rightarrow> bool) \<Rightarrow> (fnode \<Rightarrow> fnode) \<Rightarrow> fnode \<Rightarrow> fnode" where
  "rewriteGroup P f (Rule r) = Rule r"
| "rewriteGroup P f (Group g c rs) =
     (if P (Group g c rs) then f (Group g c rs) else Group g c (map (rewriteGroup P f) rs))"

text \<open>\<open>{ ...group, rules }\<close>\<close>

fun with_rules :: "fnode \<Rightarrow> fnode list \<Rightarrow> fnode" where
  "with_rules (Rule r) rs = Rule r"
| "with_rules (Group g c _) rs = Group g c rs"

definition update_node :: "string \<Rightarrow> (frule \<Rightarrow> frule) \<Rightarrow> fnode \<Rightarrow> fnode" where
  "update_node i upd x = (case x of Rule r \<Rightarrow> if fr_id r = i then Rule (upd r) else x | _ \<Rightarrow> x)"

text \<open>\<open>upd\<close> is \<open>{ ...child, ...updates }\<close>, which keeps the id.\<close>

definition updateFilterRule :: "fnode \<Rightarrow> string \<Rightarrow> (frule \<Rightarrow> frule) \<Rightarrow> fnode" where
  "updateFilterRule q i upd =
     rewriteGroup (\<lambda>g. list_ex (\<lambda>x. node_id x = i \<and> isFilterRule x) (node_rules g))
       (\<lambda>g. with_rules g (map (update_node i upd) (node_rules g))) q"

fun remove_walk :: "string \<Rightarrow> fnode \<Rightarrow> bool \<times> fnode"
  and remove_kids :: "string \<Rightarrow> fnode list \<Rightarrow> bool \<times> fnode list" where
  "remove_walk i (Rule r) = (False, Rule r)"
| "remove_walk i (Group g c rs) =
     (let (changed, out) = remove_kids i rs in (changed, Group g c (if changed then out else rs)))"
| "remove_kids i [] = (False, [])"
| "remove_kids i (x # xs) =
     (let (changed, out) = remove_kids i xs in
      if node_id x = i then (True, out)
      else if isFilterGroup x then
        (let (ch, y) = remove_walk i x in
         (ch \<or> changed, if node_rules y = [] then out else y # out))
      else (changed, x # out))"

definition removeFilterNode :: "fnode \<Rightarrow> string \<Rightarrow> fnode" where
  "removeFilterNode q i = snd (remove_walk i q)"

definition splice_in :: "fnode list \<Rightarrow> int option \<Rightarrow> fnode \<Rightarrow> fnode list" where
  "splice_in rs index x =
     (let k = (case index of None \<Rightarrow> length rs | Some j \<Rightarrow> nat (max 0 (min j (int (length rs)))))
      in take k rs @ x # drop k rs)"

definition insertFilterNode :: "fnode \<Rightarrow> fnode \<Rightarrow> string option \<Rightarrow> int option \<Rightarrow> fnode" where
  "insertFilterNode q x parentId index =
     (let target = (case parentId of Some p \<Rightarrow> p | None \<Rightarrow> node_id q)
      in rewriteGroup (\<lambda>g. node_id g = target) (\<lambda>g. with_rules g (splice_in (node_rules g) index x)) q)"

fun cloneFilterNode :: "string \<Rightarrow> fnode \<Rightarrow> nat \<Rightarrow> fnode \<times> nat"
  and clone_kids :: "string \<Rightarrow> fnode list \<Rightarrow> nat \<Rightarrow> fnode list \<times> nat" where
  "cloneFilterNode seed (Rule r) n = (let (i, n') = next_id seed n in (Rule (r\<lparr>fr_id := i\<rparr>), n'))"
| "cloneFilterNode seed (Group g c rs) n =
     (let (i, n') = next_id seed n; (rs', n'') = clone_kids seed rs n' in (Group i c rs', n''))"
| "clone_kids seed [] n = ([], n)"
| "clone_kids seed (x # xs) n =
     (let (y, n') = cloneFilterNode seed x n; (ys, n'') = clone_kids seed xs n' in (y # ys, n''))"

definition duplicateFilterNode :: "fnode \<Rightarrow> string \<Rightarrow> string \<Rightarrow> nat \<Rightarrow> fnode \<times> nat" where
  "duplicateFilterNode q i seed n =
     (case findFilterNode q i of
        Some (x, Some (p, k)) \<Rightarrow>
          (let (y, n') = cloneFilterNode seed x n
           in (insertFilterNode q y (Some (node_id p)) (Some (int k + 1)), n'))
      | _ \<Rightarrow> (q, n))"

fun with_combinator :: "combinator \<Rightarrow> fnode \<Rightarrow> fnode" where
  "with_combinator c (Rule r) = Rule r"
| "with_combinator c (Group g _ rs) = Group g c rs"

definition setFilterCombinator :: "fnode \<Rightarrow> string \<Rightarrow> combinator \<Rightarrow> fnode" where
  "setFilterCombinator q gid c = rewriteGroup (\<lambda>g. node_id g = gid) (with_combinator c) q"

definition toggleFilterCombinator :: "fnode \<Rightarrow> string \<Rightarrow> fnode" where
  "toggleFilterCombinator q gid =
     (case findFilterNode q gid of
        Some (Group g c rs, _) \<Rightarrow> setFilterCombinator q gid (if c = AndC then OrC else AndC)
      | _ \<Rightarrow> q)"

text \<open>\<open>rules.splice(from, 1)\<close> then \<open>rules.splice(to, 0, moved)\<close>.\<close>

definition splice_move :: "fnode list \<Rightarrow> nat \<Rightarrow> nat \<Rightarrow> fnode list" where
  "splice_move rs from to1 =
     (let rest = take from rs @ drop (Suc from) rs in take to1 rest @ rs ! from # drop to1 rest)"

definition moveFilterNode :: "fnode \<Rightarrow> string \<Rightarrow> int \<Rightarrow> fnode" where
  "moveFilterNode q i delta =
     (case findFilterNode q i of
        Some (x, Some (p, k)) \<Rightarrow>
          (let to1 = int k + delta in
           if to1 < 0 \<or> to1 \<ge> int (length (node_rules p)) \<or> delta = 0 then q
           else rewriteGroup (\<lambda>g. node_id g = node_id p)
                  (\<lambda>g. with_rules g (splice_move (node_rules g) k (nat to1))) q)
      | _ \<Rightarrow> q)"

fun containsFilterNode :: "fnode \<Rightarrow> string \<Rightarrow> bool" where
  "containsFilterNode (Rule r) i = (fr_id r = i)"
| "containsFilterNode (Group g c rs) i = (g = i \<or> list_ex (\<lambda>x. containsFilterNode x i) rs)"

fun detachFilterNode :: "fnode \<Rightarrow> string \<Rightarrow> fnode" where
  "detachFilterNode (Rule r) i = Rule r"
| "detachFilterNode (Group g c rs) i =
     Group g c (map (\<lambda>x. detachFilterNode x i) (filter (\<lambda>x. node_id x \<noteq> i) rs))"

definition moveFilterNodeTo :: "fnode \<Rightarrow> string \<Rightarrow> string \<Rightarrow> int \<Rightarrow> fnode" where
  "moveFilterNodeTo q i parentId index =
     (case findFilterNode q i of
        Some (x, Some (p, k)) \<Rightarrow>
          if containsFilterNode x parentId then q
          else (case findFilterNode q parentId of
                  Some (Group _ _ _, _) \<Rightarrow>
                    (let sameParent = (node_id p = parentId);
                         target = (if sameParent \<and> int k < index then index - 1 else index)
                     in if sameParent \<and> target = int k then q
                        else insertFilterNode (detachFilterNode q i) x (Some parentId) (Some target))
                | _ \<Rightarrow> q)
      | _ \<Rightarrow> q)"

definition copyFilterNodeTo :: "fnode \<Rightarrow> string \<Rightarrow> string \<Rightarrow> int \<Rightarrow> string \<Rightarrow> nat \<Rightarrow> fnode \<times> nat" where
  "copyFilterNodeTo q i parentId index seed n =
     (case findFilterNode q i of
        Some (x, Some (p, k)) \<Rightarrow>
          (case findFilterNode q parentId of
             Some (Group _ _ _, _) \<Rightarrow>
               (let (y, n') = cloneFilterNode seed x n
                in (insertFilterNode q y (Some parentId) (Some index), n'))
           | _ \<Rightarrow> (q, n))
      | _ \<Rightarrow> (q, n))"

definition wrap_child :: "string \<Rightarrow> string \<Rightarrow> combinator \<Rightarrow> fnode \<Rightarrow> fnode" where
  "wrap_child i gid c x = (if node_id x = i then createFilterGroup gid (Some c) (Some [x]) else x)"

definition wrapFilterNodeInGroup :: "fnode \<Rightarrow> string \<Rightarrow> string \<Rightarrow> combinator \<Rightarrow> fnode" where
  "wrapFilterNodeInGroup q i gid c =
     (case findFilterNode q i of
        Some (x, Some (p, k)) \<Rightarrow>
          rewriteGroup (\<lambda>g. node_id g = node_id p)
            (\<lambda>g. with_rules g (map (wrap_child i gid c) (node_rules g))) q
      | _ \<Rightarrow> q)"

definition unwrapFilterGroup :: "fnode \<Rightarrow> string \<Rightarrow> fnode" where
  "unwrapFilterGroup q gid =
     (if node_id q = gid then q
      else (case findFilterNode q gid of
              Some (Group g c rs, Some (p, k)) \<Rightarrow>
                rewriteGroup (\<lambda>h. node_id h = node_id p)
                  (\<lambda>h. with_rules h (take k (node_rules h) @ rs @ drop (Suc k) (node_rules h))) q
            | _ \<Rightarrow> q))"

definition clearFilterQuery :: "fnode \<Rightarrow> fnode" where
  "clearFilterQuery q = with_rules q []"

fun prune_node :: "fnode \<Rightarrow> fnode option" where
  "prune_node (Rule r) = Some (Rule r)"
| "prune_node (Group g c rs) =
     (case somes (map prune_node rs) of
        [] \<Rightarrow> None
      | [x] \<Rightarrow> if isFilterGroup x then Some x else Some (Group g c [x])
      | xs \<Rightarrow> Some (Group g c xs))"

definition pruneFilterQuery :: "fnode \<Rightarrow> fnode" where
  "pruneFilterQuery q = with_rules q (somes (map prune_node (node_rules q)))"

section \<open>Nodes, ids and uniqueness\<close>

text \<open>All nodes, the root first, and their ids.\<close>

fun nodes :: "fnode \<Rightarrow> fnode list" where
  "nodes (Rule r) = [Rule r]"
| "nodes (Group g c rs) = Group g c rs # concat (map nodes rs)"

definition ids :: "fnode \<Rightarrow> string list" where
  "ids q = map node_id (nodes q)"

lemma ids_simps [simp]:
  "ids (Rule r) = [fr_id r]" "ids (Group g c rs) = g # concat (map ids rs)"
  by (simp_all add: ids_def map_concat comp_def) (simp add: ids_def [abs_def])

lemma self_in_nodes [simp]: "x \<in> set (nodes x)"
  by (cases x) auto

lemma node_id_in_ids [simp]: "node_id x \<in> set (ids x)"
  by (cases x) auto

lemma set_ids: "set (ids q) = node_id ` set (nodes q)"
  by (simp add: ids_def)

lemma nodes_trans: "y \<in> set (nodes x) \<Longrightarrow> x \<in> set (nodes q) \<Longrightarrow> y \<in> set (nodes q)"
  by (induction q) auto

lemma kid_in_nodes: "x \<in> set (node_rules p) \<Longrightarrow> x \<in> set (nodes p)"
  by (cases p) force+

lemma child_in_nodes: "p \<in> set (nodes q) \<Longrightarrow> x \<in> set (node_rules p) \<Longrightarrow> x \<in> set (nodes q)"
  by (rule nodes_trans [OF kid_in_nodes])

lemma distinct_nodes: "distinct (ids q) \<Longrightarrow> x \<in> set (nodes q) \<Longrightarrow> y \<in> set (nodes q) \<Longrightarrow>
    node_id x = node_id y \<Longrightarrow> x = y"
  unfolding ids_def by (metis distinct_map inj_onD)

lemma distinct_concat_kids:
  "distinct (concat (map f rs)) \<Longrightarrow> x \<in> set rs \<Longrightarrow> distinct (f x)"
  by (induction rs) auto

lemma distinct_kid: "distinct (ids (Group g c rs)) \<Longrightarrow> x \<in> set rs \<Longrightarrow> distinct (ids x)"
  by (auto intro: distinct_concat_kids)

text \<open>Two children that share an id are the same.\<close>

lemma kids_disjoint:
  "distinct (concat (map ids rs)) \<Longrightarrow> z \<in> set rs \<Longrightarrow> z' \<in> set rs \<Longrightarrow> i \<in> set (ids z) \<Longrightarrow>
     i \<in> set (ids z') \<Longrightarrow> z = z'"
  by (induction rs) auto

lemma ids_tl: "ids z = node_id z # tl (ids z)"
  by (cases z) auto

lemma distinct_tl: "distinct (ids z) \<Longrightarrow> node_id z \<notin> set (tl (ids z))"
  by (metis ids_tl distinct.simps(2))

lemma strict_below: "p \<in> set (nodes z) \<Longrightarrow> x \<in> set (node_rules p) \<Longrightarrow> node_id x \<in> set (tl (ids z))"
proof (induction z)
  case (Rule r)
  then show ?case by auto
next
  case (Group g c rs)
  show ?case
  proof (cases "p = Group g c rs")
    case True
    with Group.prems show ?thesis by force
  next
    case False
    with Group.prems obtain z where "z \<in> set rs" "p \<in> set (nodes z)" by auto
    with Group.prems(2) have "node_id x \<in> set (ids z)"
      using child_in_nodes by (auto simp: set_ids)
    with \<open>z \<in> set rs\<close> show ?thesis by auto
  qed
qed

lemma parent_unique:
  "distinct (ids q) \<Longrightarrow> p \<in> set (nodes q) \<Longrightarrow> p' \<in> set (nodes q) \<Longrightarrow> x \<in> set (node_rules p) \<Longrightarrow>
     x' \<in> set (node_rules p') \<Longrightarrow> node_id x = node_id x' \<Longrightarrow> p = p'"
proof (induction q)
  case (Rule r)
  then show ?case by auto
next
  case (Group g c rs)
  have d: "distinct (concat (map ids rs))" using Group.prems(1) by simp
  have below: "\<exists>z \<in> set rs. p \<in> set (nodes z)" if "p \<in> set (nodes (Group g c rs))" "p \<noteq> Group g c rs" for p
    using that by auto
  have root1: False if z: "z \<in> set rs" "p \<in> set (nodes z)" "x \<in> set (node_rules p)"
      and y: "y \<in> set rs" "node_id y = node_id x" for z p x y
  proof -
    have t: "node_id x \<in> set (tl (ids z))" by (rule strict_below [OF z(2,3)])
    then have "node_id y \<in> set (ids z)" unfolding y(2) by (metis ids_tl list.set_intros(2))
    from kids_disjoint [OF d y(1) z(1) node_id_in_ids this] have "y = z" .
    moreover have "distinct (ids z)" by (rule distinct_concat_kids [OF d z(1)])
    ultimately show False using t y(2) distinct_tl [of z] by simp
  qed
  show ?case
  proof (cases "p = Group g c rs"; cases "p' = Group g c rs")
    assume r: "p = Group g c rs" "p' \<noteq> Group g c rs"
    with below [OF Group.prems(3)] obtain z where "z \<in> set rs" "p' \<in> set (nodes z)" by blast
    moreover have "x \<in> set rs" using Group.prems(4) r by simp
    ultimately show ?thesis using root1 [of z p' x' x] Group.prems(5,6) by blast
  next
    assume r: "p \<noteq> Group g c rs" "p' = Group g c rs"
    with below [OF Group.prems(2)] obtain z where "z \<in> set rs" "p \<in> set (nodes z)" by blast
    moreover have "x' \<in> set rs" using Group.prems(5) r by simp
    ultimately show ?thesis using root1 [of z p x x'] Group.prems(4,6) by metis
  next
    assume r: "p \<noteq> Group g c rs" "p' \<noteq> Group g c rs"
    obtain z z' where z: "z \<in> set rs" "p \<in> set (nodes z)" "z' \<in> set rs" "p' \<in> set (nodes z')"
      using below Group.prems(2,3) r by metis
    have "node_id x \<in> set (ids z)" "node_id x' \<in> set (ids z')"
      using child_in_nodes [OF z(2) Group.prems(4)] child_in_nodes [OF z(4) Group.prems(5)]
      by (auto simp: set_ids)
    with kids_disjoint [OF d z(1,3)] Group.prems(6) have "z = z'" by simp
    then have z': "p' \<in> set (nodes z)" using z(4) by simp
    have "distinct (ids z)" by (rule distinct_concat_kids [OF d z(1)])
    from Group.IH [OF z(1) this z(2) z' Group.prems(4-6)] show ?thesis .
  qed simp
qed

section \<open>Finding\<close>

lemma find_sound:
  "find_walk i q = Some (x, p, k) \<Longrightarrow> p \<in> set (nodes q) \<and> isFilterGroup p \<and> k < length (node_rules p) \<and>
     node_rules p ! k = x \<and> node_id x = i"
  "find_kids i pp j xs = Some (x, p, k) \<Longrightarrow> isFilterGroup pp \<Longrightarrow> drop j (node_rules pp) = xs \<Longrightarrow>
     (p = pp \<or> p \<in> set (concat (map nodes xs))) \<and> isFilterGroup p \<and> k < length (node_rules p) \<and>
     node_rules p ! k = x \<and> node_id x = i"
proof (induction i q and i pp j xs rule: find_walk_find_kids.induct)
  case (2 i g c rs)
  then show ?case by fastforce
next
  case (4 i pp j y ys)
  have d: "drop (Suc j) (node_rules pp) = ys" "j < length (node_rules pp)" "node_rules pp ! j = y"
    using "4.prems"(3) by (metis drop_Suc tl_drop list.sel(3),
        metis drop_eq_Nil2 list.distinct(1) not_le_imp_less,
        metis drop_eq_Nil2 hd_drop_conv_nth list.distinct(1) list.sel(1) not_le_imp_less)
  show ?case
  proof (cases "node_id y = i")
    case True
    with 4 d show ?thesis by auto
  next
    case False
    show ?thesis
    proof (cases "find_walk i y")
      case None
      with 4 d False show ?thesis by auto
    next
      case (Some f)
      with False "4.prems" have "find_walk i y = Some (x, p, k)" by simp
      from "4.IH"(1) [OF False this] show ?thesis by auto
    qed
  qed
qed auto

text \<open>A node that is not the root is found, when its id is known.\<close>

lemma find_None:
  "find_walk i q = None \<Longrightarrow> node_id q \<noteq> i \<Longrightarrow> i \<notin> set (ids q)"
  "find_kids i pp j xs = None \<Longrightarrow> i \<notin> set (concat (map ids xs))"
  by (induction i q and i pp j xs rule: find_walk_find_kids.induct) (auto split: if_splits option.splits)

lemma find_complete:
  assumes d: "distinct (ids q)" and p: "p \<in> set (nodes q)" "k < length (node_rules p)"
    "node_id (node_rules p ! k) = i"
  shows "find_walk i q = Some (node_rules p ! k, p, k)" "node_id q \<noteq> i" "i \<in> set (ids q)"
proof -
  let ?x = "node_rules p ! k"
  have x: "?x \<in> set (node_rules p)" using p(2) by simp
  from strict_below [OF p(1) x] p(3) have t: "i \<in> set (tl (ids q))" by simp
  with distinct_tl [OF d] show ne: "node_id q \<noteq> i" by blast
  from t show i: "i \<in> set (ids q)" by (metis ids_tl list.set_intros(2))
  with find_None(1) [of i q] ne obtain x' p' k' where f: "find_walk i q = Some (x', p', k')"
    by (cases "find_walk i q") auto
  note s = find_sound(1) [OF f]
  then have x': "x' \<in> set (node_rules p')" by auto
  have eq: "p = p'" using parent_unique [OF d p(1) _ x x'] s p(3) by simp
  have "distinct (map node_id (node_rules p))" if "distinct (ids q)" "p \<in> set (nodes q)" for p q
    using that
  proof (induction q)
    case (Group g c rs)
    have "distinct (map node_id rs)" if "distinct (concat (map ids rs))" for rs
      using that
    proof (induction rs)
      case (Cons a rs)
      have "node_id a \<noteq> node_id x" if "x \<in> set rs" for x
        using Cons.prems that node_id_in_ids [of a] node_id_in_ids [of x] by fastforce
      with Cons show ?case by auto
    qed simp
    with Group show ?case by (auto intro: distinct_concat_kids)
  qed auto
  from this [OF d p(1)] have "k = k'"
    using s p(2,3) eq by (metis length_map nth_eq_iff_index_eq nth_map)
  with s eq f show "find_walk i q = Some (?x, p, k)" by simp
qed

lemma findFilterNode_child:
  assumes "distinct (ids q)" "p \<in> set (nodes q)" "k < length (node_rules p)" "node_id (node_rules p ! k) = i"
  shows "findFilterNode q i = Some (node_rules p ! k, Some (p, k))"
  using find_complete [OF assms] by (simp add: findFilterNode_def)

lemma findFilterNode_sound:
  "findFilterNode q i = Some (x, Some (p, k)) \<Longrightarrow> p \<in> set (nodes q) \<and> isFilterGroup p \<and>
     k < length (node_rules p) \<and> node_rules p ! k = x \<and> node_id x = i \<and> node_id q \<noteq> i"
  by (auto simp: findFilterNode_def split: if_splits dest!: find_sound(1))

lemma findFilterNode_ids: "findFilterNode q i = Some r \<Longrightarrow> i \<in> set (ids q)"
proof (cases "node_id q = i")
  case False
  assume "findFilterNode q i = Some r"
  with False obtain x p k where "find_walk i q = Some (x, p, k)"
    by (auto simp: findFilterNode_def)
  note s = find_sound(1) [OF this]
  then have "x \<in> set (nodes q)" using child_in_nodes [of p q x] nth_mem by blast
  with s show ?thesis by (auto simp: set_ids)
qed auto

section \<open>Rewriting one group\<close>

lemma rewrite_absent: "(\<And>g. g \<in> set (nodes q) \<Longrightarrow> isFilterGroup g \<Longrightarrow> P g \<Longrightarrow> f g = g) \<Longrightarrow> rewriteGroup P f q = q"
proof (induction q)
  case (Group g c rs)
  have "map (rewriteGroup P f) rs = rs"
    using Group by (intro map_idI) auto
  with Group.prems [of "Group g c rs"] show ?case by simp
qed simp

lemma node_id_rewrite:
  "(\<And>g. node_id (f g) = node_id g) \<Longrightarrow> node_id (rewriteGroup P f q) = node_id q"
  by (cases q) auto

lemma rewrite_twice:
  assumes "\<And>g. node_id (f1 g) = node_id g" "\<And>g. isFilterGroup g \<Longrightarrow> isFilterGroup (f1 g)"
  shows "rewriteGroup (\<lambda>g. node_id g = pid) f2 (rewriteGroup (\<lambda>g. node_id g = pid) f1 q) =
    rewriteGroup (\<lambda>g. node_id g = pid) (\<lambda>g. f2 (f1 g)) q"
proof (induction q)
  case (Group g c rs)
  show ?case
  proof (cases "g = pid")
    case True
    then have "node_id (f1 (Group g c rs)) = pid" "isFilterGroup (f1 (Group g c rs))" using assms by auto
    then show ?thesis using True by (cases "f1 (Group g c rs)") auto
  next
    case False
    with Group show ?thesis by simp
  qed
qed simp

text \<open>A rewrite of the group \<open>p\<close> exchanges its contents and nothing else. The measure \<open>m\<close> is any
  multiset collected over the tree.\<close>

definition additive :: "(fnode \<Rightarrow> 'a multiset) \<Rightarrow> bool" where
  "additive m \<longleftrightarrow> (\<exists>h. \<forall>g c rs. m (Group g c rs) = h g + sum_list (map m rs))"

lemma additive_ids: "additive (\<lambda>q. mset (ids q))"
  unfolding additive_def
  by (intro exI [of _ "\<lambda>g. {#g#}"]) (simp add: mset_concat comp_def)

lemma additive_rules: "additive (\<lambda>q. mset (flattenFilterRules q))"
  unfolding additive_def
  by (intro exI [of _ "\<lambda>g. {#}"]) (simp add: mset_concat comp_def)

lemma rewrite_additive:
  assumes m: "additive m"
  shows "distinct (ids q) \<Longrightarrow> p \<in> set (nodes q) \<Longrightarrow> isFilterGroup p \<Longrightarrow>
     m (rewriteGroup (\<lambda>g. node_id g = node_id p) f q) + m p = m q + m (f p) \<and>
     f p \<in> set (nodes (rewriteGroup (\<lambda>g. node_id g = node_id p) f q))"
proof (induction q)
  case (Rule r)
  then show ?case by simp
next
  case (Group g c rs)
  let ?P = "\<lambda>h. node_id h = node_id p"
  from m obtain h where h: "\<And>g c rs. m (Group g c rs) = h g + sum_list (map m rs)"
    unfolding additive_def by blast
  show ?case
  proof (cases "p = Group g c rs")
    case True
    then show ?thesis by (simp add: add.commute)
  next
    case False
    with Group.prems(2) obtain z where z: "z \<in> set rs" "p \<in> set (nodes z)" by auto
    have d: "distinct (concat (map ids rs))" using Group.prems(1) by simp
    have pid: "node_id p \<in> set (ids z)" using z(2) by (simp add: set_ids)
    have "g \<notin> set (concat (map ids rs))" using Group.prems(1) by simp
    with z(1) pid have ne: "g \<noteq> node_id p" by auto
    obtain xs ys where rs: "rs = xs @ z # ys" using z(1) by (meson split_list)
    have "rewriteGroup ?P f y = y" if "y \<in> set xs \<union> set ys" for y
    proof (rule rewrite_absent)
      fix k assume "k \<in> set (nodes y)" "node_id k = node_id p"
      then have "node_id p \<in> set (ids y)" by (metis set_ids imageI)
      moreover have "set (ids z) \<inter> set (ids y) = {}" using d that by (auto simp: rs)
      ultimately show "f k = k" using pid by blast
    qed
    then have eq: "map (rewriteGroup ?P f) rs = xs @ rewriteGroup ?P f z # ys"
      by (simp add: rs map_idI)
    have "distinct (ids z)" by (rule distinct_concat_kids [OF d z(1)])
    from Group.IH [OF z(1) this z(2) Group.prems(3)] have
      ih: "m (rewriteGroup ?P f z) + m p = m z + m (f p)" "f p \<in> set (nodes (rewriteGroup ?P f z))" by auto
    have w: "rewriteGroup ?P f (Group g c rs) = Group g c (xs @ rewriteGroup ?P f z # ys)"
      using ne by (simp only: rewriteGroup.simps node_id.simps if_False eq)
    have "m (Group g c (xs @ rewriteGroup ?P f z # ys)) + m p =
        h g + sum_list (map m xs) + (m (rewriteGroup ?P f z) + m p) + sum_list (map m ys)"
      by (simp only: h map_append list.map sum_list_append sum_list.Cons add_ac)
    also have "\<dots> = h g + sum_list (map m xs) + (m z + m (f p)) + sum_list (map m ys)"
      by (simp only: ih(1))
    also have "\<dots> = m (Group g c rs) + m (f p)"
      by (simp only: h rs map_append list.map sum_list_append sum_list.Cons add_ac)
    finally show ?thesis unfolding w using ih(2) by simp
  qed
qed

lemmas rewrite_ids = rewrite_additive [OF additive_ids]
lemmas rewrite_rules = rewrite_additive [OF additive_rules]

section \<open>Wrapping and unwrapping\<close>

lemma node_id_with_rules [simp]: "node_id (with_rules g rs) = node_id g"
  by (cases g) auto

lemma group_with_rules [simp]: "isFilterGroup (with_rules g rs) = isFilterGroup g"
  by (cases g) auto

lemma rules_with_rules [simp]: "isFilterGroup g \<Longrightarrow> node_rules (with_rules g rs) = rs"
  by (cases g) auto

lemma with_rules_self [simp]: "with_rules g (node_rules g) = g"
  by (cases g) auto

lemma with_rules_twice [simp]: "with_rules (with_rules g xs) ys = with_rules g ys"
  by (cases g) auto

lemma ids_with_rules: "isFilterGroup g \<Longrightarrow> ids (with_rules g rs) = node_id g # concat (map ids rs)"
  by (cases g) auto

lemma ids_group: "isFilterGroup g \<Longrightarrow> ids g = node_id g # concat (map ids (node_rules g))"
  by (cases g) auto

text \<open>With distinct ids, wrapping touches exactly the one child.\<close>

lemma map_wrap_child:
  assumes "distinct (map node_id rs)" "k < length rs" "node_id (rs ! k) = i"
  shows "map (wrap_child i gid c) rs = rs[k := Group gid c [rs ! k]]"
proof (rule nth_equalityI)
  fix j assume "j < length (map (wrap_child i gid c) rs)"
  then show "map (wrap_child i gid c) rs ! j = rs[k := Group gid c [rs ! k]] ! j"
    using assms by (auto simp: wrap_child_def createFilterGroup_def nth_list_update nth_eq_iff_index_eq
        distinct_map inj_on_eq_iff)
qed simp

lemma distinct_kid_ids:
  "distinct (ids q) \<Longrightarrow> p \<in> set (nodes q) \<Longrightarrow> distinct (map node_id (node_rules p))"
proof (induction q)
  case (Group g c rs)
  have "distinct (map node_id rs)" if "distinct (concat (map ids rs))" for rs
    using that
  proof (induction rs)
    case (Cons a rs)
    have "node_id a \<noteq> node_id x" if "x \<in> set rs" for x
      using Cons.prems that node_id_in_ids [of a] node_id_in_ids [of x] by fastforce
    with Cons show ?case by auto
  qed simp
  with Group show ?case by (auto intro: distinct_concat_kids)
qed auto

lemma mset_concat_update:
  "k < length rs \<Longrightarrow> mset (concat (map f (rs[k := y]))) + mset (f (rs ! k)) = mset (concat (map f rs)) + mset (f y)"
  by (induction rs arbitrary: k) (auto split: nat.splits simp: nth_Cons)

text \<open>C8: wrapping a node in a new group and unwrapping that group gives the query back, for a query with
  distinct ids and a fresh group id.\<close>

theorem wrap_unwrap:
  assumes d: "distinct (ids q)" and fresh: "gid \<notin> set (ids q)"
  shows "unwrapFilterGroup (wrapFilterNodeInGroup q i gid c) gid = q"
proof (cases "\<exists>x p k. findFilterNode q i = Some (x, Some (p, k))")
  case False
  then have "wrapFilterNodeInGroup q i gid c = q"
    by (auto simp: wrapFilterNodeInGroup_def split: option.splits prod.splits)
  moreover have "findFilterNode q gid = None"
    using fresh findFilterNode_ids [of q gid] by (cases "findFilterNode q gid") auto
  ultimately show ?thesis by (auto simp: unwrapFilterGroup_def)
next
  case True
  then obtain x p k where f: "findFilterNode q i = Some (x, Some (p, k))" by blast
  note s = findFilterNode_sound [OF f]
  let ?w = "\<lambda>g. with_rules g (map (wrap_child i gid c) (node_rules g))"
  let ?q = "rewriteGroup (\<lambda>g. node_id g = node_id p) ?w q"
  have w: "wrapFilterNodeInGroup q i gid c = ?q" using f by (simp add: wrapFilterNodeInGroup_def)
  have pw: "node_rules (?w p) = (node_rules p)[k := Group gid c [x]]"
    using s map_wrap_child [OF distinct_kid_ids [OF d], of p k i gid c] by auto
  from s have p: "p \<in> set (nodes q)" "isFilterGroup p" by auto
  note r = rewrite_ids [OF d p, of ?w]
  have "mset (ids (?w p)) = add_mset gid (mset (ids p))"
    using mset_concat_update [of k "node_rules p" ids "Group gid c [x]"] s
    by (simp add: ids_with_rules ids_group pw [simplified])
  with r have m: "mset (ids ?q) = add_mset gid (mset (ids q))" and inq: "?w p \<in> set (nodes ?q)"
    by auto
  with d fresh have dq: "distinct (ids ?q)"
    by (metis distinct.simps(2) mset.simps(2) mset_eq_imp_distinct_iff set_mset_mset)
  have kk: "k < length (node_rules (?w p))" "node_rules (?w p) ! k = Group gid c [x]"
    using s by (simp_all only: pw) auto
  have fq: "findFilterNode ?q gid = Some (Group gid c [x], Some (?w p, k))" "node_id ?q \<noteq> gid"
    using findFilterNode_child [OF dq inq kk(1)] find_complete(2) [OF dq inq kk(1)] kk(2) by simp_all
  let ?u = "\<lambda>h. with_rules h (take k (node_rules h) @ [x] @ drop (Suc k) (node_rules h))"
  have "unwrapFilterGroup ?q gid = rewriteGroup (\<lambda>h. node_id h = node_id p) ?u ?q"
    using fq by (simp add: unwrapFilterGroup_def)
  also have "\<dots> = rewriteGroup (\<lambda>h. node_id h = node_id p) (\<lambda>h. ?u (?w h)) q"
    by (rule rewrite_twice) simp_all
  also have "\<dots> = q"
  proof (rule rewrite_absent)
    fix g assume "g \<in> set (nodes q)" "isFilterGroup g" "node_id g = node_id p"
    then have "g = p" using distinct_nodes [OF d] p by blast
    moreover have "take k (node_rules (?w p)) @ [x] @ drop (Suc k) (node_rules (?w p)) = node_rules p"
      using s unfolding pw by (auto simp flip: id_take_nth_drop)
    ultimately show "?u (?w g) = g" by simp
  qed
  finally show ?thesis by (simp add: w)
qed

definition sample_query :: fnode where
  "sample_query = Group ''root'' AndC
     [Rule (createFilterRule ''r1'' [''room''] ''is'' (FvStr ''lobby'') False),
      Group ''g1'' OrC [Rule (createFilterRule ''r2'' [''turns''] ''gte'' (FvNum (Num 2)) False),
        Rule (createFilterRule ''r3'' [''tag''] ''has_any_of'' (FvArr [FvStr ''vip'']) False)]]"

lemma sample_query_ids: "ids sample_query = [''root'', ''r1'', ''g1'', ''r2'', ''r3'']"
  by (simp add: sample_query_def createFilterRule_def)

theorem wrap_unwrap_witness:
  "wrapFilterNodeInGroup sample_query ''r2'' ''new'' OrC \<noteq> sample_query \<and>
   unwrapFilterGroup (wrapFilterNodeInGroup sample_query ''r2'' ''new'' OrC) ''new'' = sample_query"
proof
  show "unwrapFilterGroup (wrapFilterNodeInGroup sample_query ''r2'' ''new'' OrC) ''new'' = sample_query"
    by (rule wrap_unwrap) (simp_all add: sample_query_ids)
  show "wrapFilterNodeInGroup sample_query ''r2'' ''new'' OrC \<noteq> sample_query"
    by (simp add: wrapFilterNodeInGroup_def findFilterNode_def sample_query_def createFilterRule_def
        wrap_child_def createFilterGroup_def)
qed

section \<open>Moving\<close>

lemma contains_ids: "containsFilterNode x i \<longleftrightarrow> i \<in> set (ids x)"
  by (induction x) (auto simp: list_ex_iff)

lemma detach_absent: "i \<notin> set (ids q) \<Longrightarrow> detachFilterNode q i = q"
proof (induction q)
  case (Group g c rs)
  have "filter (\<lambda>x. node_id x \<noteq> i) rs = rs"
    using Group.prems node_id_in_ids by (intro filter_True) fastforce
  moreover have "map (\<lambda>x. detachFilterNode x i) rs = rs"
    using Group by (intro map_idI) auto
  ultimately show ?case by simp
qed simp

lemma node_id_detach [simp]: "node_id (detachFilterNode q i) = node_id q"
  by (cases q) auto

lemma group_detach [simp]: "isFilterGroup (detachFilterNode q i) = isFilterGroup q"
  by (cases q) auto

text \<open>Detaching takes away exactly the node: its ids leave, every other group stays (without it).\<close>

lemma detach_additive:
  assumes m: "additive m"
  shows "distinct (ids q) \<Longrightarrow> x \<in> set (nodes q) \<Longrightarrow> x \<noteq> q \<Longrightarrow>
     m (detachFilterNode q (node_id x)) + m x = m q"
proof (induction q)
  case (Rule r)
  then show ?case by simp
next
  case (Group g c rs)
  let ?i = "node_id x"
  from m obtain h where h: "\<And>g c rs. m (Group g c rs) = h g + sum_list (map m rs)"
    unfolding additive_def by blast
  have d: "distinct (concat (map ids rs))" using Group.prems(1) by simp
  from Group.prems(2,3) obtain z where z: "z \<in> set rs" "x \<in> set (nodes z)" by auto
  have i: "?i \<in> set (ids z)" using z(2) by (simp add: set_ids)
  obtain xs ys where rs: "rs = xs @ z # ys" using z(1) by (meson split_list)
  have dis: "?i \<notin> set (ids y)" if "y \<in> set xs \<union> set ys" for y
  proof -
    have "set (ids z) \<inter> set (ids y) = {}" using d that by (auto simp: rs)
    with i show ?thesis by blast
  qed
  have keep: "map (\<lambda>y. detachFilterNode y ?i) (filter (\<lambda>y. node_id y \<noteq> ?i) l) = l"
    if "set l \<subseteq> set xs \<union> set ys" for l
  proof -
    have "filter (\<lambda>y. node_id y \<noteq> ?i) l = l"
      using that dis node_id_in_ids by (intro filter_True) (metis subsetD)
    moreover have "map (\<lambda>y. detachFilterNode y ?i) l = l"
      using that dis by (intro map_idI detach_absent) blast
    ultimately show ?thesis by simp
  qed
  show ?case
  proof (cases "node_id z = ?i")
    case True
    have "distinct (ids z)" by (rule distinct_concat_kids [OF d z(1)])
    from distinct_nodes [OF this z(2) self_in_nodes] True have "x = z" by simp
    with True keep [of xs] keep [of ys] have
      e: "detachFilterNode (Group g c rs) ?i = Group g c (xs @ ys)" by (simp add: rs)
    show ?thesis unfolding e using \<open>x = z\<close> by (simp add: h rs add_ac)
  next
    case False
    then have "x \<noteq> z" by auto
    have "distinct (ids z)" by (rule distinct_concat_kids [OF d z(1)])
    note ih = Group.IH [OF z(1) this z(2) \<open>x \<noteq> z\<close>]
    from False keep [of xs] keep [of ys] have
      e: "detachFilterNode (Group g c rs) ?i = Group g c (xs @ detachFilterNode z ?i # ys)" by (simp add: rs)
    have "m (Group g c (xs @ detachFilterNode z ?i # ys)) + m x =
        h g + sum_list (map m xs) + (m (detachFilterNode z ?i) + m x) + sum_list (map m ys)"
      by (simp only: h map_append list.map sum_list_append sum_list.Cons add_ac)
    also have "\<dots> = h g + sum_list (map m xs) + m z + sum_list (map m ys)" by (simp only: ih)
    also have "\<dots> = m (Group g c rs)"
      by (simp only: h rs map_append list.map sum_list_append sum_list.Cons add_ac)
    finally show ?thesis unfolding e .
  qed
qed

lemma nodes_detach: "y \<in> set (nodes (detachFilterNode q i)) \<Longrightarrow>
    \<exists>z \<in> set (nodes q). node_id z = node_id y \<and> (isFilterGroup z \<longleftrightarrow> isFilterGroup y)"
proof (induction q)
  case (Group g c rs)
  show ?case
  proof (cases "y = detachFilterNode (Group g c rs) i")
    case True
    then show ?thesis by (intro bexI [of _ "Group g c rs"]) auto
  next
    case False
    with Group.prems obtain w where "w \<in> set rs" "y \<in> set (nodes (detachFilterNode w i))" by auto
    from Group.IH [OF this] \<open>w \<in> set rs\<close> show ?thesis by auto
  qed
qed auto

lemma mset_splice_in [simp]: "mset (splice_in rs index x) = add_mset x (mset rs)"
  by (simp add: splice_in_def Let_def) (metis append_take_drop_id mset_append)

lemma additive_splice:
  assumes "additive m" "isFilterGroup p"
  shows "m (with_rules p (splice_in (node_rules p) index x)) = m p + m x"
proof -
  from assms(1) obtain h where h: "\<And>g c rs. m (Group g c rs) = h g + sum_list (map m rs)"
    unfolding additive_def by blast
  have "sum_list (map m (splice_in rs index x)) = sum_list (map m rs) + m x" for rs
  proof -
    have "sum_list (map m (splice_in rs index x)) = sum_mset (image_mset m (mset (splice_in rs index x)))"
      by (simp only: mset_map [symmetric] sum_mset_sum_list)
    also have "\<dots> = m x + sum_mset (image_mset m (mset rs))" by simp
    also have "\<dots> = sum_list (map m rs) + m x"
      by (simp only: mset_map [symmetric] sum_mset_sum_list add.commute)
    finally show ?thesis .
  qed
  with assms(2) show ?thesis by (cases p) (simp_all add: h)
qed

lemma insert_additive:
  assumes "additive m" "distinct (ids q)" "p \<in> set (nodes q)" "isFilterGroup p"
  shows "m (insertFilterNode q x (Some (node_id p)) index) = m q + m x"
  using rewrite_additive [OF assms, of "\<lambda>g. with_rules g (splice_in (node_rules g) index x)"]
    additive_splice [OF assms(1,4), of index x]
  by (simp add: insertFilterNode_def add.assoc)

lemma insert_in:
  assumes "distinct (ids q)" "p \<in> set (nodes q)" "isFilterGroup p"
  shows "\<exists>g \<in> set (nodes (insertFilterNode q x (Some (node_id p)) index)).
    node_id g = node_id p \<and> x \<in> set (node_rules g)"
proof -
  let ?f = "\<lambda>g. with_rules g (splice_in (node_rules g) index x)"
  have "?f p \<in> set (nodes (insertFilterNode q x (Some (node_id p)) index))"
    using rewrite_ids [OF assms, of ?f] by (simp add: insertFilterNode_def)
  moreover have "x \<in> set (splice_in (node_rules p) index x)"
    using mset_splice_in [of "node_rules p" index x] by (metis set_mset_mset union_single_eq_member)
  ultimately show ?thesis using assms(3) by (intro bexI [of _ "?f p"]) simp_all
qed

text \<open>The cases of \<open>moveFilterNodeTo\<close>: it changes nothing, or takes the found node out and puts it into a
  group of the query that is not below the node.\<close>

lemma moveTo_cases:
  obtains "moveFilterNodeTo q i pid index = q"
  | x p k target where "findFilterNode q i = Some (x, Some (p, k))" "pid \<notin> set (ids x)"
    "\<exists>g \<in> set (nodes q). isFilterGroup g \<and> node_id g = pid"
    "moveFilterNodeTo q i pid index = insertFilterNode (detachFilterNode q i) x (Some pid) (Some target)"
proof (cases "\<exists>x p k. findFilterNode q i = Some (x, Some (p, k))")
  case False
  then have "moveFilterNodeTo q i pid index = q"
    by (auto simp: moveFilterNodeTo_def split: option.splits prod.splits)
  with that show thesis by blast
next
  case True
  then obtain x p k where f: "findFilterNode q i = Some (x, Some (p, k))" by blast
  show thesis
  proof (cases "pid \<notin> set (ids x) \<and> (\<exists>g c rs r. findFilterNode q pid = Some (Group g c rs, r))")
    case False
    then have "moveFilterNodeTo q i pid index = q"
      using f by (auto simp: moveFilterNodeTo_def contains_ids split: option.splits prod.splits fnode.splits)
    with that show thesis by blast
  next
    case True
    then obtain g c rs r where g: "pid \<notin> set (ids x)" "findFilterNode q pid = Some (Group g c rs, r)" by blast
    have "Group g c rs \<in> set (nodes q) \<and> g = pid"
    proof (cases r)
      case None
      with g(2) show ?thesis by (auto simp: findFilterNode_def split: if_splits option.splits)
    next
      case (Some pk)
      obtain p2 k2 where "pk = (p2, k2)" by fastforce
      with g(2) Some have "findFilterNode q pid = Some (Group g c rs, Some (p2, k2))" by simp
      from findFilterNode_sound [OF this] show ?thesis
        by (metis child_in_nodes nth_mem node_id.simps(2))
    qed
    then have dest: "\<exists>h \<in> set (nodes q). isFilterGroup h \<and> node_id h = pid"
      by (intro bexI [of _ "Group g c rs"]) auto
    define t where "t = (if node_id p = pid \<and> int k < index then index - 1 else index)"
    have m: "moveFilterNodeTo q i pid index = (if node_id p = pid \<and> t = int k then q
        else insertFilterNode (detachFilterNode q i) x (Some pid) (Some t))"
      using g(1) unfolding moveFilterNodeTo_def f g(2) by (simp add: Let_def contains_ids t_def [symmetric])
    show thesis
    proof (cases "node_id p = pid \<and> t = int k")
      case True
      with m have "moveFilterNodeTo q i pid index = q" by simp
      then show thesis by (rule that(1))
    next
      case False
      then have "moveFilterNodeTo q i pid index = insertFilterNode (detachFilterNode q i) x (Some pid) (Some t)"
        unfolding m by (rule if_not_P)
      then show thesis by (rule that(2) [OF f g(1) dest])
    qed
  qed
qed

text \<open>C9: moving a node into another group loses, repeats and changes no rule and no id, and when the
  query changes the node is in the group it was moved to.\<close>

theorem move_keeps_rules:
  assumes d: "distinct (ids q)"
  shows "mset (ids (moveFilterNodeTo q i pid index)) = mset (ids q) \<and>
    mset (flattenFilterRules (moveFilterNodeTo q i pid index)) = mset (flattenFilterRules q) \<and>
    (moveFilterNodeTo q i pid index = q \<or>
      (\<exists>g \<in> set (nodes (moveFilterNodeTo q i pid index)). node_id g = pid \<and> i \<in> node_id ` set (node_rules g)))"
proof (rule moveTo_cases [of q i pid index])
  assume "moveFilterNodeTo q i pid index = q"
  then show ?thesis by simp
next
  fix x p k target
  assume f: "findFilterNode q i = Some (x, Some (p, k))" and out: "pid \<notin> set (ids x)"
    and "\<exists>g \<in> set (nodes q). isFilterGroup g \<and> node_id g = pid"
    and e: "moveFilterNodeTo q i pid index = insertFilterNode (detachFilterNode q i) x (Some pid) (Some target)"
  then obtain g where g: "g \<in> set (nodes q)" "isFilterGroup g" "node_id g = pid" by blast
  note s = findFilterNode_sound [OF f]
  then have x: "x \<in> set (nodes q)" using child_in_nodes [of p q x] nth_mem by blast
  let ?q = "detachFilterNode q i"
  have i: "i = node_id x" using s by simp
  from s have "x \<noteq> q" by auto
  note det = detach_additive [OF _ d x this, folded i]
  have mi: "mset (ids ?q) + mset (ids x) = mset (ids q)" by (rule det [OF additive_ids])
  have dq: "distinct (ids ?q)"
    using d mi by (metis distinct_append mset_append mset_eq_imp_distinct_iff)
  have "pid \<in> set (ids q)" using g by (auto simp: set_ids)
  with out have "pid \<in># mset (ids ?q)" using mi by (metis set_mset_mset union_iff)
  then obtain h where h: "h \<in> set (nodes ?q)" "node_id h = pid" by (auto simp: set_ids)
  with nodes_detach [OF h(1)] distinct_nodes [OF d g(1)] g have hg: "isFilterGroup h" by force
  have "\<exists>g \<in> set (nodes (moveFilterNodeTo q i pid index)). node_id g = pid \<and> x \<in> set (node_rules g)"
    unfolding e using insert_in [OF dq h(1) hg, of x "Some target"] by (simp add: h(2))
  then show ?thesis
    using insert_additive [OF additive_ids dq h(1) hg] insert_additive [OF additive_rules dq h(1) hg]
      mi det [OF additive_rules] i
    unfolding e h(2) by (auto intro!: rev_image_eqI)
qed

theorem move_keeps_rules_witness:
  "moveFilterNodeTo sample_query ''r1'' ''g1'' 0 \<noteq> sample_query \<and>
   mset (ids (moveFilterNodeTo sample_query ''r1'' ''g1'' 0)) = mset [''root'', ''r1'', ''g1'', ''r2'', ''r3'']"
proof
  show "moveFilterNodeTo sample_query ''r1'' ''g1'' 0 \<noteq> sample_query"
    by (simp add: moveFilterNodeTo_def findFilterNode_def sample_query_def createFilterRule_def
        insertFilterNode_def splice_in_def)
  have "distinct (ids sample_query)" by (simp add: sample_query_ids)
  from move_keeps_rules [OF this, of "''r1''" "''g1''" 0] sample_query_ids
  show "mset (ids (moveFilterNodeTo sample_query ''r1'' ''g1'' 0)) = mset [''root'', ''r1'', ''g1'', ''r2'', ''r3'']"
    by simp
qed

section \<open>Pruning and removing\<close>

text \<open>A tidy node: no group in it is empty or has a single group as its only child.\<close>

fun tidy :: "fnode \<Rightarrow> bool" where
  "tidy (Rule r) = True"
| "tidy (Group g c rs) = (rs \<noteq> [] \<and> \<not> (length rs = 1 \<and> isFilterGroup (hd rs)) \<and> list_all tidy rs)"

lemma prune_flatten:
  "concat (map flattenFilterRules (case prune_node x of None \<Rightarrow> [] | Some y \<Rightarrow> [y])) = flattenFilterRules x"
proof (induction x)
  case (Group g c rs)
  have kids: "concat (map flattenFilterRules (somes (map prune_node rs))) = concat (map flattenFilterRules rs)"
    using Group
  proof (induction rs)
    case (Cons x rs)
    then show ?case by (cases "prune_node x") fastforce+
  qed simp
  have "concat (map flattenFilterRules (case prune_node (Group g c rs) of None \<Rightarrow> [] | Some y \<Rightarrow> [y])) =
      concat (map flattenFilterRules (somes (map prune_node rs)))"
    by (auto split: list.splits)
  then show ?case by (simp add: kids)
qed simp

lemma prune_tidy: "prune_node x = Some y \<Longrightarrow> tidy y"
proof (induction x arbitrary: y)
  case (Group g c rs)
  have "list_all tidy (somes (map prune_node rs))"
    using Group.IH by (auto simp: list_all_iff set_somes)
  with Group.prems show ?case by (auto split: list.splits if_splits)
qed auto

lemma prune_id: "tidy x \<Longrightarrow> prune_node x = Some x"
proof (induction x)
  case (Group g c rs)
  have "list_all (\<lambda>x. prune_node x = Some x) rs" using Group by (auto simp: list_all_iff)
  then have "somes (map prune_node rs) = rs" by (induction rs) auto
  with Group.prems show ?case by (auto split: list.splits)
qed simp

lemma somes_prune_tidy: "list_all tidy rs \<Longrightarrow> somes (map prune_node rs) = rs"
  by (induction rs) (auto simp: prune_id)

text \<open>C10: pruning keeps the rules in their order, leaves no empty group and no group around a single group
  below the root, and pruning again changes nothing.\<close>

theorem prune_normal_form:
  "flattenFilterRules (pruneFilterQuery q) = flattenFilterRules q \<and>
   list_all tidy (node_rules (pruneFilterQuery q)) \<and>
   pruneFilterQuery (pruneFilterQuery q) = pruneFilterQuery q"
proof (cases q)
  case (Rule r)
  then show ?thesis by (simp add: pruneFilterQuery_def)
next
  case (Group g c rs)
  have t: "list_all tidy (somes (map prune_node rs))"
    by (auto simp: list_all_iff set_somes intro: prune_tidy)
  have "concat (map flattenFilterRules (somes (map prune_node rs))) = concat (map flattenFilterRules rs)"
  proof (induction rs)
    case (Cons x rs)
    with prune_flatten [of x] show ?case by (cases "prune_node x") auto
  qed simp
  with t Group show ?thesis by (simp add: pruneFilterQuery_def somes_prune_tidy)
qed

text \<open>No group below the root is empty.\<close>

fun filled :: "fnode \<Rightarrow> bool" where
  "filled (Rule r) = True"
| "filled (Group g c rs) = list_all (\<lambda>x. (isFilterGroup x \<longrightarrow> node_rules x \<noteq> []) \<and> filled x) rs"

lemma remove_walk_eqs:
  "fst (remove_walk i (Rule r)) = False" "snd (remove_walk i (Rule r)) = Rule r"
  "fst (remove_walk i (Group g c rs)) = fst (remove_kids i rs)"
  "snd (remove_walk i (Group g c rs)) = Group g c (if fst (remove_kids i rs) then snd (remove_kids i rs) else rs)"
  "fst (remove_kids i []) = False" "snd (remove_kids i []) = []"
  "fst (remove_kids i (x # xs)) = (node_id x = i \<or> fst (remove_walk i x) \<or> fst (remove_kids i xs))"
  "snd (remove_kids i (x # xs)) =
     (if node_id x = i \<or> (isFilterGroup x \<and> node_rules (snd (remove_walk i x)) = []) then snd (remove_kids i xs)
      else snd (remove_walk i x) # snd (remove_kids i xs))"
  by (cases x; auto simp: Let_def case_prod_unfold)+

declare remove_walk.simps [simp del] remove_kids.simps [simp del]

lemma node_id_remove [simp]: "node_id (snd (remove_walk i q)) = node_id q"
  by (cases q) (auto simp: remove_walk_eqs)

lemma group_remove [simp]: "isFilterGroup (snd (remove_walk i q)) = isFilterGroup q"
  by (cases q) (auto simp: remove_walk_eqs)

lemma remove_gone: "node_id q \<noteq> i \<Longrightarrow> i \<notin> set (ids (snd (remove_walk i q)))"
proof (induction q)
  case (Rule r)
  then show ?case by (simp add: remove_walk_eqs)
next
  case (Group g c rs)
  have same: "fst (remove_walk i q) \<or> snd (remove_walk i q) = q" for q
    by (cases q) (simp_all add: remove_walk_eqs)
  have "i \<notin> set (concat (map ids (snd (remove_kids i xs)))) \<and>
      (fst (remove_kids i xs) \<or> i \<notin> set (concat (map ids xs)))" if "set xs \<subseteq> set rs" for xs
    using that
  proof (induction xs)
    case (Cons x xs)
    then have "node_id x = i \<or> i \<notin> set (ids (snd (remove_walk i x)))" using Group.IH by auto
    with Cons same [of x] show ?case by (auto simp: remove_walk_eqs)
  qed (simp add: remove_walk_eqs)
  from this [of rs] Group.prems show ?case by (auto simp: remove_walk_eqs)
qed

lemma remove_flatten: "flattenFilterRules (snd (remove_walk i q)) = flattenFilterRules (detachFilterNode q i)"
proof (induction q)
  case (Rule r)
  then show ?case by (simp add: remove_walk_eqs)
next
  case (Group g c rs)
  let ?d = "\<lambda>xs. concat (map (\<lambda>x. flattenFilterRules (detachFilterNode x i)) (filter (\<lambda>x. node_id x \<noteq> i) xs))"
  have same: "fst (remove_walk i q) \<or> snd (remove_walk i q) = q" for q
    by (cases q) (simp_all add: remove_walk_eqs)
  have empty: "isFilterGroup x \<Longrightarrow> node_rules x = [] \<Longrightarrow> flattenFilterRules x = []" for x
    by (cases x) auto
  have "concat (map flattenFilterRules (snd (remove_kids i xs))) = ?d xs \<and>
      (fst (remove_kids i xs) \<or> concat (map flattenFilterRules xs) = ?d xs)" if "set xs \<subseteq> set rs" for xs
    using that
  proof (induction xs)
    case (Cons x xs)
    then have "flattenFilterRules (snd (remove_walk i x)) = flattenFilterRules (detachFilterNode x i)"
      using Group.IH by simp
    with Cons same [of x] empty [of "snd (remove_walk i x)"] show ?case by (auto simp: remove_walk_eqs)
  qed (simp add: remove_walk_eqs)
  from this [of rs] show ?case by (auto simp: remove_walk_eqs comp_def)
qed

lemma remove_filled: "filled q \<Longrightarrow> filled (snd (remove_walk i q))"
proof (induction q)
  case (Rule r)
  then show ?case by (simp add: remove_walk_eqs)
next
  case (Group g c rs)
  have "list_all (\<lambda>x. (isFilterGroup x \<longrightarrow> node_rules x \<noteq> []) \<and> filled x) (snd (remove_kids i xs))"
    if "set xs \<subseteq> set rs" "list_all filled xs" for xs
    using that
  proof (induction xs)
    case (Cons x xs)
    with Group.IH [of x] show ?case by (auto simp: remove_walk_eqs)
  qed (simp add: remove_walk_eqs)
  from this [of rs] Group.prems show ?case by (auto simp: remove_walk_eqs list_all_iff)
qed

text \<open>Removing a node that is not the root leaves no node with its id, keeps the other rules in their
  order, and leaves no empty group in a query that had none.\<close>

lemma remove_node:
  assumes "node_id q \<noteq> i" "filled q"
  shows "i \<notin> set (ids (removeFilterNode q i)) \<and>
    flattenFilterRules (removeFilterNode q i) = flattenFilterRules (detachFilterNode q i) \<and>
    filled (removeFilterNode q i)"
  using assms by (simp add: removeFilterNode_def remove_gone remove_flatten remove_filled)

theorem remove_node_witness:
  "let q = Group ''root'' AndC [Group ''g'' OrC [Rule (createFilterRule ''r'' [''room''] ''is'' FvNull False)]]
   in filled (removeFilterNode q ''r'') \<and> ''r'' \<notin> set (ids (removeFilterNode q ''r''))"
proof -
  let ?q = "Group ''root'' AndC [Group ''g'' OrC [Rule (createFilterRule ''r'' [''room''] ''is'' FvNull False)]]"
  have "node_id ?q \<noteq> ''r''" "filled ?q" by simp_all
  from remove_node [OF this] show ?thesis by (simp add: Let_def)
qed

section \<open>Issues\<close>

text \<open>a query without issues has no rule the caller can judge whose operator is missing or whose value,
  when its operator takes one, is blank; nor an empty group below the root.\<close>

theorem no_issues_no_blanks:
  assumes "collectFilterIssues q arityOf validateOf = []" "r \<in> set (flattenFilterRules q)" "arityOf r = Some a"
  shows "isFilterRuleComplete r \<and> filled q \<and>
    (a = ArNone \<or> (\<exists>v \<in> set (rule_values (fr_value r)). \<not> isBlankFilterValue v)) \<and>
    (a \<noteq> ArRange \<or> length (rule_values (fr_value r)) \<ge> 2)"
proof -
  have vis: "visit_issues arityOf validateOf b q = [] \<Longrightarrow> r \<in> set (flattenFilterRules q) \<Longrightarrow>
      rule_issue arityOf validateOf r = []" for b q
    by (induction q arbitrary: b) auto
  have fil: "visit_issues arityOf validateOf b q = [] \<Longrightarrow> filled q" for b q
  proof (induction q arbitrary: b)
    case (Group g c rs)
    have "filled x \<and> (isFilterGroup x \<longrightarrow> node_rules x \<noteq> [])" if "x \<in> set rs" for x
    proof -
      have v: "visit_issues arityOf validateOf False x = []" using Group.prems that by simp
      with Group.IH [OF that v] show ?thesis by (cases x) auto
    qed
    then show ?case by (simp add: list_all_iff)
  qed simp
  have "rule_issue arityOf validateOf r = []" using assms(1,2) vis by (simp add: collectFilterIssues_def)
  with assms(3) have c: "isFilterRuleComplete r" and
    "a = ArNone \<or> (if a = ArRange then range_issue r (rule_values (fr_value r)) = []
       else \<not> (rule_values (fr_value r) = [] \<or> list_all isBlankFilterValue (rule_values (fr_value r))))"
    by (auto simp: rule_issue_def Let_def split: if_splits)
  then have "a = ArNone \<or> (\<exists>v \<in> set (rule_values (fr_value r)). \<not> isBlankFilterValue v) \<and>
      (a \<noteq> ArRange \<or> length (rule_values (fr_value r)) \<ge> 2)"
    by (auto simp: range_issue_def list_all_iff split: if_splits)
  with c fil [of True q] assms(1) show ?thesis by (auto simp: collectFilterIssues_def)
qed

theorem no_issues_no_blanks_witness:
  "collectFilterIssues sample_query (\<lambda>r. Some ArMany) (\<lambda>r. None) = [] \<and> filled sample_query"
proof -
  have e: "collectFilterIssues sample_query (\<lambda>r. Some ArMany) (\<lambda>r. None) = []"
    by (simp add: collectFilterIssues_def sample_query_def createFilterRule_def rule_issue_def
        isFilterRuleComplete_def isBlankFilterValue_def)
  have "createFilterRule ''r1'' [''room''] ''is'' (FvStr ''lobby'') False \<in> set (flattenFilterRules sample_query)"
    by (simp add: sample_query_def)
  from no_issues_no_blanks [OF e this refl] e show ?thesis by simp
qed

end
