(* ===== verification/JsUrl.thy ===== *)
theory JsUrl
  imports JsNum
begin

text \<open>
  \<open>URLSearchParams\<close> as its list of pairs, and insertion-ordered \<open>Map\<close>s as association lists: setting
  an existing key keeps its place. The locale \<open>keyed_store\<close> is what the clients of either rely on: a
  read after a write gives the written value, and other keys are untouched.
\<close>

type_synonym params = "(string \<times> string) list"

definition up_get :: "params \<Rightarrow> string \<Rightarrow> string option" where
  "up_get ps k = map_of ps k"

definition up_getAll :: "params \<Rightarrow> string \<Rightarrow> string list" where
  "up_getAll ps k = map snd (filter (\<lambda>p. fst p = k) ps)"

definition up_has :: "params \<Rightarrow> string \<Rightarrow> bool" where
  "up_has ps k \<longleftrightarrow> list_ex (\<lambda>p. fst p = k) ps"

definition up_append :: "string \<Rightarrow> string \<Rightarrow> params \<Rightarrow> params" where
  "up_append k v ps = ps @ [(k, v)]"

definition up_delete :: "string \<Rightarrow> params \<Rightarrow> params" where
  "up_delete k ps = filter (\<lambda>p. fst p \<noteq> k) ps"

text \<open>\<open>set\<close>: the first pair of the key takes the value and the others go; without one it is added last.\<close>

fun up_set :: "string \<Rightarrow> string \<Rightarrow> params \<Rightarrow> params" where
  "up_set k v [] = [(k, v)]"
| "up_set k v (p # ps) = (if fst p = k then (k, v) # up_delete k ps else p # up_set k v ps)"

text \<open>\<open>Map\<close>: \<open>set\<close> keeps the place of a key, \<open>get\<close> is \<open>map_of\<close>.\<close>

fun mp_set :: "'k \<Rightarrow> 'v \<Rightarrow> ('k \<times> 'v) list \<Rightarrow> ('k \<times> 'v) list" where
  "mp_set k v [] = [(k, v)]"
| "mp_set k v (p # ps) = (if fst p = k then (k, v) # ps else p # mp_set k v ps)"

definition mp_has :: "('k \<times> 'v) list \<Rightarrow> 'k \<Rightarrow> bool" where
  "mp_has m k \<longleftrightarrow> map_of m k \<noteq> None"

locale keyed_store =
  fixes get :: "'s \<Rightarrow> 'k \<Rightarrow> 'v option" and put :: "'k \<Rightarrow> 'v \<Rightarrow> 's \<Rightarrow> 's"
  assumes get_put_same: "get (put k v s) k = Some v"
    and get_put_other: "k \<noteq> k' \<Longrightarrow> get (put k v s) k' = get s k'"
begin

lemma get_put: "get (put k v s) k' = (if k = k' then Some v else get s k')"
  by (simp add: get_put_same get_put_other)

lemma put_put_get: "get (put k v2 (put k v1 s)) k' = get (put k v2 s) k'"
  by (simp add: get_put)

lemma put_commute_get: "k \<noteq> k2 \<Longrightarrow> get (put k v (put k2 v2 s)) k' = get (put k2 v2 (put k v s)) k'"
  by (auto simp: get_put)

end

lemma up_get_delete: "up_get (up_delete k ps) k' = (if k = k' then None else up_get ps k')"
  unfolding up_get_def up_delete_def by (induction ps) auto

interpretation up_store: keyed_store up_get up_set
proof
  fix k k' v ps
  show "up_get (up_set k v ps) k = Some v"
    by (induction ps) (auto simp: up_get_def)
  show "k \<noteq> k' \<Longrightarrow> up_get (up_set k v ps) k' = up_get ps k'"
    by (induction ps) (auto simp: up_get_def up_get_delete [unfolded up_get_def])
qed

interpretation mp_store: keyed_store map_of mp_set
proof
  fix k k' :: 'a and v :: 'b and ps
  show "map_of (mp_set k v ps) k = Some v" by (induction ps) auto
  show "k \<noteq> k' \<Longrightarrow> map_of (mp_set k v ps) k' = map_of ps k'" by (induction ps) auto
qed

lemma up_getAll_delete: "up_getAll (up_delete k ps) k' = (if k = k' then [] else up_getAll ps k')"
  unfolding up_getAll_def up_delete_def by (induction ps) auto

lemma up_getAll_set: "up_getAll (up_set k v ps) k' = (if k = k' then [v] else up_getAll ps k')"
proof (induction ps)
  case (Cons p ps)
  then show ?case using up_getAll_delete [of k ps k']
    by (auto simp: up_getAll_def up_delete_def)
qed (simp add: up_getAll_def)

lemma up_getAll_append: "up_getAll (up_append k v ps) k' = up_getAll ps k' @ (if k = k' then [v] else [])"
  by (simp add: up_getAll_def up_append_def)

lemma up_get_append: "up_get (up_append k v ps) k' = (case up_get ps k' of Some x \<Rightarrow> Some x | None \<Rightarrow> if k = k' then Some v else None)"
  unfolding up_get_def up_append_def by (induction ps) auto

lemma up_get_all: "up_get ps k = (case up_getAll ps k of [] \<Rightarrow> None | v # _ \<Rightarrow> Some v)"
  unfolding up_get_def up_getAll_def by (induction ps) auto

lemma up_has_get: "up_has ps k \<longleftrightarrow> up_get ps k \<noteq> None"
  unfolding up_get_def up_has_def by (induction ps) auto

lemma up_getAll_app: "up_getAll (ps @ qs) k = up_getAll ps k @ up_getAll qs k"
  by (simp add: up_getAll_def)

lemma keys_mp_set: "fst ` set (mp_set k v m) = insert k (fst ` set m)"
  by (induction m) auto

lemma set_mp_set: "p \<in> set (mp_set k v m) \<Longrightarrow> p = (k, v) \<or> p \<in> set m"
  by (induction m) (auto split: if_splits)

lemma distinct_mp_set: "distinct (map fst m) \<Longrightarrow> distinct (map fst (mp_set k v m))"
proof (induction m)
  case (Cons p m)
  have "fst ` set (mp_set k v m) = insert k (fst ` set m)" by (induction m) auto
  with Cons show ?case by auto
qed simp

section \<open>Grouping by a key\<close>

text \<open>\<open>const g = m.get(k) ?? fresh; ...; m.set(k, g)\<close> for each element in turn: a group is what its own elements make
  of it, in their order, and groups do not disturb each other.\<close>

definition group_step :: "('a \<Rightarrow> 'k) \<Rightarrow> ('a \<Rightarrow> 'g option \<Rightarrow> 'g) \<Rightarrow> 'a \<Rightarrow> ('k \<times> 'g) list \<Rightarrow> ('k \<times> 'g) list" where
  "group_step key f x m = mp_set (key x) (f x (map_of m (key x))) m"

lemma group_lookup:
  "map_of (fold (group_step key f) xs m) k = fold (\<lambda>x g. Some (f x g)) (filter (\<lambda>x. key x = k) xs) (map_of m k)"
  by (induction xs arbitrary: m) (simp_all add: group_step_def mp_store.get_put)

lemma group_keys: "fst ` set (fold (group_step key f) xs m) = fst ` set m \<union> key ` set xs"
  by (induction xs arbitrary: m) (auto simp: group_step_def keys_mp_set)

lemma group_distinct: "distinct (map fst m) \<Longrightarrow> distinct (map fst (fold (group_step key f) xs m))"
  by (induction xs arbitrary: m) (simp_all add: group_step_def distinct_mp_set)

lemma group_member:
  assumes "(k, g) \<in> set (fold (group_step key f) xs [])"
  shows "fold (\<lambda>x g. Some (f x g)) (filter (\<lambda>x. key x = k) xs) None = Some g \<and> filter (\<lambda>x. key x = k) xs \<noteq> []"
proof -
  have "map_of (fold (group_step key f) xs []) k = Some g"
    using assms by (simp add: group_distinct)
  then have "fold (\<lambda>x g. Some (f x g)) (filter (\<lambda>x. key x = k) xs) None = Some g" by (simp add: group_lookup)
  then show ?thesis by (cases "filter (\<lambda>x. key x = k) xs") auto
qed

end
