(* ===== verification/CallData.thy ===== *)
theory CallData
  imports JsOrder "HOL-Library.List_Lexorder" "HOL-Library.Char_ord" "HOL-Library.Product_Lexorder"
begin

text \<open>
  The call as the API returns it (\<open>lib/api.ts\<close> over the contract types of
  \<open>lib/api-types/types.gen.ts\<close>): spans, turns, session events, the recording. Optional and
  nullable fields are options; an attribute bag is an optional finite map. Record fields that name the same property of two records carry a prefix.
\<close>

type_synonym attr_map = "string \<rightharpoonup> string"

record span =
  sp_name :: string
  spanId :: string
  parentId :: "string option"
  startMs :: "num option"
  durationMs :: "num option"
  attrs :: "attr_map option"
  sp_clock :: string

record turn =
  t_spanId :: "string option"
  userText :: "string option"
  agentText :: "string option"
  t_model :: "string option"
  llmMs :: "num option"
  ttftMs :: "num option"
  sttMs :: "num option"
  ttsMs :: "num option"
  endOfTurnMs :: "num option"
  inputTokens :: "num option"
  outputTokens :: "num option"
  audioSeconds :: "num option"
  characters :: "num option"
  transcriptionDelayMs :: "num option"
  e2eMs :: "num option"
  eotProbability :: "num option"
  eotThreshold :: "num option"
  userItemAt :: "num option"
  agentItemAt :: "num option"
  interrupted :: "bool option"
  t_clockId :: string

datatype state_kind = UserState | AgentState

text \<open>Session events: state changes, transcripts, end-of-turn detections, overlapping speech and
  conversation items, each with its time and, last, its clock.\<close>

datatype session_event =
    StateEv "num option" state_kind string string string
  | TranscriptEv "num option" "bool option" string string
  | EndOfTurnEv "num option" "num option" "num option" string
  | OverlapEv "num option" "bool option" "num option" "num option" "num option" string
  | ItemEv "num option" string string string

fun ev_t :: "session_event \<Rightarrow> num option" where
  "ev_t (StateEv t _ _ _ _) = t"
| "ev_t (TranscriptEv t _ _ _) = t"
| "ev_t (EndOfTurnEv t _ _ _) = t"
| "ev_t (OverlapEv t _ _ _ _ _) = t"
| "ev_t (ItemEv t _ _ _) = t"

datatype speaker = CallerSpeaker | AgentSpeaker

record segment =
  seg_speaker :: "speaker option"
  seg_text :: "string option"
  seg_start :: "num option"
  seg_end :: "num option"

record peaks =
  pk_caller :: "num list"
  pk_agent :: "num list"

record recording =
  rec_url :: string
  rec_duration :: "num option"
  rec_segments :: "segment list option"
  rec_peaks :: "peaks option"
  rec_id :: string
  rec_clockId :: string

record usage =
  us_llmInputTokens :: "num option"
  us_llmOutputTokens :: "num option"
  us_ttsCharacters :: "num option"
  us_sttSeconds :: "num option"
  us_llmCachedTokens :: "num option"
  us_ttsSeconds :: "num option"
  us_note :: string

datatype end_state = Observed | Inferred | OpenEnd | UnknownEnd
datatype clock_origin = CallStart | SessionStart | RecordingStart | FirstEvent | TraceStart | UnknownOrigin
datatype alignment = AlignObserved | AlignInferred | AlignUnknown

record clock =
  ck_id :: string
  ck_origin :: clock_origin
  ck_originAt :: "string option"
  ck_offset :: "num option"
  ck_alignment :: alignment

record live_state =
  ls_state :: string
  ls_at :: string

record call_live =
  lv_user :: "live_state option"
  lv_agent :: "live_state option"

record call =
  c_room :: string
  c_roomSid :: "string option"
  c_startedAt :: string
  c_endedAt :: "string option"
  c_durationSeconds :: "num option"
  c_participantCount :: "nat option"
  c_endReason :: "string option"
  c_spans :: "span list option"
  c_turns :: "turn list option"
  c_events :: "session_event list option"
  c_usage :: "usage option"
  c_recording :: "recording option"
  c_id :: string
  c_endState :: end_state
  c_tags :: "string list"
  c_archived :: bool
  c_clocks :: "clock list"
  c_fields :: "(string \<times> string) list option"
  c_live :: "call_live option"

text \<open>\<open>xs ?? []\<close>\<close>

definition list_or :: "'a list option \<Rightarrow> 'a list" where
  "list_or o1 = (case o1 of None \<Rightarrow> [] | Some xs \<Rightarrow> xs)"

text \<open>\<open>a ?? b\<close> on optional values, and \<open>a ?? d\<close> with a default.\<close>

definition or_else :: "'a option \<Rightarrow> 'a option \<Rightarrow> 'a option" where
  "or_else a b = (case a of None \<Rightarrow> b | Some x \<Rightarrow> Some x)"

definition or_val :: "'a option \<Rightarrow> 'a \<Rightarrow> 'a" where
  "or_val a d = (case a of None \<Rightarrow> d | Some x \<Rightarrow> x)"

text \<open>\<open>s?.attrs?.[k] ?? null\<close>\<close>

definition attr :: "span option \<Rightarrow> string \<Rightarrow> string option" where
  "attr s k = Option.bind s (\<lambda>x. Option.bind (attrs x) (\<lambda>m. m k))"

lemma list_or_simps [simp, vg_eval]: "list_or None = []" "list_or (Some xs) = xs"
  by (simp_all add: list_or_def)

lemma or_else_simps [simp, vg_eval]: "or_else None b = b" "or_else (Some x) b = Some x"
  by (simp_all add: or_else_def)

lemma or_val_simps [simp, vg_eval]: "or_val None d = d" "or_val (Some x) d = x"
  by (simp_all add: or_val_def)

lemma attr_None [simp]: "attr None k = None"
  by (simp add: attr_def)

text \<open>Sample values for the witnesses: a span without attributes, a turn that reports nothing, a
  call with no data.\<close>

definition mk_span :: "string \<Rightarrow> string \<Rightarrow> string option \<Rightarrow> num option \<Rightarrow> num option \<Rightarrow> span" where
  "mk_span n i p st d =
     \<lparr>sp_name = n, spanId = i, parentId = p, startMs = st, durationMs = d, attrs = None, sp_clock = ''trace''\<rparr>"

definition blank_turn :: turn where
  "blank_turn = \<lparr>t_spanId = None, userText = None, agentText = None, t_model = None, llmMs = None,
     ttftMs = None, sttMs = None, ttsMs = None, endOfTurnMs = None, inputTokens = None,
     outputTokens = None, audioSeconds = None, characters = None, transcriptionDelayMs = None,
     e2eMs = None, eotProbability = None, eotThreshold = None, userItemAt = None, agentItemAt = None,
     interrupted = None, t_clockId = ''session''\<rparr>"

definition blank_call :: call where
  "blank_call = \<lparr>c_room = ''r'', c_roomSid = None, c_startedAt = ''2026-01-01T00:00:00Z'',
     c_endedAt = None, c_durationSeconds = None, c_participantCount = None, c_endReason = None,
     c_spans = None, c_turns = None, c_events = None, c_usage = None, c_recording = None, c_id = ''c'',
     c_endState = UnknownEnd, c_tags = [], c_archived = False, c_clocks = [], c_fields = None,
     c_live = None\<rparr>"

end
