(* ===== verification/CallTrace.thy ===== *)
theory CallTrace
  imports CallData
begin

text \<open>
  \<open>features/call/call-trace.ts\<close>: the spans of a call in time order, the descendants of a span by
  parent ids, the spans of one agent turn, the user turn before it, and numeric attributes.
  \<open>localeCompare\<close> on span ids is the order of their characters (they are lower-case hexadecimal).
  The worklist of \<open>descendants\<close> ends on every input, parent cycles and repeated ids included, and
  returns exactly the spans reachable from the root along parent links on the root's clock.
\<close>

section \<open>Spans in time order\<close>

definition span_before :: "span \<Rightarrow> span \<Rightarrow> bool" where
  "span_before a b =
     (case startMs a of
        Some x \<Rightarrow> (case startMs b of
            Some y \<Rightarrow> if x \<noteq> y then x < y else spanId a < spanId b
          | None \<Rightarrow> True)
      | None \<Rightarrow> (case startMs b of Some _ \<Rightarrow> False | None \<Rightarrow> spanId a < spanId b))"

definition orderedSpans :: "span list \<Rightarrow> span list" where
  "orderedSpans spans = sort_by span_before spans"

definition span_key :: "span \<Rightarrow> bool \<times> num \<times> string" where
  "span_key s = (startMs s = None, or_val (startMs s) 0, spanId s)"

interpretation span_ord: key_order span_key span_before
  by unfold_locales (auto simp: span_before_def span_key_def split: option.splits)

section \<open>Descendants\<close>

fun scan_children :: "string \<Rightarrow> string \<Rightarrow> span list \<Rightarrow> string list \<times> string list \<times> span list \<Rightarrow>
    string list \<times> string list \<times> span list" where
  "scan_children i clk [] st = st"
| "scan_children i clk (s # ss) (seen, pending, result) =
     (if parentId s \<noteq> Some i \<or> spanId s \<in> set seen \<or> sp_clock s \<noteq> clk
      then scan_children i clk ss (seen, pending, result)
      else scan_children i clk ss (spanId s # seen, pending @ [spanId s], result @ [s]))"

lemma scan_measure:
  assumes "scan_children i clk ss (seen, pending, result) = (seen', pending', result')"
    and "spanId ` set ss \<subseteq> ids" and "finite ids"
  shows "card (ids - set seen') + length pending' = card (ids - set seen) + length pending"
  using assms
proof (induction ss arbitrary: seen pending result)
  case Nil
  then show ?case by simp
next
  case (Cons s ss)
  show ?case
  proof (cases "parentId s \<noteq> Some i \<or> spanId s \<in> set seen \<or> sp_clock s \<noteq> clk")
    case True
    with Cons show ?thesis by auto
  next
    case False
    with Cons.prems have id: "spanId s \<in> ids - set seen" by auto
    have "ids - set (spanId s # seen) = (ids - set seen) - {spanId s}" by auto
    moreover have "Suc (card ((ids - set seen) - {spanId s})) = card (ids - set seen)"
      using id Cons.prems(3) by (intro card_Suc_Diff1) auto
    ultimately have "Suc (card (ids - set (spanId s # seen))) = card (ids - set seen)"
      by (rule ssubst)
    moreover from False Cons.prems have "scan_children i clk ss (spanId s # seen, pending @ [spanId s], result @ [s])
      = (seen', pending', result')" by simp
    from Cons.IH [OF this] Cons.prems(2,3)
    have "card (ids - set seen') + length pending' = card (ids - set (spanId s # seen)) + Suc (length pending)"
      by simp
    ultimately show ?thesis by linarith
  qed
qed

function walk :: "span list \<Rightarrow> string \<Rightarrow> string list \<times> string list \<times> span list \<Rightarrow> span list" where
  "walk spans clk (seen, pending, result) =
     (if pending = [] then result
      else walk spans clk (scan_children (last pending) clk spans (seen, butlast pending, result)))"
  by pat_completeness auto
termination
proof (relation "measure (\<lambda>(spans, clk, seen, pending, result).
    card (spanId ` set spans - set seen) + length pending)", goal_cases)
  case 1
  show ?case by simp
next
  case (2 spans clk seen pending result)
  obtain a b c where e: "scan_children (last pending) clk spans (seen, butlast pending, result) = (a, b, c)"
    by (metis prod_cases3)
  from scan_measure [OF e, of "spanId ` set spans"] 2 show ?case by (simp add: e)
qed

declare walk.simps [simp del]

definition descendants :: "span list \<Rightarrow> span option \<Rightarrow> span list" where
  "descendants spans rt =
     (case rt of
        None \<Rightarrow> []
      | Some r \<Rightarrow> orderedSpans (walk spans (sp_clock r) ([spanId r], [spanId r], [])))"

section \<open>Turns\<close>

record turn_spans =
  ts_root :: "span option"
  ts_children :: "span list"

definition turnSpans :: "call \<Rightarrow> nat \<Rightarrow> turn_spans" where
  "turnSpans c i =
     (let spans = list_or (c_spans c);
          turns = orderedSpans (filter (\<lambda>s. sp_name s = ''agent_turn'') spans);
          tid = Option.bind (nth_opt (list_or (c_turns c)) i) t_spanId;
          rt = (case tid of
                    Some x \<Rightarrow> if x \<noteq> [] then find (\<lambda>s. spanId s = x) turns else nth_opt turns i
                  | None \<Rightarrow> nth_opt turns i)
      in \<lparr>ts_root = rt, ts_children = descendants spans rt\<rparr>)"

definition userTurnFor :: "call \<Rightarrow> span option \<Rightarrow> turn_spans" where
  "userTurnFor c agent =
     (case Option.bind agent (\<lambda>a. map_option (\<lambda>t. (a, t)) (startMs a)) of
        None \<Rightarrow> \<lparr>ts_root = None, ts_children = []\<rparr>
      | Some (a, ast) \<Rightarrow>
          (let spans = orderedSpans (filter (\<lambda>s. sp_clock s = sp_clock a \<and> startMs s \<noteq> None) (list_or (c_spans c)));
               start = (\<lambda>s. the (startMs s));
               prev = last_opt (filter (\<lambda>s. sp_name s = ''agent_turn'' \<and> start s < ast) spans);
               turn = last_opt (filter (\<lambda>s. sp_name s = ''user_turn'' \<and> start s < ast \<and>
                         (case prev of None \<Rightarrow> True | Some p \<Rightarrow> start p \<le> start s)) spans)
           in \<lparr>ts_root = turn, ts_children = descendants spans turn\<rparr>))"

definition numericAttr :: "span option \<Rightarrow> string \<Rightarrow> num option \<Rightarrow> num option" where
  "numericAttr s key sentinel =
     (case attr s key of
        None \<Rightarrow> None
      | Some raw \<Rightarrow>
          if trim raw = [] then None
          else (case js_number raw of
                  Num n \<Rightarrow> if sentinel = Some n then None else Some n
                | _ \<Rightarrow> None))"

section \<open>Correctness of the walk\<close>

text \<open>The spans reachable from the root along parent links, on the root's clock.\<close>

inductive below :: "span list \<Rightarrow> span \<Rightarrow> span \<Rightarrow> bool" for spans :: "span list" and rt :: span where
  child: "s \<in> set spans \<Longrightarrow> parentId s = Some (spanId rt) \<Longrightarrow> sp_clock s = sp_clock rt \<Longrightarrow> below spans rt s"
| step: "below spans rt p \<Longrightarrow> s \<in> set spans \<Longrightarrow> parentId s = Some (spanId p) \<Longrightarrow>
     sp_clock s = sp_clock rt \<Longrightarrow> below spans rt s"

inductive_cases below_elim: "below spans rt s"

lemma below_in_spans: "below spans rt s \<Longrightarrow> s \<in> set spans"
  by (erule below_elim) auto

text \<open>What one scan does: it appends the unseen children of \<open>i\<close>, one per id.\<close>

definition walk_inv :: "span list \<Rightarrow> span \<Rightarrow> string list \<times> string list \<times> span list \<Rightarrow> bool" where
  "walk_inv spans rt st =
     (case st of (seen, pending, result) \<Rightarrow>
        set seen = insert (spanId rt) (spanId ` set result) \<and>
        distinct (map spanId result) \<and> spanId rt \<notin> spanId ` set result \<and>
        set pending \<subseteq> set seen \<and>
        (\<forall>s \<in> set result. below spans rt s))"

definition walk_closed :: "span list \<Rightarrow> string \<Rightarrow> string list \<times> string list \<times> span list \<Rightarrow> string set \<Rightarrow> bool" where
  "walk_closed spans clk st fin =
     (case st of (seen, pending, result) \<Rightarrow>
        set seen \<subseteq> fin \<union> set pending \<and>
        (\<forall>s \<in> set spans. \<forall>i \<in> fin. parentId s = Some i \<and> sp_clock s = clk \<longrightarrow> spanId s \<in> set seen))"

lemma scan_inv:
  assumes "walk_inv spans rt (seen, pending, result)" "set ss \<subseteq> set spans"
    and "i = spanId rt \<or> (\<exists>p. below spans rt p \<and> spanId p = i)"
  shows "walk_inv spans rt (scan_children i (sp_clock rt) ss (seen, pending, result))"
  using assms
proof (induction ss arbitrary: seen pending result)
  case Nil
  then show ?case by simp
next
  case (Cons s ss)
  show ?case
  proof (cases "parentId s \<noteq> Some i \<or> spanId s \<in> set seen \<or> sp_clock s \<noteq> sp_clock rt")
    case True
    with Cons show ?thesis by auto
  next
    case False
    with Cons.prems have "below spans rt s" by (auto intro: below.intros)
    with False Cons.prems have "walk_inv spans rt (spanId s # seen, pending @ [spanId s], result @ [s])"
      unfolding walk_inv_def by auto
    with False Cons show ?thesis by simp
  qed
qed

lemma scan_grows:
  "scan_children i clk ss (seen, pending, result) = (seen', pending', result') \<Longrightarrow>
     set seen \<subseteq> set seen' \<and> set pending \<subseteq> set pending' \<and> set seen' - set seen \<subseteq> set pending' \<and>
     (\<forall>s \<in> set ss. parentId s = Some i \<and> sp_clock s = clk \<longrightarrow> spanId s \<in> set seen')"
proof (induction ss arbitrary: seen pending result)
  case Nil
  then show ?case by simp
next
  case (Cons s ss)
  show ?case
  proof (cases "parentId s \<noteq> Some i \<or> spanId s \<in> set seen \<or> sp_clock s \<noteq> clk")
    case True
    with Cons show ?thesis by fastforce
  next
    case False
    with Cons.prems have "scan_children i clk ss (spanId s # seen, pending @ [spanId s], result @ [s])
      = (seen', pending', result')" by simp
    from Cons.IH [OF this] show ?thesis by auto
  qed
qed

lemma scan_closed:
  assumes "walk_closed spans clk (seen, pending, result) fin" "pending \<noteq> []"
  shows "walk_closed spans clk (scan_children (last pending) clk spans (seen, butlast pending, result))
           (insert (last pending) fin)"
proof -
  obtain a b c where e: "scan_children (last pending) clk spans (seen, butlast pending, result) = (a, b, c)"
    by (metis prod_cases3)
  have p: "set pending = insert (last pending) (set (butlast pending))"
    using assms(2) by (metis Un_insert_right append_butlast_last_id boolean_algebra.disj_zero_right
        list.set(1) list.simps(15) set_append)
  note g = scan_grows [OF e]
  from assms(1) have sub: "set seen \<subseteq> fin \<union> set pending"
    and old: "\<forall>s \<in> set spans. \<forall>i \<in> fin. parentId s = Some i \<and> sp_clock s = clk \<longrightarrow> spanId s \<in> set seen"
    by (auto simp: walk_closed_def)
  have "set a \<subseteq> insert (last pending) fin \<union> set b"
    using sub g p by blast
  moreover have "spanId s \<in> set a" if "s \<in> set spans" "i \<in> insert (last pending) fin"
    "parentId s = Some i \<and> sp_clock s = clk" for s i
    using that old g by (cases "i = last pending") auto
  ultimately show ?thesis unfolding walk_closed_def e by auto
qed

lemma walk_correct:
  assumes "clk = sp_clock rt" "walk_inv spans rt st" "walk_closed spans clk st fin"
  shows "\<exists>seen. walk_inv spans rt (seen, [], walk spans clk st) \<and>
    (\<forall>s \<in> set spans. \<forall>i \<in> set seen. parentId s = Some i \<and> sp_clock s = clk \<longrightarrow> spanId s \<in> set seen)"
  using assms
proof (induction spans clk st arbitrary: fin rule: walk.induct)
  case (1 spans clk seen pending result)
  note inv = "1.prems"(2) and closed = "1.prems"(3)
  show ?case
  proof (cases "pending = []")
    case True
    then have w: "walk spans clk (seen, pending, result) = result" by (simp add: walk.simps)
    have "set seen \<subseteq> fin" using closed True by (simp add: walk_closed_def)
    moreover have "\<forall>s \<in> set spans. \<forall>i \<in> fin. parentId s = Some i \<and> sp_clock s = clk \<longrightarrow> spanId s \<in> set seen"
      using closed by (simp add: walk_closed_def)
    ultimately show ?thesis using inv True unfolding w by (intro exI [of _ seen]) blast
  next
    case False
    let ?st = "scan_children (last pending) clk spans (seen, butlast pending, result)"
    have "last pending \<in> insert (spanId rt) (spanId ` set result)"
      using inv last_in_set [OF False] unfolding walk_inv_def by auto
    moreover have "\<forall>x \<in> set result. below spans rt x" using inv by (simp add: walk_inv_def)
    ultimately have "last pending = spanId rt \<or> (\<exists>p. below spans rt p \<and> spanId p = last pending)"
      by auto
    moreover have "walk_inv spans rt (seen, butlast pending, result)"
      using inv unfolding walk_inv_def by (auto dest: in_set_butlastD)
    ultimately have "walk_inv spans rt ?st"
      unfolding "1.prems"(1) by (intro scan_inv) auto
    note ih = "1.IH" [OF False "1.prems"(1) this scan_closed [OF closed False]]
    have w: "walk spans clk (seen, pending, result) = walk spans clk ?st"
      using False by (subst walk.simps) simp
    show ?thesis using ih unfolding w .
  qed
qed

lemma walk_start:
  "walk_inv spans r ([spanId r], [spanId r], [])" "walk_closed spans clk ([spanId r], [spanId r], []) {}"
  by (simp_all add: walk_inv_def walk_closed_def)

lemma descendants_spec:
  shows "distinct (map spanId (descendants spans (Some r)))"
    and "s \<in> set (descendants spans (Some r)) \<Longrightarrow> below spans r s \<and> spanId s \<noteq> spanId r"
    and "below spans r s \<Longrightarrow> spanId s = spanId r \<or> spanId s \<in> spanId ` set (descendants spans (Some r))"
proof -
  let ?w = "walk spans (sp_clock r) ([spanId r], [spanId r], [])"
  obtain seen where inv: "walk_inv spans r (seen, [], ?w)"
    and cl: "\<forall>s \<in> set spans. \<forall>i \<in> set seen. parentId s = Some i \<and> sp_clock s = sp_clock r \<longrightarrow> spanId s \<in> set seen"
    using walk_correct [OF refl walk_start] by blast
  have d: "set (descendants spans (Some r)) = set ?w" "mset (descendants spans (Some r)) = mset ?w"
    by (simp_all add: descendants_def orderedSpans_def)
  have "distinct (map spanId ?w)" using inv by (simp add: walk_inv_def)
  moreover have "mset (map spanId (descendants spans (Some r))) = mset (map spanId ?w)"
    by (simp add: d)
  ultimately show "distinct (map spanId (descendants spans (Some r)))"
    by (metis mset_eq_imp_distinct_iff)
  show "s \<in> set (descendants spans (Some r)) \<Longrightarrow> below spans r s \<and> spanId s \<noteq> spanId r"
  proof -
    assume "s \<in> set (descendants spans (Some r))"
    then have s: "s \<in> set ?w" by (simp add: d)
    moreover have "spanId r \<notin> spanId ` set ?w" and b: "\<forall>x \<in> set ?w. below spans r x"
      using inv by (simp_all add: walk_inv_def)
    ultimately have "spanId s \<noteq> spanId r" by (metis imageI)
    with s b show ?thesis by blast
  qed
  have "below spans r s \<Longrightarrow> spanId s \<in> set seen"
  proof (induction rule: below.induct)
    case (child s)
    with cl inv show ?case unfolding walk_inv_def by auto
  next
    case (step p s)
    with cl show ?case by auto
  qed
  then show "below spans r s \<Longrightarrow> spanId s = spanId r \<or> spanId s \<in> spanId ` set (descendants spans (Some r))"
    using inv unfolding d walk_inv_def by auto
qed

lemma descendants_ordered: "ordered_by span_before (descendants spans rt)"
  by (auto simp: descendants_def orderedSpans_def intro: span_ord.ordered split: option.splits)

section \<open>Properties\<close>

text \<open>C1: \<open>descendants\<close> ends on every input and returns, in time order and once per id, exactly the
  ids of the spans reachable from the root by parent links on the root's clock, the root excluded.\<close>

theorem descendants_exact:
  "distinct (map spanId (descendants spans (Some r))) \<and>
   spanId ` set (descendants spans (Some r)) = spanId ` {s. below spans r s} - {spanId r} \<and>
   ordered_by span_before (descendants spans (Some r))"
proof (intro conjI)
  show "distinct (map spanId (descendants spans (Some r)))" by (rule descendants_spec(1))
  show "ordered_by span_before (descendants spans (Some r))" by (rule descendants_ordered)
  show "spanId ` set (descendants spans (Some r)) = spanId ` {s. below spans r s} - {spanId r}"
    using descendants_spec(2) [of _ spans r] descendants_spec(3) [of spans r] by fastforce
qed

lemma last_opt_filter_max:
  assumes "ordered_by lt xs" "last_opt (filter P xs) = Some x" "y \<in> set xs" "P y"
  shows "y = x \<or> \<not> lt x y"
proof -
  let ?f = "filter P xs"
  have "?f \<noteq> []" "last ?f = x" using assms(2) by (auto simp: last_opt_def split: if_splits)
  then have "?f = butlast ?f @ [x]" by (metis append_butlast_last_id)
  moreover have "ordered_by lt ?f" using assms(1) by (rule sorted_wrt_filter)
  moreover have "y \<in> set ?f" using assms by simp
  ultimately show ?thesis by (metis sorted_wrt_append Un_iff list.set_intros(1) set_ConsD
      set_append empty_iff list.set(1))
qed

text \<open>the user turn the model pairs with an agent turn starts before it, not before the previous
  agent turn of the same clock, and no other such user turn starts later.\<close>

theorem userTurnFor_latest:
  assumes "startMs a = Some t" "ts_root (userTurnFor c (Some a)) = Some u"
  shows "u \<in> set (list_or (c_spans c)) \<and> sp_name u = ''user_turn'' \<and> sp_clock u = sp_clock a \<and>
    (\<exists>tu. startMs u = Some tu \<and> tu < t \<and>
      (\<forall>p \<in> set (list_or (c_spans c)). \<forall>tp.
         sp_name p = ''agent_turn'' \<and> sp_clock p = sp_clock a \<and> startMs p = Some tp \<and> tp < t \<longrightarrow> tp \<le> tu) \<and>
      (\<forall>v \<in> set (list_or (c_spans c)). \<forall>tv.
         sp_name v = ''user_turn'' \<and> sp_clock v = sp_clock a \<and> startMs v = Some tv \<and> tv < t \<longrightarrow> tv \<le> tu))"
proof -
  define ss where "ss = orderedSpans (filter (\<lambda>s. sp_clock s = sp_clock a \<and> startMs s \<noteq> None) (list_or (c_spans c)))"
  define isprev where "isprev = (\<lambda>s :: span. sp_name s = ''agent_turn'' \<and> the (startMs s) < t)"
  define prev where "prev = last_opt (filter isprev ss)"
  define P where "P = (\<lambda>s :: span. sp_name s = ''user_turn'' \<and> the (startMs s) < t \<and>
    (case prev of None \<Rightarrow> True | Some p \<Rightarrow> the (startMs p) \<le> the (startMs s)))"
  have u: "last_opt (filter P ss) = Some u"
    using assms by (simp add: userTurnFor_def ss_def isprev_def prev_def P_def Let_def)
  have o: "ordered_by span_before ss" unfolding ss_def orderedSpans_def by (rule span_ord.ordered)
  have mem: "s \<in> set ss \<longleftrightarrow> s \<in> set (list_or (c_spans c)) \<and> sp_clock s = sp_clock a \<and> startMs s \<noteq> None" for s
    by (auto simp: ss_def orderedSpans_def)
  have le: "tb \<le> ta" if "b = x \<or> \<not> span_before x b" "startMs x = Some ta" "startMs b = Some tb" for x b ta tb
    using that by (auto simp: span_before_def split: if_splits)
  from last_opt_filter [OF u] have uu: "u \<in> set ss" "P u" by auto
  then obtain tu where tu: "startMs u = Some tu" "tu < t" using mem by (auto simp: P_def)
  have prevs: "tp \<le> tu" if "p \<in> set ss" "isprev p" "startMs p = Some tp" for p tp
  proof -
    from that have "filter isprev ss \<noteq> []" by (auto simp: filter_empty_conv)
    then obtain q where q: "prev = Some q" by (auto simp: prev_def last_opt_def)
    then have "q \<in> set ss" using last_opt_filter unfolding prev_def by fast
    then obtain tq where tq: "startMs q = Some tq" using mem by auto
    have "tp \<le> tq"
      by (rule le [OF last_opt_filter_max [OF o q [unfolded prev_def] that(1,2)] tq that(3)])
    moreover have "tq \<le> tu" using uu(2) q tq tu by (simp add: P_def)
    ultimately show ?thesis by simp
  qed
  have users: "tv \<le> tu" if "v \<in> set ss" "sp_name v = ''user_turn''" "startMs v = Some tv" "tv < t" for v tv
  proof (cases "P v")
    case True
    show ?thesis by (rule le [OF last_opt_filter_max [OF o u that(1) True] tu(1) that(3)])
  next
    case False
    with that obtain p where "prev = Some p" "\<not> the (startMs p) \<le> tv" by (auto simp: P_def split: option.splits)
    moreover have "the (startMs p) \<le> tu" using uu(2) \<open>prev = Some p\<close> tu by (simp add: P_def)
    ultimately show ?thesis by linarith
  qed
  show ?thesis
    using uu tu prevs users mem by (auto simp: P_def isprev_def)
qed

theorem userTurnFor_latest_witness:
  "let a = mk_span ''agent_turn'' ''a'' None (Some 9) None; u = mk_span ''user_turn'' ''u'' None (Some 5) None;
       c = blank_call\<lparr>c_spans := Some [a, u]\<rparr>
   in startMs a = Some 9 \<and> ts_root (userTurnFor c (Some a)) = Some u \<and> sp_name u = ''user_turn''"
proof -
  let ?a = "mk_span ''agent_turn'' ''a'' None (Some 9) None"
  let ?u = "mk_span ''user_turn'' ''u'' None (Some 5) None"
  let ?c = "blank_call\<lparr>c_spans := Some [?a, ?u]\<rparr>"
  have h: "startMs ?a = Some 9" "ts_root (userTurnFor ?c (Some ?a)) = Some ?u"
    by (simp_all add: userTurnFor_def mk_span_def orderedSpans_def span_before_def last_opt_def Let_def)
  show ?thesis using userTurnFor_latest [OF h] h by (simp add: Let_def)
qed

end
