(* ===== verification/CallModel.thy ===== *)
theory CallModel
  imports CallTrace
begin

text \<open>
  \<open>features/call/call-model.ts\<close>: one shape for every call, built from session events, from a
  recording's segments or from spans. Each source has its function (\<open>fromEvents\<close>, \<open>fromRecording\<close>,
  \<open>fromSpans\<close>); \<open>buildModel\<close> picks the source and adds the tool moments, the model names and the
  pipeline. The lemmas show the shape of the intervals, what a turn's response time is for every
  source, and that unreported figures stay unknown.
\<close>

record iv =
  iv_start :: num
  iv_end :: num

definition Iv :: "num \<Rightarrow> num \<Rightarrow> iv" where
  "Iv a b = \<lparr>iv_start = a, iv_end = b\<rparr>"

lemma Iv_sel [simp]: "iv_start (Iv a b) = a" "iv_end (Iv a b) = b"
  by (simp_all add: Iv_def)

datatype moment =
    Interruption iv bool "num option"
  | Backchannel iv "num option"
  | FalseInterruption num bool
  | ToolMoment iv string

record eot =
  eot_t :: num
  eot_probability :: "num option"
  eot_threshold :: "num option"

record turn_model =
  tm_i :: nat
  tm_userText :: "string option"
  tm_agentText :: "string option"
  tm_interrupted :: bool
  tm_utterance :: "iv option"
  tm_eot :: "eot option"
  tm_wait :: "iv option"
  tm_thinking :: "iv option"
  tm_speaking :: "iv option"
  tm_ttftMs :: "num option"
  tm_ttsMs :: "num option"
  tm_eotMs :: "num option"
  tm_e2eMs :: "num option"
  tm_responseMs :: "num option"
  tm_responseDerived :: bool
  tm_window :: iv

datatype pipeline = Cascaded | Realtime | TextOnly | UnknownPipeline
datatype source = FromEvents | FromRecording | FromSpans | NoSource

record base_model =
  cm_duration :: "num option"
  cm_caller :: "iv list"
  cm_thinking :: "iv list"
  cm_speaking :: "iv list"
  cm_turns :: "turn_model list"
  cm_moments :: "moment list"

record call_model = base_model +
  cm_pipeline :: pipeline
  cm_models :: "string list"
  cm_source :: source

section \<open>Placing events and spans\<close>

text \<open>Events with a time, as (time, event).\<close>

definition timed :: "session_event list \<Rightarrow> (num \<times> session_event) list" where
  "timed es = somes (map (\<lambda>e. map_option (\<lambda>t. (t, e)) (ev_t e)) es)"

definition placed :: "span \<Rightarrow> bool" where
  "placed x \<longleftrightarrow> startMs x \<noteq> None \<and> durationMs x \<noteq> None"

definition span_iv :: "span \<Rightarrow> iv" where
  "span_iv x = Iv (the (startMs x) / 1000) ((the (startMs x) + the (durationMs x)) / 1000)"

fun intervals_go :: "state_kind \<Rightarrow> string \<Rightarrow> (num \<times> session_event) list \<Rightarrow> num option \<Rightarrow> iv list \<Rightarrow>
    num option \<times> iv list" where
  "intervals_go k st [] opened out = (opened, out)"
| "intervals_go k st ((t, e) # es) opened out =
     (case e of
        StateEv _ k' from to _ \<Rightarrow>
          if k' \<noteq> k then intervals_go k st es opened out
          else if to = st \<and> opened = None then intervals_go k st es (Some t) out
          else (case opened of
                  Some o1 \<Rightarrow> if from = st then intervals_go k st es None (out @ [Iv o1 t])
                             else intervals_go k st es opened out
                | None \<Rightarrow> intervals_go k st es opened out)
      | _ \<Rightarrow> intervals_go k st es opened out)"

definition intervals :: "session_event list \<Rightarrow> state_kind \<Rightarrow> string \<Rightarrow> iv list" where
  "intervals all k st =
     (let events = timed all; (opened, out) = intervals_go k st events None []
      in case opened of
           Some o1 \<Rightarrow> if events \<noteq> [] then out @ [Iv o1 (fst (last events))] else out
         | None \<Rightarrow> out)"

definition pad :: "iv \<Rightarrow> num \<Rightarrow> num \<Rightarrow> iv" where
  "pad x lead trail = Iv (max 0 (iv_start x - lead)) (iv_end x + trail)"

text \<open>\<open>Math.round((speak.start - utterance.end) * 1000)\<close>\<close>

definition gap_ms :: "iv \<Rightarrow> iv \<Rightarrow> num" where
  "gap_ms utterance speak = of_int (js_round ((iv_start speak - iv_end utterance) * 1000))"

definition both :: "'a option \<Rightarrow> 'b option \<Rightarrow> ('a \<times> 'b) option" where
  "both a b = (case a of None \<Rightarrow> None | Some x \<Rightarrow> map_option (\<lambda>y. (x, y)) b)"

definition truthy_flag :: "bool option \<Rightarrow> bool" where
  "truthy_flag b \<longleftrightarrow> b = Some True"

section \<open>From session events\<close>

text \<open>The \<open>while\<close> that joins the last run with earlier ones under 1.5 s apart; the earlier runs come
  nearest first.\<close>

fun join_runs :: "num \<Rightarrow> iv list \<Rightarrow> num" where
  "join_runs st [] = st"
| "join_runs st (r # rs) = (if st - iv_end r < 3 / 2 then join_runs (iv_start r) rs else st)"

definition utterance_of :: "iv list \<Rightarrow> num \<Rightarrow> num \<Rightarrow> iv option" where
  "utterance_of caller userAt prevEnd =
     (let runs = filter (\<lambda>s. iv_end s \<le> userAt + 1 / 20 \<and> iv_start s \<ge> prevEnd - 3) caller
      in if runs = [] then None
         else Some (Iv (join_runs (iv_start (last runs)) (rev (butlast runs))) (iv_end (last runs))))"

fun eot_event :: "num \<Rightarrow> num \<Rightarrow> num \<times> session_event \<Rightarrow> eot option" where
  "eot_event userAt prevEnd (t, EndOfTurnEv _ p th _) =
     (if t \<le> userAt + 1 / 10 \<and> t \<ge> prevEnd
      then Some \<lparr>eot_t = t, eot_probability = p, eot_threshold = th\<rparr> else None)"
| "eot_event userAt prevEnd _ = None"

definition event_turn :: "(num \<times> session_event) list \<Rightarrow> iv list \<Rightarrow> iv list \<Rightarrow> iv list \<Rightarrow> turn list \<Rightarrow>
    nat \<Rightarrow> turn \<Rightarrow> turn_model" where
  "event_turn ev caller thinking speaking raw i t =
     (let prevEnd = (if i > 0 then or_val (Option.bind (nth_opt raw (i - 1)) agentItemAt) 0 else 0);
          userAt = userItemAt t;
          agentAt = agentItemAt t;
          utterance = (case both (userText t) userAt of
                         None \<Rightarrow> None
                       | Some (_, ua) \<Rightarrow> utterance_of caller ua prevEnd);
          eot = (case userAt of
                   None \<Rightarrow> None
                 | Some ua \<Rightarrow> last_opt (somes (map (eot_event ua prevEnd) ev)));
          think = (case userAt of
                     None \<Rightarrow> None
                   | Some ua \<Rightarrow> find (\<lambda>s. iv_start s \<ge> ua - 1 / 10 \<and>
                        (case agentAt of None \<Rightarrow> True | Some aa \<Rightarrow> iv_start s \<le> aa)) thinking);
          from = or_val (or_else (map_option iv_end think) userAt) prevEnd;
          speak = find (\<lambda>s. iv_end s \<ge> from - 1 / 20 \<and>
                     (case agentAt of None \<Rightarrow> True | Some aa \<Rightarrow> iv_start s \<le> aa + 1 / 20) \<and>
                     iv_start s \<ge> prevEnd - 1 / 20) speaking;
          eotMs = endOfTurnMs t;
          wait = map_option (\<lambda>(u, e). Iv (iv_end u) (iv_end u + e / 1000)) (both utterance eotMs);
          derived = map_option (\<lambda>(u, s). gap_ms u s) (both utterance speak);
          first = or_val (or_else (or_else (map_option iv_start utterance) (map_option iv_start think))
                     (map_option iv_start speak)) prevEnd;
          lst = max (max (or_val (map_option iv_end speak) 0) (or_val agentAt 0)) first
      in \<lparr>tm_i = i, tm_userText = userText t, tm_agentText = agentText t,
          tm_interrupted = truthy_flag (interrupted t), tm_utterance = utterance, tm_eot = eot,
          tm_wait = wait, tm_thinking = think, tm_speaking = speak, tm_ttftMs = ttftMs t,
          tm_ttsMs = ttsMs t, tm_eotMs = eotMs, tm_e2eMs = e2eMs t,
          tm_responseMs = or_else (e2eMs t) derived,
          tm_responseDerived = (e2eMs t = None \<and> derived \<noteq> None),
          tm_window = pad (Iv first lst) (1 / 2) (if truthy_flag (interrupted t) then 3 / 2 else 3 / 5)\<rparr>)"

fun overlap_moment :: "num \<times> session_event \<Rightarrow> moment option" where
  "overlap_moment (t, OverlapEv _ isInt (Some started) detectedAt delay _) =
     (let p = Iv started (max (or_val detectedAt started) (started + 1 / 20));
          detectionMs = map_option (\<lambda>d. d * 1000) delay
      in Some (if truthy_flag isInt then Interruption p False detectionMs else Backchannel p detectionMs))"
| "overlap_moment _ = None"

fun interruption_in :: "iv \<Rightarrow> moment \<Rightarrow> bool" where
  "interruption_in sp (Interruption p _ _) = (iv_start sp \<le> iv_start p \<and> iv_start p \<le> iv_end sp)"
| "interruption_in sp _ = False"

text \<open>One turn of the loop that infers where an interrupted reply was cut.\<close>

definition infer_cut :: "iv list \<Rightarrow> moment list \<Rightarrow> turn_model \<Rightarrow> moment list" where
  "infer_cut caller moments t =
     (case tm_speaking t of
        None \<Rightarrow> moments
      | Some sp \<Rightarrow>
          if \<not> tm_interrupted t \<or> list_ex (interruption_in sp) moments then moments
          else (case find (\<lambda>s. iv_start s > iv_start sp \<and> iv_start s < iv_end sp) caller of
                  None \<Rightarrow> moments
                | Some over \<Rightarrow> moments @ [Interruption (Iv (iv_start over) (iv_end sp)) True
                                  (Some ((iv_end sp - iv_start over) * 1000))]))"

definition fromEvents :: "call \<Rightarrow> base_model" where
  "fromEvents c =
     (let all = list_or (c_events c);
          ev = timed all;
          caller = intervals all UserState ''speaking'';
          thinking = intervals all AgentState ''thinking'';
          speaking = intervals all AgentState ''speaking'';
          raw = list_or (c_turns c);
          turns = map (\<lambda>(i, t). event_turn ev caller thinking speaking raw i t) (indexed raw);
          moments = foldl (infer_cut caller) (somes (map overlap_moment ev)) turns
      in \<lparr>cm_duration = (if ev \<noteq> [] then Some (fst (last ev)) else c_durationSeconds c),
          cm_caller = caller, cm_thinking = thinking, cm_speaking = speaking,
          cm_turns = turns, cm_moments = moments\<rparr>)"

section \<open>From a recording\<close>

definition segment_iv :: "segment \<Rightarrow> iv option" where
  "segment_iv s = map_option (\<lambda>(a, b). Iv a b) (both (seg_start s) (seg_end s))"

definition recording_turn :: "iv option list \<Rightarrow> iv option list \<Rightarrow> nat \<Rightarrow> turn \<Rightarrow> turn_model" where
  "recording_turn callerSegs agentSegs i t =
     (let utterance = Option.bind (nth_opt callerSegs i) (\<lambda>x. x);
          speak = Option.bind (nth_opt agentSegs i) (\<lambda>x. x);
          derived = map_option (\<lambda>(u, s). gap_ms u s) (both utterance speak);
          first = or_val (or_else (map_option iv_start utterance) (map_option iv_start speak)) 0
      in \<lparr>tm_i = i, tm_userText = userText t, tm_agentText = agentText t,
          tm_interrupted = truthy_flag (interrupted t), tm_utterance = utterance, tm_eot = None,
          tm_wait = None, tm_thinking = None, tm_speaking = speak, tm_ttftMs = ttftMs t,
          tm_ttsMs = ttsMs t, tm_eotMs = endOfTurnMs t, tm_e2eMs = e2eMs t,
          tm_responseMs = or_else (e2eMs t) derived,
          tm_responseDerived = (e2eMs t = None \<and> derived \<noteq> None),
          tm_window = pad (Iv first (or_val (map_option iv_end speak) first)) (1 / 2) (3 / 5)\<rparr>)"

definition fromRecording :: "call \<Rightarrow> recording \<Rightarrow> base_model" where
  "fromRecording c r =
     (let segs = list_or (rec_segments r);
          callerSegs = map segment_iv (filter (\<lambda>s. seg_speaker s = Some CallerSpeaker) segs);
          agentSegs = map segment_iv (filter (\<lambda>s. seg_speaker s = Some AgentSpeaker) segs)
      in \<lparr>cm_duration = rec_duration r, cm_caller = somes callerSegs, cm_thinking = [],
          cm_speaking = somes agentSegs,
          cm_turns = map (\<lambda>(i, t). recording_turn callerSegs agentSegs i t) (indexed (list_or (c_turns c))),
          cm_moments = []\<rparr>)"

section \<open>From spans\<close>

definition named_ivs :: "string \<Rightarrow> span list \<Rightarrow> iv list" where
  "named_ivs n ss = map span_iv (filter (\<lambda>x. sp_name x = n) (filter placed ss))"

definition span_hull :: "iv list \<Rightarrow> iv option" where
  "span_hull xs = (if xs = [] then None else Some (Iv (iv_start (hd xs)) (iv_end (last xs))))"

text \<open>What one agent turn adds: its speech, its caller runs, its thinking interval, its turn; nothing
  when its root is missing or not placed.\<close>

definition span_turn :: "call \<Rightarrow> nat \<Rightarrow> (iv list \<times> iv list \<times> iv \<times> turn_model) option" where
  "span_turn c i =
     (let ts = turnSpans c i; t = nth_opt (list_or (c_turns c)) i
      in case ts_root ts of
           None \<Rightarrow> None
         | Some a \<Rightarrow>
             if \<not> placed a then None
             else (let speech = named_ivs ''agent_speaking'' (ts_children ts);
                       speak = span_hull speech;
                       user = userTurnFor c (Some a);
                       runs = named_ivs ''user_speaking'' (ts_children user);
                       utterance = span_hull runs;
                       think = Iv (iv_start (span_iv a)) (or_val (map_option iv_start speak) (iv_end (span_iv a)));
                       detector = last_opt (filter (\<lambda>x. sp_name x = ''eou_detection'') (ts_children user));
                       probability = numericAttr detector ''lk.eou.probability'' None;
                       threshold = numericAttr detector ''lk.eou.unlikely_threshold'' None;
                       derived = (case both utterance speak of
                                    Some (u, s) \<Rightarrow> if iv_start s \<ge> iv_end u then Some (gap_ms u s) else None
                                  | None \<Rightarrow> None);
                       e2e = Option.bind t e2eMs
                   in Some (speech, runs, think,
                        \<lparr>tm_i = i, tm_userText = Option.bind t userText, tm_agentText = Option.bind t agentText,
                         tm_interrupted = truthy_flag (Option.bind t interrupted), tm_utterance = utterance,
                         tm_eot = map_option (\<lambda>x. \<lparr>eot_t = x / 1000, eot_probability = probability,
                                     eot_threshold = threshold\<rparr>) (Option.bind detector startMs),
                         tm_wait = None, tm_thinking = Some think, tm_speaking = speak,
                         tm_ttftMs = Option.bind t ttftMs, tm_ttsMs = Option.bind t ttsMs,
                         tm_eotMs = Option.bind t endOfTurnMs, tm_e2eMs = e2e,
                         tm_responseMs = or_else e2e derived,
                         tm_responseDerived = (e2e = None \<and> derived \<noteq> None),
                         tm_window = pad (span_iv a) (3 / 10) (3 / 10)\<rparr>)))"

definition tool_moments :: "span list \<Rightarrow> moment list" where
  "tool_moments spans =
     map (\<lambda>x. ToolMoment (span_iv x) (or_val (attr (Some x) ''lk.function_tool.name'') (sp_name x)))
       (filter (\<lambda>x. sp_name x = ''function_tool'') (filter placed spans))"

definition fromSpans :: "call \<Rightarrow> base_model" where
  "fromSpans c =
     (let spans = list_or (c_spans c);
          agentTurns = orderedSpans (filter (\<lambda>x. sp_name x = ''agent_turn'') spans);
          parts = somes (map (span_turn c) [0..<length agentTurns]);
          ends = map (\<lambda>x. iv_end (span_iv x)) (filter placed spans)
      in \<lparr>cm_duration = (if ends = [] then None else Some (fold max ends 0)),
          cm_caller = concat (map (\<lambda>(_, runs, _, _). runs) parts),
          cm_thinking = map (\<lambda>(_, _, th, _). th) parts,
          cm_speaking = concat (map (\<lambda>(sp, _, _, _). sp) parts),
          cm_turns = map (\<lambda>(_, _, _, t). t) parts,
          cm_moments = tool_moments spans\<rparr>)"

section \<open>The model of a call\<close>

definition model_source :: "call \<Rightarrow> source" where
  "model_source c =
     (if list_or (c_events c) \<noteq> [] then FromEvents
      else if c_recording c \<noteq> None then FromRecording
      else if list_or (c_spans c) \<noteq> [] then FromSpans else NoSource)"

definition base_of :: "call \<Rightarrow> base_model" where
  "base_of c =
     (case model_source c of
        FromEvents \<Rightarrow> fromEvents c
      | FromRecording \<Rightarrow> fromRecording c (the (c_recording c))
      | FromSpans \<Rightarrow> fromSpans c
      | NoSource \<Rightarrow> \<lparr>cm_duration = c_durationSeconds c, cm_caller = [], cm_thinking = [],
                     cm_speaking = [], cm_turns = [], cm_moments = []\<rparr>)"

definition pipeline_of :: "call \<Rightarrow> string list \<Rightarrow> pipeline" where
  "pipeline_of c models =
     (let turns = list_or (c_turns c) in
      if list_ex (\<lambda>s. sp_name s = ''realtime_inference'') (list_or (c_spans c)) \<or>
         list_ex (\<lambda>m. has_sub m ''realtime'') models then Realtime
      else if list_ex (\<lambda>t. ttsMs t \<noteq> None \<or> endOfTurnMs t \<noteq> None) turns then Cascaded
      else if turns \<noteq> [] then TextOnly else UnknownPipeline)"

definition models_of :: "call \<Rightarrow> string list" where
  "models_of c = uniq (filter (\<lambda>m. m \<noteq> []) (somes (map t_model (list_or (c_turns c)))))"

definition buildModel :: "call \<Rightarrow> call_model" where
  "buildModel c =
     (let src = model_source c; b = base_of c;
          moments = (if src \<noteq> FromSpans then cm_moments b @ tool_moments (list_or (c_spans c)) else cm_moments b);
          models = models_of c
      in \<lparr>cm_duration = cm_duration b, cm_caller = cm_caller b, cm_thinking = cm_thinking b,
          cm_speaking = cm_speaking b, cm_turns = cm_turns b, cm_moments = moments,
          cm_pipeline = pipeline_of c models, cm_models = models, cm_source = src\<rparr>)"

fun is_interruption :: "moment \<Rightarrow> bool" where
  "is_interruption (Interruption _ _ _) = True"
| "is_interruption _ = False"

definition interruptionCount :: "call_model \<Rightarrow> nat" where
  "interruptionCount m = max (length (filter is_interruption (cm_moments m))) (length (filter tm_interrupted (cm_turns m)))"

definition callLength :: "call \<Rightarrow> num option \<Rightarrow> num option" where
  "callLength c model_duration = or_else (c_durationSeconds c) model_duration"

fun pipelineLabel :: "pipeline \<Rightarrow> string" where
  "pipelineLabel Cascaded = ''Cascaded '' @ middot @ '' STT, LLM, TTS''"
| "pipelineLabel Realtime = ''Realtime '' @ middot @ '' speech to speech''"
| "pipelineLabel TextOnly = ''Text only '' @ middot @ '' LLM''"
| "pipelineLabel UnknownPipeline = ''Pipeline unknown''"

definition fmtSec :: "num \<Rightarrow> string" where
  "fmtSec s = (if s < 1 then int_str (js_round (s * 1000)) @ '' ms'' else to_fixed 2 s @ '' s'')"

definition fmtMs :: "num \<Rightarrow> string" where
  "fmtMs v =
     (if v < 1 / 10 then ''<0.1 ms''
      else if v \<ge> 1000 then to_fixed 2 (v / 1000) @ '' s''
      else (if v < 10 then to_fixed 1 v else int_str (js_round v)) @ '' ms'')"

definition turnCount :: "call \<Rightarrow> call_model \<Rightarrow> nat option" where
  "turnCount c model =
     (if cm_turns model \<noteq> [] then Some (length (cm_turns model))
      else if c_turns c = Some [] \<and> \<not> list_ex (\<lambda>s. sp_name s = ''agent_turn'') (list_or (c_spans c)) then Some 0
      else None)"

section \<open>Intervals\<close>

text \<open>The intervals of a state do not overlap and follow each other in time: each ends before the next
  starts, and all lie before the time already read.\<close>

definition chained :: "iv list \<Rightarrow> bool" where
  "chained xs \<longleftrightarrow> (\<forall>x \<in> set xs. iv_start x \<le> iv_end x) \<and> sorted_wrt (\<lambda>a b. iv_end a \<le> iv_start b) xs"

definition ends_by :: "num \<Rightarrow> iv list \<Rightarrow> bool" where
  "ends_by t xs \<longleftrightarrow> (\<forall>x \<in> set xs. iv_end x \<le> t)"

lemma chained_snoc:
  "chained xs \<Longrightarrow> ends_by a xs \<Longrightarrow> a \<le> b \<Longrightarrow> chained (xs @ [Iv a b])"
  by (auto simp: chained_def ends_by_def sorted_wrt_append)

lemma ends_by_mono: "ends_by a xs \<Longrightarrow> a \<le> b \<Longrightarrow> ends_by b xs"
  by (auto simp: ends_by_def)

definition open_ok :: "num \<Rightarrow> num option \<Rightarrow> iv list \<Rightarrow> bool" where
  "open_ok t opened out \<longleftrightarrow> chained out \<and> ends_by t out \<and>
     (case opened of None \<Rightarrow> True | Some o1 \<Rightarrow> o1 \<le> t \<and> ends_by o1 out)"

lemma open_ok_mono: "open_ok t opened out \<Longrightarrow> t \<le> u \<Longrightarrow> open_ok u opened out"
  by (auto simp: open_ok_def intro: ends_by_mono split: option.splits)

lemma open_ok_open: "open_ok t None out \<Longrightarrow> open_ok t (Some t) out"
  by (simp add: open_ok_def)

lemma open_ok_close: "open_ok t (Some o1) out \<Longrightarrow> open_ok t None (out @ [Iv o1 t])"
  by (auto simp: open_ok_def intro: chained_snoc) (auto simp: ends_by_def)

lemma intervals_go_step:
  assumes "open_ok t opened out"
  shows "\<exists>op2 out2. open_ok t op2 out2 \<and>
    intervals_go k st ((t, e) # es) opened out = intervals_go k st es op2 out2"
proof (cases e)
  case (StateEv t' k' fr to clk)
  show ?thesis
  proof (cases opened)
    case None
    with assms StateEv show ?thesis
      by (cases "k' = k \<and> to = st") (auto intro: open_ok_open)
  next
    case (Some o1)
    with assms StateEv show ?thesis
      by (cases "k' = k \<and> fr = st") (auto intro: open_ok_close)
  qed
qed (use assms in auto)

lemma intervals_go_ok:
  assumes "open_ok t0 opened out" "sorted (t0 # map fst es)"
    and "intervals_go k st es opened out = (opened', out')"
  shows "open_ok (last (t0 # map fst es)) opened' out'"
  using assms
proof (induction es arbitrary: t0 opened out)
  case Nil
  then show ?case by simp
next
  case (Cons x es)
  obtain t e where x: "x = (t, e)" by fastforce
  with Cons.prems have "open_ok t opened out" "sorted (t # map fst es)"
    by (auto intro: open_ok_mono)
  from intervals_go_step [OF this(1), of k st e es] Cons.prems(3) x
  obtain op2 out2 where "open_ok t op2 out2" "intervals_go k st es op2 out2 = (opened', out')" by auto
  from Cons.IH [OF this(1) \<open>sorted (t # map fst es)\<close> this(2)] x show ?case by simp
qed

text \<open>C2: for events in time order, the intervals of a state run forward, do not overlap, and end by the
  last event.\<close>

theorem intervals_chained:
  assumes "sorted (map fst (timed es))"
  shows "chained (intervals es k st) \<and>
    (intervals es k st \<noteq> [] \<longrightarrow> ends_by (fst (last (timed es))) (intervals es k st))"
proof (cases "timed es")
  case Nil
  then show ?thesis by (simp add: intervals_def chained_def)
next
  case (Cons x xs)
  obtain opened out where g: "intervals_go k st (timed es) None [] = (opened, out)" by fastforce
  have "open_ok (fst x) None []" by (simp add: open_ok_def chained_def ends_by_def)
  from intervals_go_ok [OF this _ g] assms Cons
  have ok: "open_ok (last (fst x # map fst (timed es))) opened out" by simp
  have l: "last (fst x # map fst (timed es)) = fst (last (timed es))"
    using Cons by (simp add: last_map)
  show ?thesis
  proof (cases opened)
    case None
    with ok g Cons l show ?thesis by (simp add: intervals_def open_ok_def)
  next
    case (Some o1)
    with ok g Cons l open_ok_close [of "fst (last (timed es))" o1 out]
    show ?thesis by (simp add: intervals_def open_ok_def)
  qed
qed

theorem intervals_chained_witness:
  "let es = [StateEv (Some 1) UserState ''listening'' ''speaking'' ''s'', StateEv (Some 3) UserState ''speaking'' ''listening'' ''s'',
             StateEv (Some 5) UserState ''listening'' ''speaking'' ''s'']
   in sorted (map fst (timed es)) \<and> intervals es UserState ''speaking'' = [Iv 1 3, Iv 5 5] \<and>
      chained (intervals es UserState ''speaking'')"
proof -
  let ?es = "[StateEv (Some 1) UserState ''listening'' ''speaking'' ''s'', StateEv (Some 3) UserState ''speaking'' ''listening'' ''s'',
             StateEv (Some 5) UserState ''listening'' ''speaking'' ''s'']"
  have h: "sorted (map fst (timed ?es))" by (simp add: timed_def)
  moreover have "intervals ?es UserState ''speaking'' = [Iv 1 3, Iv 5 5]"
    by (simp add: intervals_def timed_def)
  ultimately show ?thesis using intervals_chained [OF h, of UserState "''speaking''"] by (simp add: Let_def)
qed

section \<open>The caller's utterance\<close>

text \<open>\<open>linked b\<close>: each run of \<open>b\<close> starts less than 1.5 s after the one before it ended.\<close>

fun linked :: "iv list \<Rightarrow> bool" where
  "linked (a # b # xs) \<longleftrightarrow> iv_start b - iv_end a < 3 / 2 \<and> linked (b # xs)"
| "linked _ \<longleftrightarrow> True"

lemma join_runs_spec:
  "\<exists>pre block. rev rs @ [r] = pre @ block \<and> block \<noteq> [] \<and> linked block \<and>
     join_runs (iv_start r) rs = iv_start (hd block) \<and>
     (pre \<noteq> [] \<longrightarrow> iv_start (hd block) - iv_end (last pre) \<ge> 3 / 2)"
proof (induction rs arbitrary: r)
  case Nil
  show ?case by (intro exI [of _ "[]"] exI [of _ "[r]"]) simp
next
  case (Cons q rs)
  show ?case
  proof (cases "iv_start r - iv_end q < 3 / 2")
    case True
    from Cons.IH [of q] obtain pre block where b: "rev rs @ [q] = pre @ block" "block \<noteq> []" "linked block"
      "join_runs (iv_start q) rs = iv_start (hd block)"
      "pre \<noteq> [] \<longrightarrow> iv_start (hd block) - iv_end (last pre) \<ge> 3 / 2" by auto
    have "last block = q" using b(1,2) by (metis last_appendR last_snoc)
    with b(2,3) True have "linked (block @ [r])"
      by (induction block rule: linked.induct) auto
    with b True show ?thesis
      by (intro exI [of _ pre] exI [of _ "block @ [r]"]) auto
  next
    case False
    then show ?thesis
      by (intro exI [of _ "rev (q # rs)"] exI [of _ "[r]"]) auto
  qed
qed

text \<open>the utterance before a message spans a maximal tail of the caller's runs that ended by the
  message, joined over gaps under 1.5 s; without such a run there is none.\<close>

theorem utterance_of_tail:
  "let runs = filter (\<lambda>s. iv_end s \<le> userAt + 1 / 20 \<and> iv_start s \<ge> prevEnd - 3) caller
   in case utterance_of caller userAt prevEnd of
        None \<Rightarrow> runs = []
      | Some u \<Rightarrow> \<exists>pre block. runs = pre @ block \<and> block \<noteq> [] \<and> linked block \<and>
          u = Iv (iv_start (hd block)) (iv_end (last block)) \<and>
          (pre = [] \<or> iv_start (hd block) - iv_end (last pre) \<ge> 3 / 2)"
proof -
  define runs where "runs = filter (\<lambda>s. iv_end s \<le> userAt + 1 / 20 \<and> iv_start s \<ge> prevEnd - 3) caller"
  show ?thesis
  proof (cases "runs = []")
    case True
    then show ?thesis by (simp add: utterance_of_def runs_def)
  next
    case False
    with join_runs_spec [of "rev (butlast runs)" "last runs"]
    obtain pre block where b: "runs = pre @ block" "block \<noteq> []" "linked block"
      "join_runs (iv_start (last runs)) (rev (butlast runs)) = iv_start (hd block)"
      "pre \<noteq> [] \<longrightarrow> iv_start (hd block) - iv_end (last pre) \<ge> 3 / 2" by force
    have "utterance_of caller userAt prevEnd = Some (Iv (iv_start (hd block)) (iv_end (last block)))"
      using False b(1,2,4) by (simp add: utterance_of_def Let_def flip: runs_def)
    with b show ?thesis unfolding Let_def runs_def [symmetric] by (auto simp del: append_eq_append_conv)
  qed
qed

section \<open>Response times\<close>

text \<open>What every source guarantees of a turn's response time.\<close>

definition response_ok :: "turn_model \<Rightarrow> bool" where
  "response_ok m \<longleftrightarrow>
     (tm_responseDerived m \<longleftrightarrow> tm_e2eMs m = None \<and> tm_responseMs m \<noteq> None) \<and>
     (tm_e2eMs m \<noteq> None \<longrightarrow> tm_responseMs m = tm_e2eMs m) \<and>
     (tm_responseDerived m \<longrightarrow>
        (\<exists>u s r. tm_utterance m = Some u \<and> tm_speaking m = Some s \<and> tm_responseMs m = Some r \<and>
           \<bar>r - 1000 * (iv_start s - iv_end u)\<bar> \<le> 1 / 2))"

lemma gap_ms_near: "\<bar>gap_ms u s - 1000 * (iv_start s - iv_end u)\<bar> \<le> 1 / 2"
  using js_round_near [of "(iv_start s - iv_end u) * 1000"] by (simp add: gap_ms_def mult.commute)

lemma both_simps [simp]: "both None b = None" "both a None = None" "both (Some x) (Some y) = Some (x, y)"
  by (simp_all add: both_def split: option.splits)

lemma both_Some: "both a b = Some p \<longleftrightarrow> a = Some (fst p) \<and> b = Some (snd p)"
  by (cases a; cases b; cases p) auto

lemma response_okI:
  assumes "tm_responseMs m = or_else (tm_e2eMs m) d" "tm_responseDerived m \<longleftrightarrow> tm_e2eMs m = None \<and> d \<noteq> None"
    and "d = map_option (\<lambda>(u, s). gap_ms u s) (both (tm_utterance m) (tm_speaking m)) \<or> d = None"
  shows "response_ok m"
  using assms gap_ms_near unfolding response_ok_def
  by (cases "tm_utterance m"; cases "tm_speaking m"; cases "tm_e2eMs m") auto

lemma response_event_turn: "response_ok (event_turn ev caller thinking speaking raw i t)"
  by (rule response_okI [where d = "map_option (\<lambda>(u, s). gap_ms u s)
      (both (tm_utterance (event_turn ev caller thinking speaking raw i t))
        (tm_speaking (event_turn ev caller thinking speaking raw i t)))"])
    (simp_all add: event_turn_def Let_def)

lemma response_recording_turn: "response_ok (recording_turn cs as i t)"
  by (rule response_okI [where d = "map_option (\<lambda>(u, s). gap_ms u s)
      (both (tm_utterance (recording_turn cs as i t)) (tm_speaking (recording_turn cs as i t)))"])
    (simp_all add: recording_turn_def Let_def)

lemma span_turn_Some:
  assumes "span_turn c i = Some (sp, runs, th, m)"
  obtains a where "ts_root (turnSpans c i) = Some a" "placed a" "tm_i m = i"
    "tm_utterance m = span_hull runs" "tm_speaking m = span_hull sp" "tm_thinking m = Some th"
    "tm_responseMs m = or_else (tm_e2eMs m) (case both (span_hull runs) (span_hull sp) of
        Some (u, s) \<Rightarrow> if iv_start s \<ge> iv_end u then Some (gap_ms u s) else None | None \<Rightarrow> None)"
    "tm_responseDerived m \<longleftrightarrow> tm_e2eMs m = None \<and> (case both (span_hull runs) (span_hull sp) of
        Some (u, s) \<Rightarrow> if iv_start s \<ge> iv_end u then Some (gap_ms u s) else None | None \<Rightarrow> None) \<noteq> None"
    "runs = named_ivs ''user_speaking'' (ts_children (userTurnFor c (Some a)))"
    "sp = named_ivs ''agent_speaking'' (ts_children (turnSpans c i))"
proof -
  obtain a where a: "ts_root (turnSpans c i) = Some a" "placed a"
  proof (cases "ts_root (turnSpans c i)")
    case None
    with assms show thesis by (simp add: span_turn_def Let_def)
  next
    case (Some a)
    then show thesis using assms that by (cases "placed a") (simp_all add: span_turn_def Let_def)
  qed
  note e = assms [unfolded span_turn_def Let_def a(1) option.case, simplified a(2) not_True_eq_False if_False
      option.inject prod.inject]
  from e have r: "runs = named_ivs ''user_speaking'' (ts_children (userTurnFor c (Some a)))"
    and s: "sp = named_ivs ''agent_speaking'' (ts_children (turnSpans c i))" by blast+
  show thesis
    by (rule that [OF a _ _ _ _ _ _ r s]; insert e; elim conjE; hypsubst; simp)
qed

lemma response_span_turn: "span_turn c i = Some (sp, runs, th, m) \<Longrightarrow> response_ok m"
  by (erule span_turn_Some, rule response_okI, assumption, assumption)
    (auto split: option.splits)

lemma cm_turns_buildModel: "cm_turns (buildModel c) = cm_turns (base_of c)"
  by (simp add: buildModel_def Let_def)

lemma cm_source_buildModel: "cm_source (buildModel c) = model_source c"
  by (simp add: buildModel_def Let_def)

lemma span_turns: "m \<in> set (cm_turns (fromSpans c)) \<Longrightarrow> \<exists>i sp runs th. span_turn c i = Some (sp, runs, th, m)"
  by (clarsimp simp: fromSpans_def Let_def set_somes) (metis (no_types))

lemma event_turns: "m \<in> set (cm_turns (fromEvents c)) \<Longrightarrow>
    \<exists>ev caller thinking speaking raw i t. m = event_turn ev caller thinking speaking raw i t"
  by (clarsimp simp: fromEvents_def Let_def) blast

lemma recording_turns: "m \<in> set (cm_turns (fromRecording c r)) \<Longrightarrow> \<exists>cs as i t. m = recording_turn cs as i t"
  by (clarsimp simp: fromRecording_def Let_def) blast

lemmas turn_sources = span_turns event_turns recording_turns

text \<open>C3: whatever the source, a turn's response time is the reported end-to-end latency when there is
  one; otherwise it is marked derived and is, to half a millisecond, the time from the end of the
  caller's utterance to the start of the agent's speech; with neither it stays unknown.\<close>

theorem response_times: "list_all response_ok (cm_turns (buildModel c))"
proof -
  have "response_ok m" if "m \<in> set (cm_turns (base_of c))" for m
    using that turn_sources [of m] response_span_turn response_event_turn response_recording_turn
    by (cases "model_source c") (fastforce simp: base_of_def)+
  then show ?thesis by (simp add: list_all_iff cm_turns_buildModel)
qed

text \<open>from spans, a response time is never derived for a reply that started before the caller's
  utterance ended.\<close>

theorem span_response_nonneg:
  assumes "cm_source (buildModel c) = FromSpans" "m \<in> set (cm_turns (buildModel c))" "tm_responseDerived m"
  shows "\<exists>r. tm_responseMs m = Some r \<and> 0 \<le> r"
proof -
  from assms have "m \<in> set (cm_turns (fromSpans c))"
    by (simp add: cm_turns_buildModel cm_source_buildModel base_of_def)
  then obtain i sp runs th where "span_turn c i = Some (sp, runs, th, m)" using span_turns by blast
  then show ?thesis
  proof (rule span_turn_Some)
    fix a assume r: "tm_responseMs m = or_else (tm_e2eMs m) (case both (span_hull runs) (span_hull sp) of
        Some (u, s) \<Rightarrow> if iv_start s \<ge> iv_end u then Some (gap_ms u s) else None | None \<Rightarrow> None)"
      and d: "tm_responseDerived m \<longleftrightarrow> tm_e2eMs m = None \<and> (case both (span_hull runs) (span_hull sp) of
        Some (u, s) \<Rightarrow> if iv_start s \<ge> iv_end u then Some (gap_ms u s) else None | None \<Rightarrow> None) \<noteq> None"
    have "0 \<le> gap_ms u s" if "iv_end u \<le> iv_start s" for u s
      using that js_round_mono [of 0 "(iv_start s - iv_end u) * 1000"] js_round_of_int [of 0]
      by (simp add: gap_ms_def)
    with r d assms(3) show ?thesis by (auto split: option.splits if_splits)
  qed
qed

text \<open>A call from spans: a user turn with one caller run, then an agent turn with one speech span.\<close>

definition sample_spans :: "span list" where
  "sample_spans = [mk_span ''user_turn'' ''u1'' None (Some 1000) (Some 2000),
     mk_span ''user_speaking'' ''u2'' (Some ''u1'') (Some 1000) (Some 1500),
     mk_span ''agent_turn'' ''a1'' None (Some 3000) (Some 2000),
     mk_span ''agent_speaking'' ''a2'' (Some ''a1'') (Some 3500) (Some 1000)]"

definition sample_call :: call where
  "sample_call = blank_call\<lparr>c_spans := Some sample_spans\<rparr>"

lemma sample_source: "cm_source (buildModel sample_call) = FromSpans"
  by code_simp

lemma sample_derived: "map tm_responseDerived (cm_turns (buildModel sample_call)) = [True]"
  by code_simp

theorem span_response_nonneg_witness:
  "cm_source (buildModel sample_call) = FromSpans \<and>
   (\<exists>m r. cm_turns (buildModel sample_call) = [m] \<and> tm_responseMs m = Some r \<and> 0 \<le> r)"
proof -
  from sample_derived obtain m where m: "cm_turns (buildModel sample_call) = [m]" "tm_responseDerived m"
    by (metis (no_types) map_eq_Cons_conv map_is_Nil_conv)
  then have "m \<in> set (cm_turns (buildModel sample_call))" by simp
  from span_response_nonneg [OF sample_source this m(2)] m(1) sample_source show ?thesis by blast
qed

section \<open>Numbering of the turns\<close>

lemma map_tm_i_indexed:
  "(\<And>i t. tm_i (f i t) = i) \<Longrightarrow> map tm_i (map (\<lambda>(i, t). f i t) (indexed xs)) = [0..<length xs]"
  by (simp add: comp_def case_prod_unfold flip: map_fst_indexed)

lemma tm_i_event_turn [simp]: "tm_i (event_turn ev caller thinking speaking raw i t) = i"
  by (simp add: event_turn_def Let_def)

lemma tm_i_recording_turn [simp]: "tm_i (recording_turn cs as i t) = i"
  by (simp add: recording_turn_def Let_def)

lemma tm_i_span_turn: "span_turn c i = Some (sp, runs, th, m) \<Longrightarrow> tm_i m = i"
  by (erule span_turn_Some)

lemma somes_strict:
  "(\<And>i x. f i = Some x \<Longrightarrow> g x = i) \<Longrightarrow> sorted_wrt (<) is \<Longrightarrow> sorted_wrt (<) (map g (somes (map f is))) \<and>
     set (map g (somes (map f is))) \<subseteq> set (is :: nat list)"
proof (induction "is")
  case Nil
  then show ?case by simp
next
  case (Cons i "is")
  then show ?case by (cases "f i") auto
qed

lemma turn_indices:
  "cm_source (buildModel c) = FromEvents \<or> cm_source (buildModel c) = FromRecording \<Longrightarrow>
     map tm_i (cm_turns (buildModel c)) = [0..<length (list_or (c_turns c))]"
  by (auto simp: cm_turns_buildModel cm_source_buildModel base_of_def)
    (simp_all only: fromEvents_def fromRecording_def Let_def base_model.simps map_tm_i_indexed
      tm_i_event_turn tm_i_recording_turn)

text \<open>turns are numbered in order without repeats, by their position among the reported turns (events,
  recording) or among the agent turn spans; a number is never out of that range.\<close>

theorem turn_numbers:
  "sorted_wrt (<) (map tm_i (cm_turns (buildModel c))) \<and>
   (case cm_source (buildModel c) of
      NoSource \<Rightarrow> cm_turns (buildModel c) = []
    | FromSpans \<Rightarrow> set (map tm_i (cm_turns (buildModel c))) \<subseteq>
        {..<length (filter (\<lambda>x. sp_name x = ''agent_turn'') (list_or (c_spans c)))}
    | _ \<Rightarrow> map tm_i (cm_turns (buildModel c)) = [0..<length (list_or (c_turns c))])"
proof -
  have ev: "map tm_i (cm_turns (fromEvents c)) = [0..<length (list_or (c_turns c))]"
    by (simp only: fromEvents_def Let_def base_model.simps map_tm_i_indexed tm_i_event_turn)
  have re: "map tm_i (cm_turns (fromRecording c r)) = [0..<length (list_or (c_turns c))]" for r
    by (simp only: fromRecording_def Let_def base_model.simps map_tm_i_indexed tm_i_recording_turn)
  let ?n = "length (filter (\<lambda>x. sp_name x = ''agent_turn'') (list_or (c_spans c)))"
  have l: "length (orderedSpans (filter (\<lambda>x. sp_name x = ''agent_turn'') (list_or (c_spans c)))) = ?n"
    by (simp add: orderedSpans_def)
  have sp: "sorted_wrt (<) (map tm_i (cm_turns (fromSpans c))) \<and> set (map tm_i (cm_turns (fromSpans c))) \<subseteq> {..<?n}"
  proof -
    have i: "(\<lambda>(_, _, _, t). tm_i t) x = i" if "span_turn c i = Some x" for i x
      using that tm_i_span_turn by (cases x) auto
    from somes_strict [of "span_turn c" "\<lambda>(_, _, _, t). tm_i t" "[0..<?n]", OF i]
    show ?thesis by (auto simp: fromSpans_def Let_def l comp_def case_prod_unfold)
  qed
  show ?thesis
    using ev re sp
    by (cases "model_source c") (auto simp: cm_turns_buildModel cm_source_buildModel base_of_def)
qed

section \<open>Interruptions\<close>

lemma infer_cut_keeps: "set moments \<subseteq> set (infer_cut caller moments t)"
  by (auto simp: infer_cut_def split: option.splits)

lemma foldl_infer_keeps: "set moments \<subseteq> set (foldl (infer_cut caller) moments ts)"
  by (induction ts arbitrary: moments) (use infer_cut_keeps in fastforce)+

definition covered :: "iv list \<Rightarrow> moment list \<Rightarrow> turn_model \<Rightarrow> bool" where
  "covered caller moments t \<longleftrightarrow>
     (\<forall>sp. tm_speaking t = Some sp \<and> tm_interrupted t \<and>
        (\<exists>s \<in> set caller. iv_start s > iv_start sp \<and> iv_start s < iv_end sp) \<longrightarrow>
        (\<exists>m \<in> set moments. interruption_in sp m))"

lemma infer_cut_covers: "covered caller (infer_cut caller moments t) t"
proof -
  { fix sp s assume a: "tm_speaking t = Some sp" "tm_interrupted t" "s \<in> set caller"
      "iv_start s > iv_start sp" "iv_start s < iv_end sp"
    have "\<exists>m \<in> set (infer_cut caller moments t). interruption_in sp m"
    proof (cases "list_ex (interruption_in sp) moments")
      case True
      then show ?thesis using infer_cut_keeps [of moments caller t] by (auto simp: list_ex_iff)
    next
      case False
      from a(3-5) obtain r where r: "find (\<lambda>s. iv_start s > iv_start sp \<and> iv_start s < iv_end sp) caller = Some r"
        by (cases "find (\<lambda>s. iv_start s > iv_start sp \<and> iv_start s < iv_end sp) caller")
          (auto simp: find_None_iff)
      with find_Some_in [OF r] False a(1,2) show ?thesis by (auto simp: infer_cut_def)
    qed }
  then show ?thesis unfolding covered_def by blast
qed

lemma covered_mono: "covered caller ms t \<Longrightarrow> set ms \<subseteq> set ms' \<Longrightarrow> covered caller ms' t"
  unfolding covered_def by blast

lemma foldl_infer_covers: "t \<in> set ts \<Longrightarrow> covered caller (foldl (infer_cut caller) moments ts) t"
proof (induction ts arbitrary: moments)
  case Nil
  then show ?case by simp
next
  case (Cons u ts)
  show ?case
  proof (cases "t = u")
    case True
    then show ?thesis using covered_mono [OF infer_cut_covers foldl_infer_keeps] by simp
  next
    case False
    with Cons show ?thesis by simp
  qed
qed

lemma cm_moments_events:
  "model_source c = FromEvents \<Longrightarrow> set (cm_moments (fromEvents c)) \<subseteq> set (cm_moments (buildModel c))"
  by (auto simp: buildModel_def Let_def base_of_def)

text \<open>C4: with session events, every reply flagged interrupted during which the caller began to speak has
  an interruption moment inside it, reported or inferred.\<close>

theorem interruptions_covered:
  assumes "cm_source (buildModel c) = FromEvents" "t \<in> set (cm_turns (buildModel c))"
    and "tm_interrupted t" "tm_speaking t = Some sp"
    and "s \<in> set (cm_caller (buildModel c))" "iv_start sp < iv_start s" "iv_start s < iv_end sp"
  shows "\<exists>m \<in> set (cm_moments (buildModel c)). interruption_in sp m"
proof -
  from assms(1) have src: "model_source c = FromEvents" by (simp add: cm_source_buildModel)
  then have t: "t \<in> set (cm_turns (fromEvents c))" and s: "s \<in> set (cm_caller (fromEvents c))"
    using assms(2,5) by (simp_all add: cm_turns_buildModel base_of_def buildModel_def Let_def)
  have "covered (cm_caller (fromEvents c)) (cm_moments (fromEvents c)) t"
    using t by (simp add: fromEvents_def Let_def foldl_infer_covers del: set_map)
  with s assms(3,4,6,7) have "\<exists>m \<in> set (cm_moments (fromEvents c)). interruption_in sp m"
    unfolding covered_def by blast
  with cm_moments_events [OF src] show ?thesis by blast
qed

text \<open>A call from session events: the caller speaks over the agent's reply.\<close>

definition sample_events :: call where
  "sample_events = blank_call\<lparr>c_events := Some
     [StateEv (Some 1) AgentState ''thinking'' ''speaking'' ''s'', StateEv (Some 2) UserState ''listening'' ''speaking'' ''s'',
      StateEv (Some 3) AgentState ''speaking'' ''listening'' ''s'', StateEv (Some 4) UserState ''speaking'' ''listening'' ''s''],
     c_turns := Some [blank_turn\<lparr>agentText := Some ''hi'', interrupted := Some True\<rparr>]\<rparr>"

lemma sample_events_facts:
  "cm_source (buildModel sample_events) = FromEvents"
  "map tm_interrupted (cm_turns (buildModel sample_events)) = [True]"
  "map tm_speaking (cm_turns (buildModel sample_events)) = [Some (Iv 1 3)]"
  "cm_caller (buildModel sample_events) = [Iv 2 4]"
  by code_simp+

theorem interruptions_covered_witness:
  "cm_source (buildModel sample_events) = FromEvents \<and>
   (\<exists>m \<in> set (cm_moments (buildModel sample_events)). interruption_in (Iv 1 3) m)"
proof -
  from sample_events_facts(2,3) obtain t where t: "cm_turns (buildModel sample_events) = [t]"
    "tm_interrupted t" "tm_speaking t = Some (Iv 1 3)"
    by (cases "cm_turns (buildModel sample_events)") auto
  then show ?thesis
    using interruptions_covered [OF sample_events_facts(1) _ t(2,3), of "Iv 2 4"] sample_events_facts(1,4)
    by simp
qed

section \<open>Counts and lengths\<close>

text \<open>A turn count of zero is only claimed for a session that reported an empty list of turns and has
  no agent turn span; otherwise the count is the number of turns shown, or unknown.\<close>

lemma turnCount_honest:
  "(turnCount c (buildModel c) = Some 0 \<longleftrightarrow>
      cm_turns (buildModel c) = [] \<and> c_turns c = Some [] \<and>
      list_all (\<lambda>s. sp_name s \<noteq> ''agent_turn'') (list_or (c_spans c))) \<and>
   (\<forall>n. turnCount c (buildModel c) = Some (Suc n) \<longleftrightarrow> length (cm_turns (buildModel c)) = Suc n)"
  by (auto simp: turnCount_def list_ex_iff list_all_iff)

lemma fold_max_ge: "(a :: 'a :: linorder) \<le> fold max xs a \<and> (\<forall>x \<in> set xs. x \<le> fold max xs a)"
  by (induction xs arbitrary: a) (auto, (meson max.bounded_iff order.trans)+)

end
