(* ===== verification/CallSteps.thy ===== *)
theory CallSteps
  imports CallModel JsJson
begin

text \<open>
  \<open>features/call/call-steps.ts\<close>: what happened inside one turn, step by step (\<open>stepsFor\<close>, one
  definition per kind of step, in the order the code adds them), the findings for the whole call
  (\<open>findingsFor\<close>, one definition per finding) and \<open>evidenceCheck\<close>. The thresholds the pages share
  (\<open>lib/thresholds.ts\<close>) are an argument.
\<close>

section \<open>Thresholds\<close>

record thresholds =
  answerMs :: num
  joinMs :: num
  ttsStartMs :: num

definition default_thresholds :: thresholds where
  "default_thresholds = \<lparr>answerMs = 1500, joinMs = 2000, ttsStartMs = 1000\<rparr>"

text \<open>The live bindings \<open>BUDGET_MS\<close>, \<open>JOIN_MS\<close>, \<open>TTS_START_MS\<close> after \<open>applyThresholds\<close>.\<close>

definition applyThresholds :: "thresholds \<Rightarrow> thresholds \<Rightarrow> thresholds" where
  "applyThresholds t live = \<lparr>answerMs = answerMs t, joinMs = joinMs t, ttsStartMs = ttsStartMs t\<rparr>"

section \<open>Values on screen\<close>

datatype status = StOk | StWarn | StError | StInfo
datatype step_kind = KCaller | KEot | KLlm | KTool | KSpeech | KOverlap

record row =
  r_label :: string
  r_value :: "string option"
  r_why :: "string option"
  r_mono :: bool

record step =
  st_id :: string
  st_kind :: step_kind
  st_title :: string
  st_at :: "num option"
  st_status :: status
  st_summary :: string
  st_input :: "row list"
  st_output :: "row list"
  st_details :: "row list"

definition Row :: "string \<Rightarrow> string option \<Rightarrow> string \<Rightarrow> row" where
  "Row l v w = \<lparr>r_label = l, r_value = v, r_why = Some w, r_mono = False\<rparr>"

definition RowMono :: "string \<Rightarrow> string option \<Rightarrow> string \<Rightarrow> row" where
  "RowMono l v w = \<lparr>r_label = l, r_value = v, r_why = Some w, r_mono = True\<rparr>"

definition RowPlain :: "string \<Rightarrow> string option \<Rightarrow> row" where
  "RowPlain l v = \<lparr>r_label = l, r_value = v, r_why = None, r_mono = False\<rparr>"

text \<open>A number that may be \<open>NaN\<close> or infinite, scaled, fixed and formatted.\<close>

fun js_times :: "jsnum \<Rightarrow> num \<Rightarrow> jsnum" where
  "js_times (Num x) k = Num (x * k)"
| "js_times PosInf k = (if k > 0 then PosInf else if k < 0 then NegInf else NaN)"
| "js_times NegInf k = (if k > 0 then NegInf else if k < 0 then PosInf else NaN)"
| "js_times NaN k = NaN"

fun js_fixed :: "nat \<Rightarrow> jsnum \<Rightarrow> string" where
  "js_fixed d (Num x) = to_fixed d x"
| "js_fixed d NaN = ''NaN''"
| "js_fixed d PosInf = ''Infinity''"
| "js_fixed d NegInf = ''-Infinity''"

fun js_fmtMs :: "jsnum \<Rightarrow> string" where
  "js_fmtMs (Num x) = fmtMs x"
| "js_fmtMs NaN = ''NaN ms''"
| "js_fmtMs PosInf = ''Infinity s''"
| "js_fmtMs NegInf = ''<0.1 ms''"

fun js_less :: "jsnum \<Rightarrow> num \<Rightarrow> bool" where
  "js_less (Num x) y = (x < y)"
| "js_less NegInf y = True"
| "js_less _ y = False"

fun js_greater :: "jsnum \<Rightarrow> num \<Rightarrow> bool" where
  "js_greater (Num x) y = (x > y)"
| "js_greater PosInf y = True"
| "js_greater _ y = False"

text \<open>\<open>Math.max(...xs)\<close>: any \<open>NaN\<close> makes it \<open>NaN\<close>; of nothing it is \<open>-Infinity\<close>.\<close>

fun js_max2 :: "jsnum \<Rightarrow> jsnum \<Rightarrow> jsnum" where
  "js_max2 NaN y = NaN"
| "js_max2 x NaN = NaN"
| "js_max2 PosInf y = PosInf"
| "js_max2 x PosInf = PosInf"
| "js_max2 NegInf y = y"
| "js_max2 x NegInf = x"
| "js_max2 (Num x) (Num y) = Num (max x y)"

definition js_max :: "jsnum list \<Rightarrow> jsnum" where
  "js_max xs = foldr js_max2 xs NegInf"

text \<open>\<open>null\<close> in a template literal, and the truth of a nullable string.\<close>

definition tmpl :: "string option \<Rightarrow> string" where
  "tmpl v = or_val v ''null''"

definition nonempty :: "string option \<Rightarrow> string option" where
  "nonempty v = (if v = Some [] then None else v)"

definition nl :: string where
  "nl = [CHR 0x0A]"

definition quoted :: "string \<Rightarrow> string" where
  "quoted s = [quote] @ s @ [quote]"

definition dot_sep :: "string \<Rightarrow> string \<Rightarrow> string" where
  "dot_sep a b = a @ '' '' @ middot @ '' '' @ b"

definition spanSec :: "span \<Rightarrow> num option" where
  "spanSec s = map_option (\<lambda>x. x / 1000) (startMs s)"

fun sec :: "string option \<Rightarrow> string option" where
  "sec None = None"
| "sec (Some v) =
     (case js_number v of
        Num x \<Rightarrow> if x < 0 then None else Some (fmtMs (x * 1000))
      | _ \<Rightarrow> None)"

section \<open>Messages\<close>

definition part_text :: "json \<Rightarrow> string option" where
  "part_text p =
     map_option (\<lambda>ty.
       (let get = (\<lambda>k. or_val (prop_of p k) None) in
        if ty = Some (JStr ''text'') then joined (get ''content'')
        else if ty = Some (JStr ''tool_call'') then
          ''calls '' @ template (get ''name'') @ ''('' @
            (case get ''arguments'' of
               Some (JStr s) \<Rightarrow> s
             | Some v \<Rightarrow> json_str v
             | None \<Rightarrow> ''undefined'') @ '')''
        else if ty = Some (JStr ''tool_call_response'') then
          ''tool result '' @
            json_str (if \<not> nullish (get ''response'') then the (get ''response'')
              else if \<not> nullish (get ''result'') then the (get ''result'') else JStr [])
        else ''['' @ template ty @ '']''))
     (prop_of p ''type'')"

definition message_line :: "json \<Rightarrow> string option" where
  "message_line m =
     Option.bind (prop_of m ''parts'') (\<lambda>parts.
       map_option (\<lambda>body.
           (let rl = or_val (prop_of m ''role'') None
            in (if nullish rl then ''?'' else template rl) @ '': '' @ join '' '' body))
         (if nullish parts then Some []
          else (case parts of Some (JArr ps) \<Rightarrow> map_try part_text ps | _ \<Rightarrow> None)))"

text \<open>\<open>None\<close> inside the \<open>try\<close> is a thrown error; then the text is shown as it came.\<close>

definition messages :: "string option \<Rightarrow> string option" where
  "messages j =
     Option.bind (nonempty j) (\<lambda>text.
       Some (case json_parse text of
               Some (JArr ms) \<Rightarrow> (case map_try message_line ms of Some ls \<Rightarrow> join nl ls | None \<Rightarrow> text)
             | _ \<Rightarrow> text))"

definition instructions :: "string option \<Rightarrow> string option" where
  "instructions j =
     Option.bind (nonempty j) (\<lambda>text.
       Some (case json_parse text of
               Some (JArr ps) \<Rightarrow>
                 (case map_try (\<lambda>p. map_option joined (prop_of p ''content'')) ps of
                    Some ls \<Rightarrow> join nl ls | None \<Rightarrow> text)
             | _ \<Rightarrow> text))"

section \<open>The steps of a turn\<close>

definition caller_step :: "call \<Rightarrow> turn_model \<Rightarrow> span option \<Rightarrow> string \<Rightarrow> step" where
  "caller_step c t ut txt =
     (let conf = attr ut ''lk.transcript_confidence'';
          lowConf = (case conf of Some v \<Rightarrow> js_less (js_number v) (4 / 5) | None \<Rightarrow> False)
      in \<lparr>st_id = ''caller'', st_kind = KCaller, st_title = ''Caller turn'',
          st_at = or_else (map_option iv_start (tm_utterance t))
            (case ut of Some s \<Rightarrow> spanSec s | None \<Rightarrow> Some (iv_start (tm_window t))),
          st_status = (if lowConf then StWarn else StOk),
          st_summary = quoted txt @ (case conf of
              Some v \<Rightarrow> '' '' @ middot @ '' confidence '' @ js_fixed 2 (js_number v) | None \<Rightarrow> []),
          st_input = [Row ''Speech (VAD)'' (map_option (\<lambda>u. fmtSec (iv_end u - iv_start u)) (tm_utterance t))
            ''No VAD events for this call''],
          st_output = [RowPlain ''Final transcript'' (or_else (attr ut ''lk.pii.user_transcript'') (Some txt)),
            Row ''Transcript confidence'' (map_option (\<lambda>v. js_fixed 3 (js_number v)) conf)
              ''Sent on the user_turn span (lk.transcript_confidence); not in this capture''],
          st_details = [
            Row ''Speech to text'' (map_option (\<lambda>m. dot_sep (tmpl (attr ut ''gen_ai.provider.name'')) m)
              (nonempty (attr ut ''gen_ai.request.model''))) ''Not in this capture'',
            Row ''Transcript arrived after speech ended''
              (case Option.bind (nth_opt (list_or (c_turns c)) (tm_i t)) transcriptionDelayMs of
                 Some d \<Rightarrow> Some (fmtMs d) | None \<Rightarrow> sec (attr ut ''lk.transcription_delay''))
              ''Not reported'',
            RowMono ''Provider request id'' (attr ut ''lk.provider_request_ids'') ''Not in this capture'']\<rparr>)"

definition eot_step :: "turn_model \<Rightarrow> span option \<Rightarrow> span option \<Rightarrow> step" where
  "eot_step t eouWait eouDet =
     (let p = or_else (numericAttr eouDet ''lk.eou.probability'' None) (Option.bind (tm_eot t) eot_probability);
          th = or_else (numericAttr eouDet ''lk.eou.unlikely_threshold'' None) (Option.bind (tm_eot t) eot_threshold);
          unsure = (case both p th of Some (a, b) \<Rightarrow> a < b | None \<Rightarrow> False);
          long = or_val (tm_eotMs t) 0 \<ge> 1500;
          outcome = attr eouWait ''lk.eou.outcome''
      in \<lparr>st_id = ''eot'', st_kind = KEot, st_title = ''End of turn'',
          st_at = (case eouWait of
              Some s \<Rightarrow> spanSec s
            | None \<Rightarrow> or_else (map_option eot_t (tm_eot t)) (map_option iv_end (tm_utterance t))),
          st_status = (if unsure \<and> long \<or> (outcome \<noteq> None \<and> outcome \<noteq> Some ''committed'') then StWarn else StOk),
          st_summary =
            (case both p th of
               Some (a, b) \<Rightarrow> ''Detector '' @ to_fixed 2 a @ (if unsure then '' below'' else '' at or above'') @
                 '' its '' @ to_fixed 3 b @ '' threshold''
             | None \<Rightarrow> ''Turn ended'') @
            (case tm_eotMs t of Some v \<Rightarrow> '', agent waited '' @ fmtMs v | None \<Rightarrow> []) @
            (case nonempty outcome of Some v \<Rightarrow> '' '' @ middot @ '' '' @ v | None \<Rightarrow> []),
          st_input = [Row ''Caller stopped speaking''
            (map_option (\<lambda>u. to_fixed 2 (iv_end u) @ '' s'') (tm_utterance t)) ''No VAD events''],
          st_output = [
            Row ''Detector probability'' (map_option (to_fixed 3) p) ''No end-of-turn detection'',
            Row ''Threshold'' (map_option (to_fixed 3) th) ''No end-of-turn detection'',
            Row ''Outcome'' outcome ''On the eou_wait span (lk.eou.outcome); not in this capture''],
          st_details = [
            Row ''End-of-turn delay'' (map_option fmtMs (tm_eotMs t)) ''Not reported'',
            Row ''Endpointing delay setting''
              (sec (or_else (attr eouWait ''lk.eou.endpointing_delay'') (attr eouDet ''lk.eou.endpointing_delay'')))
              ''Not in this capture'',
            Row ''Decided by'' (attr eouWait ''lk.eou.source'') ''Not in this capture'',
            Row ''Caller resumed after a false end'' (attr eouWait ''lk.eou.rearm_count'') ''Not in this capture'']\<rparr>)"

definition overlap_row :: "string \<Rightarrow> step_kind \<Rightarrow> string \<Rightarrow> num \<Rightarrow> status \<Rightarrow> string \<Rightarrow> string \<Rightarrow> num option \<Rightarrow> step" where
  "overlap_row i k title start st summary kind detection =
     \<lparr>st_id = i, st_kind = k, st_title = title, st_at = Some start, st_status = st, st_summary = summary,
      st_input = [RowPlain ''Overlap started'' (Some (to_fixed 2 start @ '' s''))],
      st_output = [RowPlain ''Classified as'' (Some kind)],
      st_details = [Row ''Detection delay'' (map_option fmtMs detection) ''Not reported'']\<rparr>"

definition overlap_step :: "turn_model \<Rightarrow> moment \<Rightarrow> step option" where
  "overlap_step t m =
     (let inside = (\<lambda>p. iv_start p \<ge> iv_start (tm_window t) \<and> iv_start p \<le> iv_end (tm_window t) \<and>
            (case tm_speaking t of Some sp \<Rightarrow> iv_start p \<ge> iv_start sp | None \<Rightarrow> False))
      in case m of
           Interruption p inferred d \<Rightarrow>
             if inside p then Some (overlap_row (''ov'' @ num_str (iv_start p)) KOverlap ''Caller interrupted''
               (iv_start p) StError
               (''Agent stopped '' @ (case d of Some v \<Rightarrow> fmtMs v @ '' '' | None \<Rightarrow> []) @
                ''after the caller started talking'' @
                (if inferred then '' (inferred from the reply's interrupted flag)'' else []))
               ''interruption'' d) else None
         | Backchannel p d \<Rightarrow>
             if inside p then Some (overlap_row (''ov'' @ num_str (iv_start p)) KOverlap ''Backchannel''
               (iv_start p) StInfo
               (''Caller spoke over the agent; classified as a backchannel'' @
                (case d of Some v \<Rightarrow> '' in '' @ fmtMs v | None \<Rightarrow> []))
               ''backchannel'' d) else None
         | _ \<Rightarrow> None)"

definition llm_step :: "span list \<Rightarrow> nat \<Rightarrow> nat \<Rightarrow> span \<Rightarrow> step" where
  "llm_step children n_nodes k n =
     (let req = find (\<lambda>s. parentId s = Some (spanId n) \<and> sp_name s = ''llm_request'') children;
          run = find (\<lambda>s. (case req of Some q \<Rightarrow> parentId s = Some (spanId q) \<and> sp_name s = ''llm_request_run''
                          | None \<Rightarrow> False)) children;
          finish = attr req ''gen_ai.response.finish_reasons'';
          failed = (case finish of Some f \<Rightarrow> has_sub f ''error'' | None \<Rightarrow> False);
          toolCall = (case finish of Some f \<Rightarrow> has_sub f ''tool_call'' | None \<Rightarrow> False);
          tokIn = attr req ''gen_ai.usage.input_tokens'';
          tokOut = attr req ''gen_ai.usage.output_tokens'';
          ttft = or_else (attr req ''gen_ai.response.time_to_first_chunk'') (attr (Some n) ''lk.response.ttft'')
      in \<lparr>st_id = ''llm'' @ nat_str k, st_kind = KLlm,
          st_title = ''Model call'' @ (if n_nodes > 1 then '' '' @ nat_str (k + 1) else []) @
            (if failed then '' '' @ middot @ '' error'' else if toolCall then '' '' @ middot @ '' tool call'' else []),
          st_at = spanSec n, st_status = (if failed then StWarn else StOk),
          st_summary =
            (if failed
             then ''Ended with finish reason '' @ quoted ''error'' @
               (case durationMs n of Some d \<Rightarrow> '' after '' @ fmtMs d | None \<Rightarrow> []) @
               '': the source does not identify why it ended, '' @ or_val tokIn ''unknown'' @ '' tokens reported''
             else or_val (attr (Some n) ''gen_ai.request.model'') ''model'' @ '' '' @
               (if toolCall then ''asked for a tool'' else ''answered'') @
               (case durationMs n of Some d \<Rightarrow> '' in '' @ fmtMs d | None \<Rightarrow> []) @ '', first token '' @
               (if ttft \<noteq> None then tmpl (sec ttft) else ''unknown'') @
               (case tokIn of Some ti \<Rightarrow> '', '' @ ti @ '' in / '' @ tmpl tokOut @ '' out tokens'' | None \<Rightarrow> [])),
          st_input = [
            Row ''System instructions'' (instructions (attr req ''gen_ai.system_instructions'')) ''Not sent'',
            RowMono ''Messages sent'' (or_else (or_else (messages (attr req ''gen_ai.input.messages''))
              (attr (Some n) ''lk.chat_ctx'')) (attr (Some n) ''lk.pii.chat_ctx'')) ''Not sent'',
            RowMono ''Tools offered'' (attr (Some n) ''lk.function_tools'') ''Not sent''],
          st_output = [
            Row ''Reply'' (or_else (or_else (messages (attr req ''gen_ai.output.messages''))
              (attr (Some n) ''lk.response.text'')) (attr (Some n) ''lk.pii.response.text'')) ''Not sent'',
            Row ''Finish reason'' finish ''Not sent''],
          st_details = [
            RowPlain (dot_sep ''Provider'' ''model'') (Some (dot_sep
              (or_val (attr (Some n) ''gen_ai.provider.name'') ''?'')
              (or_val (or_else (attr req ''gen_ai.response.model'') (attr (Some n) ''gen_ai.request.model'')) ''?''))),
            Row ''Tokens in / out'' (map_option (\<lambda>ti. ti @ '' / '' @ tmpl tokOut) tokIn) ''Not sent'',
            Row ''Retries'' (attr run ''lk.retry_count'') ''Not sent'',
            RowMono ''Response id'' (or_else (attr req ''gen_ai.response.id'') (attr run ''lk.provider_request_ids''))
              ''Not sent'']\<rparr>)"

definition plain_llm_step :: "call \<Rightarrow> call_model \<Rightarrow> turn_model \<Rightarrow> string \<Rightarrow> step" where
  "plain_llm_step c model t reply =
     (let noPrompt = (if cm_source model = FromEvents \<and> list_or (c_spans c) = []
            then ''LiveKit's session events carry no prompt; it arrives with the OTLP spans of the observability upload (decision 0014).''
            else ''Not in this call's data.'')
      in \<lparr>st_id = ''llm'', st_kind = KLlm, st_title = ''Model call'',
          st_at = or_else (map_option iv_start (tm_thinking t))
            (map_option (\<lambda>s. iv_start s - 1 / 1000) (tm_speaking t)),
          st_status = StOk,
          st_summary = (case tm_ttftMs t of
              Some v \<Rightarrow> ''First token in '' @ fmtMs v
            | None \<Rightarrow> ''Reply produced; no timing for this model''),
          st_input = [Row ''Prompt and context'' None noPrompt],
          st_output = [RowPlain ''Reply'' (Some reply)],
          st_details = [
            Row ''First token'' (map_option fmtMs (tm_ttftMs t))
              (if cm_pipeline model = Realtime then ''Realtime models report no per-message timings'' else ''Not reported''),
            Row ''Model'' (nth_opt (cm_models model) 0) ''Not reported'']\<rparr>)"

definition tool_step :: "span \<Rightarrow> step" where
  "tool_step s =
     (let err = lower (or_val (attr (Some s) ''lk.function_tool.is_error'') []) = ''true'';
          out = or_else (attr (Some s) ''lk.pii.function_tool.output'') (attr (Some s) ''lk.function_tool.output'')
      in \<lparr>st_id = spanId s, st_kind = KTool,
          st_title = dot_sep ''Tool'' (or_val (attr (Some s) ''lk.function_tool.name'') ''unknown''),
          st_at = spanSec s, st_status = (if err then StError else StOk),
          st_summary = (if err then ''Failed'' else ''Returned'') @
            (case durationMs s of Some d \<Rightarrow> '' in '' @ fmtMs d | None \<Rightarrow> []) @ '': '' @ or_val out ''no result sent'',
          st_input = [
            RowMono ''Arguments'' (or_else (or_else (attr (Some s) ''lk.pii.function_tool.arguments'')
              (attr (Some s) ''lk.function_tool.arguments'')) (attr (Some s) ''gen_ai.tool.call.arguments'')) ''Not sent'',
            Row ''Tool description'' (attr (Some s) ''gen_ai.tool.description'') ''Not sent''],
          st_output = [RowMono ''Result'' (or_else out (attr (Some s) ''gen_ai.tool.call.result'')) ''Not sent''],
          st_details = [RowMono ''Call id'' (attr (Some s) ''lk.function_tool.id'') ''Not sent'']\<rparr>)"

definition speech_step :: "thresholds \<Rightarrow> call_model \<Rightarrow> turn_model \<Rightarrow> span option \<Rightarrow> span list \<Rightarrow> step" where
  "speech_step live model t rt children =
     (let ttsNode = find (\<lambda>x. sp_name x = ''tts_node'') children;
          ttsReqs = filter (\<lambda>x. sp_name x = ''tts_request'') children;
          ttfb = attr ttsNode ''lk.response.ttfb'';
          tts = (case ttfb of Some v \<Rightarrow> Some (js_times (js_number v) 1000) | None \<Rightarrow> map_option Num (tm_ttsMs t));
          playout = nonempty (attr rt ''lk.playout.position'');
          cut = (tm_interrupted t \<or> attr rt ''lk.interrupted'' = Some ''true'')
      in \<lparr>st_id = ''speech'', st_kind = KSpeech,
          st_title = (if tm_speaking t \<noteq> None then ''Agent spoke'' else ''Agent reply''),
          st_at = or_else (map_option iv_start (tm_speaking t)) (Option.bind ttsNode spanSec),
          st_status = (if cut then StError
            else if js_greater (or_val tts (Num 0)) (ttsStartMs live) then StWarn else StOk),
          st_summary =
            (if cut then ''Cut off by the caller'' @
               (if playout \<noteq> None then '' after '' @ tmpl (sec playout) @ '' of audio'' else [])
             else (case tm_speaking t of
                     Some sp \<Rightarrow> ''Spoke for '' @ fmtSec (iv_end sp - iv_start sp)
                   | None \<Rightarrow> ''Reply generated; playback not observed'') @
               (case tts of Some v \<Rightarrow> '', first audio after '' @ js_fmtMs v | None \<Rightarrow> [])),
          st_input = [Row ''Text to speak''
            (if ttsReqs \<noteq> []
             then Some (join nl (somes (map (\<lambda>r. nonempty (attr (Some r) ''lk.pii.input_text'')) ttsReqs)))
             else tm_agentText t) ''Not sent''],
          st_output = [Row ''Heard by the caller''
            (if cut then (if playout \<noteq> None then Some (tmpl (sec playout) @ '' of audio played, then cut off'') else None)
             else tm_agentText t)
            (if cut then ''Cut off: the played position (lk.playout.position) is on the agent_turn span, not in this capture''
             else ''Not sent'')],
          st_details = [
            Row ''Text to speech'' (map_option (\<lambda>m. dot_sep (tmpl (attr ttsNode ''gen_ai.provider.name'')) m)
              (nonempty (attr ttsNode ''gen_ai.request.model'')))
              (if cm_pipeline model = Realtime then ''A realtime model has no separate TTS'' else ''Not in this capture''),
            Row ''TTS first audio'' (map_option js_fmtMs tts)
              (if cm_pipeline model = Realtime then ''A realtime model has no separate TTS'' else ''Not reported''),
            Row ''TTS requests'' (if ttsReqs \<noteq> [] then Some (nat_str (length ttsReqs)) else None) ''Not in this capture'',
            RowPlain ''Interrupted'' (Some (if cut then ''yes'' else ''no''))]\<rparr>)"

definition step_before :: "step \<Rightarrow> step \<Rightarrow> bool" where
  "step_before a b =
     (case (st_at a, st_at b) of
        (Some x, Some y) \<Rightarrow> x < y
      | (Some _, None) \<Rightarrow> True
      | _ \<Rightarrow> False)"

text \<open>The steps in the order they are added.\<close>

definition raw_steps :: "thresholds \<Rightarrow> call \<Rightarrow> call_model \<Rightarrow> turn_model \<Rightarrow> step list" where
  "raw_steps live c model t =
     (let ts = turnSpans c (tm_i t);
          rt = ts_root ts;
          children = ts_children ts;
          ut = userTurnFor c rt;
          eouWait = find (\<lambda>s. sp_name s = ''eou_wait'') (ts_children ut);
          eouDet = find (\<lambda>s. sp_name s = ''eou_detection'') (ts_children ut);
          llmNodes = filter (\<lambda>s. sp_name s = ''llm_node'') children
      in (case tm_userText t of Some txt \<Rightarrow> [caller_step c t (ts_root ut) txt] | None \<Rightarrow> []) @
         (if tm_eot t \<noteq> None \<or> tm_eotMs t \<noteq> None \<or> eouDet \<noteq> None then [eot_step t eouWait eouDet] else []) @
         somes (map (overlap_step t) (cm_moments model)) @
         (if llmNodes \<noteq> [] then map (\<lambda>(k, n). llm_step children (length llmNodes) k n) (indexed llmNodes)
          else (case tm_agentText t of Some r \<Rightarrow> [plain_llm_step c model t r] | None \<Rightarrow> [])) @
         map tool_step (filter (\<lambda>x. sp_name x = ''function_tool'') children) @
         (if tm_speaking t \<noteq> None \<or> tm_agentText t \<noteq> None then [speech_step live model t rt children] else []))"

definition stepsFor :: "thresholds \<Rightarrow> call \<Rightarrow> call_model \<Rightarrow> turn_model \<Rightarrow> step list" where
  "stepsFor live c model t = sort_by step_before (raw_steps live c model t)"

section \<open>Findings for the whole call\<close>

datatype severity = High | Medium | InfoSev

record finding =
  fg_id :: string
  fg_severity :: severity
  fg_title :: string
  fg_detail :: string
  fg_turns :: "nat list"

definition numbers :: "nat list \<Rightarrow> string" where
  "numbers is = join '', '' (map (\<lambda>i. nat_str (i + 1)) is)"

definition count_str :: "'a list \<Rightarrow> string" where
  "count_str xs = nat_str (length xs)"

text \<open>\<open>text.split(/\s+/).length\<close>\<close>

fun ws_runs :: "bool \<Rightarrow> string \<Rightarrow> nat" where
  "ws_runs inside [] = 0"
| "ws_runs inside (c # s) =
     (if is_ws c then (if inside then 0 else 1) + ws_runs True s else ws_runs False s)"

definition ws_pieces :: "string \<Rightarrow> nat" where
  "ws_pieces s = 1 + ws_runs False s"

text \<open>The detector's scores of a turn below its threshold.\<close>

definition below_threshold :: "turn_model \<Rightarrow> (num \<times> num) option" where
  "below_threshold t =
     Option.bind (tm_eot t) (\<lambda>e. Option.bind (both (eot_probability e) (eot_threshold e)) (\<lambda>(p, th).
       if p < th then Some (p, th) else None))"

definition eot_finding :: "call_model \<Rightarrow> finding list" where
  "eot_finding model =
     (let waits = filter (\<lambda>t. below_threshold t \<noteq> None \<and> or_val (tm_eotMs t) 0 \<ge> 1500) (cm_turns model);
          avg = sum_list (map (\<lambda>t. or_val (tm_eotMs t) 0) waits) / of_nat (length waits)
      in if waits = [] then []
         else [\<lparr>fg_id = ''eot'', fg_severity = High,
           fg_title = ''The agent waited '' @ fmtMs avg @ '' for the end of the turn on '' @ count_str waits @ '' of '' @
             count_str (filter (\<lambda>t. tm_userText t \<noteq> None) (cm_turns model)) @ '' turns'',
           fg_detail = ''Reported end-of-turn delay averaged '' @ fmtMs avg @
             ''. Detector scores were below their reported thresholds ('' @
             join '', '' (map (\<lambda>(p, th). to_fixed 2 p @ '' < '' @ to_fixed 2 th) (somes (map below_threshold waits))) @
             ''). These measurements do not establish which endpointing setting caused the delay.'',
           fg_turns = map tm_i waits\<rparr>])"

definition cut_finding :: "call_model \<Rightarrow> finding list" where
  "cut_finding model =
     (let cut = filter tm_interrupted (cm_turns model)
      in if cut = [] then []
         else [\<lparr>fg_id = ''cut'', fg_severity = High,
           fg_title = count_str cut @ '' of '' @ count_str (cm_turns model) @ '' replies were cut off by the caller'',
           fg_detail = ''The caller talked over '' @ (if length cut = 1 then ''turn'' else ''turns'') @ '' '' @
             numbers (map tm_i cut) @
             ''. Short, front-loaded replies or a lower speaking rate usually help; check whether the replies were too long for the question.'',
           fg_turns = map tm_i cut\<rparr>])"

definition answers_backchannel :: "num \<Rightarrow> turn_model \<Rightarrow> bool" where
  "answers_backchannel start t \<longleftrightarrow>
     (case (tm_utterance t, nonempty (tm_userText t)) of
        (Some u, Some txt) \<Rightarrow> \<bar>iv_start u - start\<bar> < 1 \<and> ws_pieces txt \<le> 2
      | _ \<Rightarrow> False)"

definition backchannel_finding :: "call_model \<Rightarrow> moment \<Rightarrow> finding option" where
  "backchannel_finding model m =
     (case m of
        Backchannel p _ \<Rightarrow>
          map_option (\<lambda>t. \<lparr>fg_id = ''bc'' @ nat_str (tm_i t), fg_severity = Medium,
             fg_title = ''Possible backchannel response (turn '' @ nat_str (tm_i t + 1) @ '')'',
             fg_detail = ''A reported backchannel overlaps the estimated start of the short utterance '' @
               quoted (tmpl (tm_userText t)) @
               ''. This timing-based match suggests a response to a backchannel; it does not establish the cause or the effective backchannel_boundary setting.'',
             fg_turns = [tm_i t]\<rparr>)
            (find (answers_backchannel (iv_start p)) (cm_turns model))
      | _ \<Rightarrow> None)"

definition over_budget :: "thresholds \<Rightarrow> turn_model \<Rightarrow> bool" where
  "over_budget live t \<longleftrightarrow> (case tm_responseMs t of Some r \<Rightarrow> r > answerMs live | None \<Rightarrow> False)"

definition slow_finding :: "thresholds \<Rightarrow> call_model \<Rightarrow> finding list" where
  "slow_finding live model =
     (let slow = filter (over_budget live) (cm_turns model)
      in if slow = [] then []
         else [\<lparr>fg_id = ''slow'', fg_severity = Medium,
           fg_title = count_str slow @ '' turns took longer than '' @ fmtMs (answerMs live) @ '' to answer'',
           fg_detail = ''Turns '' @ numbers (map tm_i slow) @ ''. The budget is a setting, not a measurement.'',
           fg_turns = map tm_i slow\<rparr>])"

definition late_finding :: "call \<Rightarrow> finding list" where
  "late_finding c =
     (let late = filter (\<lambda>(i, t). or_val (transcriptionDelayMs t) 0 > 1000) (indexed (list_or (c_turns c)))
      in if late = [] then []
         else [\<lparr>fg_id = ''late'', fg_severity = Medium,
           fg_title = ''The transcript arrived late on '' @
             (if length late = 1 then ''turn '' @ nat_str (fst (hd late) + 1) else count_str late @ '' turns''),
           fg_detail = ''Speech to text finished '' @
             join '', '' (map (\<lambda>(i, t). fmtMs (or_val (transcriptionDelayMs t) 0)) late) @
             '' after the caller stopped. Everything after it waits.'',
           fg_turns = map fst late\<rparr>])"

text \<open>Exact finish reason: the text \<open>error\<close>, or a JSON array of strings that holds it.\<close>

definition hasErrorReason :: "string option \<Rightarrow> bool" where
  "hasErrorReason raw =
     (if raw = Some ''error'' then True
      else (case nonempty raw of
              None \<Rightarrow> False
            | Some text \<Rightarrow>
                (case json_parse text of
                   Some (JArr rs) \<Rightarrow> list_all (\<lambda>r. case r of JStr _ \<Rightarrow> True | _ \<Rightarrow> False) rs \<and>
                     list_ex (\<lambda>r. r = JStr ''error'') rs
                 | _ \<Rightarrow> False)))"

definition llm_requests :: "call \<Rightarrow> span list" where
  "llm_requests c = filter (\<lambda>s. sp_name s = ''llm_request'') (list_or (c_spans c))"

definition discard_finding :: "call \<Rightarrow> call_model \<Rightarrow> finding list" where
  "discard_finding c model =
     (let reqs = llm_requests c;
          discarded = filter (\<lambda>s. hasErrorReason (attr (Some s) ''gen_ai.response.finish_reasons'')) reqs
      in if discarded = [] then []
         else [\<lparr>fg_id = ''discard'', fg_severity = Medium,
           fg_title = count_str discarded @ '' of '' @ count_str reqs @ '' model calls reported an error'',
           fg_detail = ''They reported finish reason '' @ quoted ''error'' @
             ''. Inspect the request and its parent turn to distinguish provider failure from canceled preemptive generation. This flag alone does not establish the cause.'',
           fg_turns = map tm_i (filter (\<lambda>t.
             list_ex (\<lambda>s. list_ex (\<lambda>r. spanId r = spanId s) discarded) (ts_children (turnSpans c (tm_i t))))
             (cm_turns model))\<rparr>])"

definition zero_finding :: "call \<Rightarrow> finding list" where
  "zero_finding c =
     (let reqs = llm_requests c
      in if reqs \<noteq> [] \<and> list_all (\<lambda>s. attr (Some s) ''gen_ai.usage.input_tokens'' = Some ''0'') reqs
         then [\<lparr>fg_id = ''zero'', fg_severity = InfoSev, fg_title = ''The model reported 0 tokens'',
           fg_detail = ''All '' @ count_str reqs @
             '' model calls reported zero input tokens. Output usage is independent; zero alone does not establish a provider failure.'',
           fg_turns = []\<rparr>]
         else [])"

definition tts_finding :: "thresholds \<Rightarrow> call_model \<Rightarrow> finding list" where
  "tts_finding live model =
     (let slow = filter (\<lambda>t. or_val (tm_ttsMs t) 0 > ttsStartMs live) (cm_turns model)
      in if slow = [] then []
         else [\<lparr>fg_id = ''tts'', fg_severity = Medium,
           fg_title = ''Text to speech took over '' @ fmtMs (ttsStartMs live) @ '' to start on '' @ count_str slow @
             '' of '' @ count_str (cm_turns model) @ '' turns'',
           fg_detail = ''First audio came after '' @
             join '', '' (map (\<lambda>t. case tm_ttsMs t of Some v \<Rightarrow> fmtMs v | None \<Rightarrow> fmtMs 0) slow) @
             ''. That is time the caller hears silence; a streaming TTS or a faster voice model cuts it.'',
           fg_turns = map tm_i slow\<rparr>])"

definition stall_finding :: "call \<Rightarrow> finding list" where
  "stall_finding c =
     (let stalls = filter (\<lambda>s. sp_name s = ''event_loop_blocked'') (list_or (c_spans c));
          mx = js_max (map (\<lambda>s. case attr (Some s) ''lk.blocking.duration'' of
                 Some v \<Rightarrow> js_number v | None \<Rightarrow> Num 0) stalls)
      in if stalls = [] then []
         else [\<lparr>fg_id = ''stall'', fg_severity = Medium,
           fg_title = ''The agent's process stalled '' @ count_str stalls @ '' times, up to '' @
             js_fmtMs (js_times mx 1000),
           fg_detail = ''LiveKit flagged its event loop as blocked. While it is blocked the agent cannot hear, think or speak; the stack is on each event_loop_blocked span.'',
           fg_turns = []\<rparr>])"

definition realtime_finding :: "call_model \<Rightarrow> finding list" where
  "realtime_finding model =
     (if cm_pipeline model = Realtime
      then [\<lparr>fg_id = ''rt'', fg_severity = InfoSev, fg_title = ''This call uses a realtime model'',
        fg_detail = ''Realtime inference combines speech and language processing. Inspect its reported metrics; separate STT, LLM and TTS stages may not exist.'',
        fg_turns = []\<rparr>]
      else [])"

definition findingsFor :: "thresholds \<Rightarrow> call \<Rightarrow> call_model \<Rightarrow> finding list" where
  "findingsFor live c model =
     eot_finding model @ cut_finding model @ somes (map (backchannel_finding model) (cm_moments model)) @
     slow_finding live model @ late_finding c @ discard_finding c model @ zero_finding c @
     tts_finding live model @ stall_finding c @ realtime_finding model"

text \<open>The outer list gives the value of \<open>key\<close> on each span; an empty value counts as missing.\<close>

definition evidenceCheck :: "span list \<Rightarrow> string \<Rightarrow> (string \<Rightarrow> bool) \<Rightarrow> bool option" where
  "evidenceCheck spans key passes =
     (let values = map (\<lambda>s. nonempty (attr (Some s) key)) spans
      in if list_ex (\<lambda>v. case v of Some x \<Rightarrow> \<not> passes x | None \<Rightarrow> False) values then Some False
         else if values \<noteq> [] \<and> list_all (\<lambda>v. v \<noteq> None) values then Some True else None)"

section \<open>Properties\<close>

definition step_key :: "step \<Rightarrow> bool \<times> num" where
  "step_key s = (st_at s = None, or_val (st_at s) 0)"

interpretation step_ord: key_order step_key step_before
  by unfold_locales (auto simp: step_before_def step_key_def split: option.splits)


text \<open>C6: \<open>evidenceCheck\<close> fails exactly when some span carries a value that does not pass, and succeeds
  exactly when there are spans and every one carries a value that passes; otherwise it is unknown.\<close>

theorem evidenceCheck_complete:
  "(evidenceCheck spans key passes = Some False \<longleftrightarrow>
      (\<exists>s \<in> set spans. \<exists>v. attr (Some s) key = Some v \<and> v \<noteq> [] \<and> \<not> passes v)) \<and>
   (evidenceCheck spans key passes = Some True \<longleftrightarrow>
      spans \<noteq> [] \<and> list_all (\<lambda>s. \<exists>v. attr (Some s) key = Some v \<and> v \<noteq> [] \<and> passes v) spans)"
proof -
  have n: "nonempty o1 = Some v \<longleftrightarrow> o1 = Some v \<and> v \<noteq> []" "nonempty o1 = None \<longleftrightarrow> o1 = None \<or> o1 = Some []" for o1 v
    by (auto simp: nonempty_def)
  have ex: "list_ex (\<lambda>v. case v of Some x \<Rightarrow> \<not> passes x | None \<Rightarrow> False) (map (\<lambda>s. nonempty (attr (Some s) key)) spans) \<longleftrightarrow>
      (\<exists>s \<in> set spans. \<exists>v. attr (Some s) key = Some v \<and> v \<noteq> [] \<and> \<not> passes v)"
    by (auto simp: list_ex_iff n split: option.splits)
  have al: "list_all (\<lambda>v. v \<noteq> None) (map (\<lambda>s. nonempty (attr (Some s) key)) spans) \<longleftrightarrow>
      (\<forall>s \<in> set spans. \<exists>v. attr (Some s) key = Some v \<and> v \<noteq> [])"
    by (auto simp: list_all_iff n)
  show ?thesis
    unfolding evidenceCheck_def Let_def ex al map_is_Nil_conv
    by (simp only: list_all_iff split: if_split) (blast | metis option.inject option.distinct(1))+
qed

lemma one_finding:
  "f \<in> set (if P then [] else [F]) \<Longrightarrow> f = F" "f \<in> set (if P then [F] else []) \<Longrightarrow> f = F"
  by (auto split: if_splits)

lemmas finding_defs = eot_finding_def cut_finding_def slow_finding_def discard_finding_def
  zero_finding_def tts_finding_def stall_finding_def realtime_finding_def Let_def

lemma finding_turns_sub:
  assumes "f \<in> set (eot_finding m) \<or> f \<in> set (cut_finding m) \<or> f \<in> set (slow_finding live m) \<or>
    f \<in> set (discard_finding c m) \<or> f \<in> set (zero_finding c) \<or> f \<in> set (tts_finding live m) \<or>
    f \<in> set (stall_finding c) \<or> f \<in> set (realtime_finding m)"
  shows "set (fg_turns f) \<subseteq> tm_i ` set (cm_turns m)"
proof -
  have "set (map tm_i (filter P (cm_turns m))) \<subseteq> tm_i ` set (cm_turns m)" "set [] \<subseteq> tm_i ` set (cm_turns m)"
    for P by auto
  with assms show ?thesis
    unfolding finding_defs by (elim disjE) (drule one_finding, simp only: finding.simps)+
qed

lemma backchannel_turns:
  assumes "f \<in> set (somes (map (backchannel_finding m) ms))"
  shows "set (fg_turns f) \<subseteq> tm_i ` set (cm_turns m)"
proof -
  from assms obtain mo where "backchannel_finding m mo = Some f" by (auto simp: set_somes)
  then obtain t where "t \<in> set (cm_turns m)" "fg_turns f = [tm_i t]"
    by (cases mo) (auto simp: backchannel_finding_def dest: find_Some_in)
  then show ?thesis by simp
qed

lemma late_turns: "f \<in> set (late_finding c) \<Longrightarrow> set (fg_turns f) \<subseteq> {..<length (list_or (c_turns c))}"
  unfolding late_finding_def Let_def by (drule one_finding) (auto simp: in_set_indexed)

lemma finding_turns:
  assumes "f \<in> set (findingsFor live c m)"
  shows "set (fg_turns f) \<subseteq> tm_i ` set (cm_turns m) \<or> set (fg_turns f) \<subseteq> {..<length (list_or (c_turns c))}"
  using assms finding_turns_sub [of f m live c] backchannel_turns [of f m] late_turns [of f c]
  unfolding findingsFor_def set_append Un_iff by blast


lemma sample_cut_finding:
  "map (\<lambda>f. (fg_id f, fg_turns f)) (findingsFor default_thresholds sample_events (buildModel sample_events)) =
     [(''cut'', [0])]"
  by code_simp


section \<open>What the texts say of unusable values\<close>

text \<open>A time to first token that is sent but unusable (negative or not a number) is printed as the word
  \<open>null\<close>.\<close>

lemma unusable_ttft_prints_null:
  assumes "attr (Some n) ''lk.response.ttft'' = Some v" "sec (Some v) = None"
  shows "has_sub (st_summary (llm_step [] 1 k n)) ''first token null''"
proof -
  have "st_summary (llm_step [] 1 k n) =
      (or_val (attr (Some n) ''gen_ai.request.model'') ''model'' @ '' answered'' @
        (case durationMs n of Some d \<Rightarrow> '' in '' @ fmtMs d | None \<Rightarrow> []) @ '', '') @ ''first token null'' @ []"
    using assms by (simp add: llm_step_def Let_def tmpl_def)
  then show ?thesis unfolding has_sub_sublist by (metis sublist_appendI)
qed

text \<open>The step of a model call reads its finish reasons by substring, the findings exactly.\<close>

definition near_error :: span where
  "near_error = (mk_span ''llm_request'' ''q'' (Some ''n'') (Some 0) None)
     \<lparr>attrs := Some [''gen_ai.response.finish_reasons'' \<mapsto> ''no_error'']\<rparr>"

lemma substring_and_exact_differ:
  "st_status (llm_step [near_error] 1 0 (mk_span ''llm_node'' ''n'' None (Some 0) None)) = StWarn"
  "hasErrorReason (attr (Some near_error) ''gen_ai.response.finish_reasons'') = False"
  by code_simp+

end
