(* ===== verification/CallFilters.thy ===== *)
theory CallFilters
  imports FilterQuery JsUrl CallSteps
begin

text \<open>
  \<open>features/calls/call-filters.ts\<close>: the chips of the Calls page become query parameters of \<open>listCalls\<close>.
  The loop's local variables are the record \<open>fstate\<close>; \<open>filter_step\<close> is one turn of the loop and
  \<open>toServerParams\<close> the whole function. \<open>date_text\<close> is the host's text of a date (\<open>String(date)\<close>).
  Names of \<open>Object.prototype\<close> are not field ids of the page.
\<close>

definition op :: "string \<Rightarrow> string \<Rightarrow> arity \<Rightarrow> string \<times> string \<times> arity" where
  "op v l a = (v, l, a)"

definition serverOperators :: "(string \<times> (string \<times> string \<times> arity) list) list" where
  "serverOperators = [
     (''room'', [op ''is'' ''is'' ArOne]),
     (''choice'', [op ''is'' ''is'' ArOne, op ''is_any_of'' ''is any of'' ArMany]),
     (''choiceWithNot'', [op ''is'' ''is'' ArOne, op ''is_not'' ''is not'' ArOne,
        op ''is_any_of'' ''is any of'' ArMany, op ''is_none_of'' ''is none of'' ArMany]),
     (''number'', [op ''eq'' ''is'' ArOne, op ''gte'' ''at least'' ArOne, op ''lte'' ''at most'' ArOne,
        op ''between'' ''between'' ArRange, op ''empty'' ''is unknown'' ArNone]),
     (''boolean'', [op ''is'' ''is'' ArOne]),
     (''tags'', [op ''has_any_of'' ''has any of'' ArMany]),
     (''field'', [op ''is'' ''is'' ArOne])]"

section \<open>SDK fields\<close>

definition key_char :: "char \<Rightarrow> bool" where
  "key_char c \<longleftrightarrow> is_lower c \<or> is_digit c \<or> c \<in> {CHR ''_'', CHR ''.'', CHR ''-''}"

text \<open>\<open>FIELD.exec\<close>: \<open>^([a-z0-9_.-]{1,64}):(.{0,256})$\<close> with the \<open>u\<close> flag.\<close>

definition field_exec :: "string \<Rightarrow> (string \<times> string) option" where
  "field_exec v =
     (let k = takeWhile key_char v; r = dropWhile key_char v
      in case r of
           [] \<Rightarrow> None
         | c # t \<Rightarrow>
             if c = CHR '':'' \<and> 1 \<le> length k \<and> length k \<le> 64 \<and> code_points t \<le> 256 \<and> line_break_free t
             then Some (k, t) else None)"

definition MAX_FIELDS :: nat where
  "MAX_FIELDS = 16"

definition parseField :: "string \<Rightarrow> (string \<times> string) option" where
  "parseField v = field_exec (trim v)"

section \<open>The loop\<close>

definition channel_names :: "string list" where
  "channel_names = [''phone'', ''web'', ''console'', ''local'', ''unknown'']"

record bound_names =
  bn_min :: string
  bn_max :: string
  bn_unknown :: string

definition bounds :: "(string \<times> bound_names) list" where
  "bounds = [
     (''answer'', \<lparr>bn_min = ''answerMsMin'', bn_max = ''answerMsMax'', bn_unknown = ''answerMs''\<rparr>),
     (''length'', \<lparr>bn_min = ''durationSecondsMin'', bn_max = ''durationSecondsMax'', bn_unknown = ''durationSeconds''\<rparr>),
     (''turns'', \<lparr>bn_min = ''turnsMin'', bn_max = ''turnsMax'', bn_unknown = ''turnCount''\<rparr>)]"

fun js_num_text :: "jsnum \<Rightarrow> string" where
  "js_num_text (Num x) = num_str x"
| "js_num_text NaN = ''NaN''"
| "js_num_text PosInf = ''Infinity''"
| "js_num_text NegInf = ''-Infinity''"

text \<open>\<open>String(v)\<close>\<close>

fun value_text :: "(num option \<Rightarrow> string) \<Rightarrow> fvalue \<Rightarrow> string" where
  "value_text dt FvUndef = ''undefined''"
| "value_text dt FvNull = ''null''"
| "value_text dt (FvBool b) = (if b then ''true'' else ''false'')"
| "value_text dt (FvNum x) = js_num_text x"
| "value_text dt (FvStr s) = s"
| "value_text dt (FvDate d) = dt d"
| "value_text dt (FvArr vs) =
     join '','' (map (\<lambda>v. if v = FvUndef \<or> v = FvNull then [] else value_text dt v) vs)"

fun js_min2 :: "jsnum \<Rightarrow> jsnum \<Rightarrow> jsnum" where
  "js_min2 NaN y = NaN"
| "js_min2 x NaN = NaN"
| "js_min2 NegInf y = NegInf"
| "js_min2 x NegInf = NegInf"
| "js_min2 PosInf y = y"
| "js_min2 x PosInf = x"
| "js_min2 (Num x) (Num y) = Num (min x y)"

record fstate =
  fs_params :: params
  fs_dropped :: "string list"
  fs_lists :: "(string \<times> string list) list"
  fs_roomConflict :: bool
  fs_fieldPairs :: "(string \<times> string) list"
  fs_fieldConflict :: bool
  fs_min :: "(string \<times> jsnum) list"
  fs_max :: "(string \<times> jsnum) list"

definition drop_text :: "string \<Rightarrow> fstate \<Rightarrow> fstate" where
  "drop_text t s = s\<lparr>fs_dropped := fs_dropped s @ [t]\<rparr>"

definition narrow :: "string \<Rightarrow> string list \<Rightarrow> fstate \<Rightarrow> fstate" where
  "narrow k vs s =
     s\<lparr>fs_lists := mp_set k (uniq (case map_of (fs_lists s) k of
         Some prev \<Rightarrow> filter (\<lambda>v. v \<in> set prev) vs | None \<Rightarrow> vs)) (fs_lists s)\<rparr>"

definition at_least :: "bound_names \<Rightarrow> jsnum \<Rightarrow> fstate \<Rightarrow> fstate" where
  "at_least b v s =
     s\<lparr>fs_min := mp_set (bn_min b) (js_max2 (case map_of (fs_min s) (bn_min b) of Some x \<Rightarrow> x | None \<Rightarrow> v) v) (fs_min s)\<rparr>"

definition at_most :: "bound_names \<Rightarrow> jsnum \<Rightarrow> fstate \<Rightarrow> fstate" where
  "at_most b v s =
     s\<lparr>fs_max := mp_set (bn_max b) (js_min2 (case map_of (fs_max s) (bn_max b) of Some x \<Rightarrow> x | None \<Rightarrow> v) v) (fs_max s)\<rparr>"

text \<open>\<open>n[i]\<close>: a number, \<open>NaN\<close> where the list is too short (\<open>undefined\<close> makes \<open>Math.max\<close> \<open>NaN\<close>).\<close>

definition num_at :: "string list \<Rightarrow> nat \<Rightarrow> jsnum" where
  "num_at vs i = (case nth_opt vs i of Some v \<Rightarrow> js_number v | None \<Rightarrow> NaN)"

definition text_at0 :: "string list \<Rightarrow> string \<Rightarrow> string" where
  "text_at0 vs d = (case vs of [] \<Rightarrow> d | v # _ \<Rightarrow> v)"

definition bound_step :: "string \<Rightarrow> string \<Rightarrow> bound_names \<Rightarrow> string list \<Rightarrow> fstate \<Rightarrow> fstate" where
  "bound_step name opr b vs s =
     (if opr = ''empty'' then s\<lparr>fs_params := up_append ''unknown'' (bn_unknown b) (fs_params s)\<rparr>
      else if opr = ''eq'' then at_most b (num_at vs 0) (at_least b (num_at vs 0) s)
      else if opr = ''gte'' then at_least b (num_at vs 0) s
      else if opr = ''lte'' then at_most b (num_at vs 0) s
      else if opr = ''between'' then at_most b (num_at vs 1) (at_least b (num_at vs 0) s)
      else drop_text (name @ '' '' @ opr) s)"

definition field_step :: "string \<Rightarrow> string list \<Rightarrow> fstate \<Rightarrow> fstate" where
  "field_step name vs s =
     (case parseField (text_at0 vs []) of
        None \<Rightarrow> drop_text (name @ '' '' @ quoted (text_at0 vs []) @ '' (not key:value)'') s
      | Some (k, v) \<Rightarrow>
          (case map_of (fs_fieldPairs s) k of
             Some v' \<Rightarrow> s\<lparr>fs_fieldConflict := fs_fieldConflict s \<or> v' \<noteq> v\<rparr>
           | None \<Rightarrow>
               if length (fs_fieldPairs s) \<ge> MAX_FIELDS
               then (let extra = name @ '' filters past the first '' @ nat_str MAX_FIELDS
                     in if extra \<in> set (fs_dropped s) then s else drop_text extra s)
               else s\<lparr>fs_fieldPairs := fs_fieldPairs s @ [(k, v)]\<rparr>))"

definition filter_step :: "(num option \<Rightarrow> string) \<Rightarrow> (string \<Rightarrow> string option) \<Rightarrow> fcondition \<Rightarrow> fstate \<Rightarrow> fstate" where
  "filter_step dt labels c s =
     (let name = or_val (labels (fc_field c)) (fc_field c);
          vs = map (value_text dt) (fc_values c);
          fld = fc_field c;
          opr = fc_operator c
      in if fc_negated c then drop_text (quoted ''not'' @ '' on '' @ name) s
         else if fld = ''room'' \<and> opr = ''is'' then
           s\<lparr>fs_roomConflict := fs_roomConflict s \<or>
               (up_has (fs_params s) ''room'' \<and> up_get (fs_params s) ''room'' \<noteq> nth_opt vs 0),
             fs_params := up_set ''room'' (text_at0 vs ''undefined'') (fs_params s)\<rparr>
         else if (fld = ''channel'' \<or> fld = ''issues'') \<and> opr \<in> {''is'', ''is_any_of''} then narrow fld vs s
         else if fld = ''channel'' \<and> opr \<in> {''is_not'', ''is_none_of''} then
           narrow ''channel'' (filter (\<lambda>x. x \<notin> set vs) channel_names) s
         else (case map_of bounds fld of
                 Some b \<Rightarrow> bound_step name opr b vs s
               | None \<Rightarrow>
                   if fld = ''recorded'' \<and> opr = ''is'' then
                     s\<lparr>fs_params := up_set ''recorded''
                         (if nth_opt vs 0 = Some ''true'' then ''true'' else ''false'') (fs_params s)\<rparr>
                   else if fld = ''tag'' \<and> opr = ''has_any_of'' then
                     (if mp_has (fs_lists s) ''tag'' then drop_text (''a second '' @ name @ '' filter'') s
                      else s\<lparr>fs_lists := mp_set ''tag'' (uniq vs) (fs_lists s)\<rparr>)
                   else if fld = ''field'' \<and> opr = ''is'' then field_step name vs s
                   else drop_text (name @ '' '' @ opr) s))"

definition fstate0 :: "string list \<Rightarrow> fstate" where
  "fstate0 dropped = \<lparr>fs_params = [], fs_dropped = dropped, fs_lists = [], fs_roomConflict = False,
     fs_fieldPairs = [], fs_fieldConflict = False, fs_min = [], fs_max = []\<rparr>"

section \<open>The result\<close>

record server_filter =
  sv_params :: params
  sv_dropped :: "string list"
  sv_nothing :: bool

text \<open>A bound that rules every value out.\<close>

definition bound_nothing :: "fstate \<Rightarrow> params \<Rightarrow> bound_names \<Rightarrow> bool" where
  "bound_nothing s ps b =
     (let lo = map_of (fs_min s) (bn_min b); hi = map_of (fs_max s) (bn_max b)
      in (case (lo, hi) of (Some x, Some y) \<Rightarrow> js_lt y x | _ \<Rightarrow> False) \<or>
         ((lo \<noteq> None \<or> hi \<noteq> None) \<and> bn_unknown b \<in> set (up_getAll ps ''unknown'')))"

definition finish_filter :: "fstate \<Rightarrow> server_filter" where
  "finish_filter s =
     (let p1 = foldl (\<lambda>ps (k, v). up_append ''field'' (k @ '':'' @ v) ps) (fs_params s) (fs_fieldPairs s);
          nothing1 = fs_roomConflict s \<or> fs_fieldConflict s \<or> list_ex (\<lambda>(_, b). bound_nothing s p1 b) bounds;
          nothing2 = nothing1 \<or> list_ex (\<lambda>(_, vs). vs = []) (fs_lists s);
          p2 = foldl (\<lambda>ps (k, vs). foldl (\<lambda>ps v. up_append k v ps) ps vs) p1 (fs_lists s);
          p3 = foldl (\<lambda>ps (k, v). up_set k (js_num_text v) ps) p2 (fs_min s);
          p4 = foldl (\<lambda>ps (k, v). up_set k (js_num_text v) ps) p3 (fs_max s)
      in \<lparr>sv_params = p4, sv_dropped = fs_dropped s, sv_nothing = nothing2\<rparr>)"

definition toServerParams :: "(num option \<Rightarrow> string) \<Rightarrow> fnode \<Rightarrow> (string \<Rightarrow> string option) \<Rightarrow> server_filter" where
  "toServerParams dt q labels =
     (let conditions = flattenFilterConditions q;
          dropped0 = (if list_ex isFilterGroup (node_rules q) then [''grouped filters''] else [])
      in if node_combinator q = OrC \<and> length conditions > 1
         then \<lparr>sv_params = [],
           sv_dropped = dropped0 @ [quoted ''or'' @ '' between filters (the server matches every filter)''],
           sv_nothing = False\<rparr>
         else finish_filter (foldl (\<lambda>s c. filter_step dt labels c s) (fstate0 dropped0) conditions))"

end
