(* ===== verification/CallSummary.thy ===== *)
theory CallSummary
  imports CallModel
begin

text \<open>The contract's row of the Calls list (\<open>CallSummary\<close> in \<open>lib/api-types/types.gen.ts\<close>).\<close>

section \<open>Summaries\<close>

datatype channel = Phone | Web | Console | LocalCh | UnknownChannel

fun channel_name :: "channel \<Rightarrow> string" where
  "channel_name Phone = ''phone''"
| "channel_name Web = ''web''"
| "channel_name Console = ''console''"
| "channel_name LocalCh = ''local''"
| "channel_name UnknownChannel = ''unknown''"

record summary_issues =
  si_high :: "nat option"
  si_medium :: "nat option"
  si_titles :: "string list"

record call_summary =
  cs_id :: string
  cs_room :: string
  cs_roomSid :: "string option"
  cs_startedAt :: string
  cs_endedAt :: "string option"
  cs_durationSeconds :: "num option"
  cs_participantCount :: "nat option"
  cs_endState :: end_state
  cs_channel :: channel
  cs_pipeline :: pipeline
  cs_models :: "string list"
  cs_agentKey :: "string option"
  cs_turnCount :: "nat option"
  cs_answerMs :: "num list option"
  cs_answerMsMedian :: "num option"
  cs_issues :: summary_issues
  cs_tags :: "string list"
  cs_archived :: bool
  cs_recorded :: bool

section \<open>Figures and pages\<close>

record answer_totals =
  an_turns :: nat
  an_overBudget :: nat
  an_budgetMs :: num
  an_p50Ms :: "num option"
  an_valuesMs :: "num list"
  an_valuesTruncated :: bool

record issue_totals =
  it_high :: nat
  it_medium :: nat
  it_none :: nat
  it_unknown :: nat

record call_totals =
  ct_callCount :: nat
  ct_byChannel :: "(channel \<times> nat) list"
  ct_answers :: answer_totals
  ct_issues :: issue_totals
  ct_recorded :: nat

record page =
  pg_nextCursor :: "string option"
  pg_snapshot :: string

record call_page =
  cp_items :: "call_summary list"
  cp_page :: page
  cp_totals :: call_totals

end
