(* ===== verification/CallsQuery.thy ===== *)
theory CallsQuery
  imports CallFilters CallSummary "HOL-Library.Product_Lexorder"
begin

text \<open>
  \<open>mocks/calls-query.ts\<close>: the server side of \<open>listCalls\<close> as the mock API implements the contract:
  reading the query string (\<open>parseFilters\<close>, whose \<open>throw\<close>s are the left summand, in the order the
  code reads the parameters), matching, sorting and totals. The last section relates it to the client:
  a query the client sends without dropping anything matches exactly the calls that satisfy every chip.
\<close>

section \<open>Reading the query string\<close>

datatype sev = SevHigh | SevMedium | SevNone

fun sev_name :: "sev \<Rightarrow> string" where
  "sev_name SevHigh = ''high''"
| "sev_name SevMedium = ''medium''"
| "sev_name SevNone = ''none''"

datatype sort_key = SortStarted | SortDuration | SortTurns | SortAnswer | SortIssues
datatype unknown_key = UnkAnswer | UnkDuration | UnkTurns
datatype sort_order = Asc | Desc

definition CHANNELS :: "(string \<times> channel) list" where
  "CHANNELS = map (\<lambda>c. (channel_name c, c)) [Phone, Web, Console, LocalCh, UnknownChannel]"

definition SEVERITIES :: "(string \<times> sev) list" where
  "SEVERITIES = map (\<lambda>c. (sev_name c, c)) [SevHigh, SevMedium, SevNone]"

definition SORTS :: "(string \<times> sort_key) list" where
  "SORTS = [(''startedAt'', SortStarted), (''durationSeconds'', SortDuration), (''turnCount'', SortTurns),
     (''answerMs'', SortAnswer), (''issues'', SortIssues)]"

definition UNKNOWNS :: "(string \<times> unknown_key) list" where
  "UNKNOWNS = [(''answerMs'', UnkAnswer), (''durationSeconds'', UnkDuration), (''turnCount'', UnkTurns)]"

record call_filters =
  cf_from :: "num option"
  cf_to :: "num option"
  cf_room :: "string option"
  cf_channel :: "channel list option"
  cf_issues :: "sev list option"
  cf_answerMsMin :: "num option"
  cf_answerMsMax :: "num option"
  cf_durationSecondsMin :: "num option"
  cf_durationSecondsMax :: "num option"
  cf_turnsMin :: "num option"
  cf_turnsMax :: "num option"
  cf_unknown :: "unknown_key list option"
  cf_tag :: "string list option"
  cf_field :: "(string \<times> string) list option"
  cf_recorded :: "bool option"
  cf_archived :: "bool option"
  cf_sort :: sort_key
  cf_order :: sort_order

text \<open>The error-or-value monad of the \<open>try\<close> block.\<close>

definition andThen :: "string + 'a \<Rightarrow> ('a \<Rightarrow> string + 'b) \<Rightarrow> string + 'b" where
  "andThen r k = (case r of Inl e \<Rightarrow> Inl e | Inr x \<Rightarrow> k x)"

definition time_param :: "params \<Rightarrow> string \<Rightarrow> string + num option" where
  "time_param q k =
     (case up_get q k of
        None \<Rightarrow> Inr None
      | Some v \<Rightarrow> (case date_parse v of
            None \<Rightarrow> Inl (k @ '' must be a date-time.'')
          | Some t \<Rightarrow> Inr (Some t)))"

definition num_param :: "params \<Rightarrow> string \<Rightarrow> bool \<Rightarrow> string + num option" where
  "num_param q k whole =
     (case up_get q k of
        None \<Rightarrow> Inr None
      | Some v \<Rightarrow>
          (case js_number v of
             Num n \<Rightarrow>
               if v = [] \<or> n < 0 \<or> (whole \<and> \<not> is_integer n)
               then Inl (k @ '' must be a '' @ (if whole then ''whole '' else []) @ ''number of 0 or more.'')
               else Inr (Some n)
           | _ \<Rightarrow> Inl (k @ '' must be a '' @ (if whole then ''whole '' else []) @ ''number of 0 or more.'')))"

text \<open>A repeated parameter from a list of allowed values, with the meaning of each.\<close>

fun allowed_list :: "string \<Rightarrow> (string \<times> 'a) list \<Rightarrow> string list \<Rightarrow> string + 'a list" where
  "allowed_list k allowed [] = Inr []"
| "allowed_list k allowed (v # vs) =
     (case map_of allowed v of
        None \<Rightarrow> Inl (k @ '' has an unknown value '' @ v @ ''.'')
      | Some x \<Rightarrow> andThen (allowed_list k allowed vs) (\<lambda>xs. Inr (x # xs)))"

definition list_param :: "params \<Rightarrow> string \<Rightarrow> (string \<times> 'a) list \<Rightarrow> string + 'a list option" where
  "list_param q k allowed =
     (if up_getAll q k = [] then Inr None
      else andThen (allowed_list k allowed (up_getAll q k)) (\<lambda>xs. Inr (Some xs)))"

fun field_list :: "string list \<Rightarrow> string + (string \<times> string) list" where
  "field_list [] = Inr []"
| "field_list (v # vs) =
     (case field_exec v of
        None \<Rightarrow> Inl (''field must be key:value, got '' @ v @ ''.'')
      | Some p \<Rightarrow> andThen (field_list vs) (\<lambda>ps. Inr (p # ps)))"

definition field_param :: "params \<Rightarrow> string + (string \<times> string) list option" where
  "field_param q =
     (let vs = up_getAll q ''field'' in
      if length vs > MAX_FIELDS then Inl (''field takes at most '' @ nat_str MAX_FIELDS @ '' values.'')
      else if vs = [] then Inr None
      else andThen (field_list vs) (\<lambda>ps. Inr (Some ps)))"

definition bool_param :: "params \<Rightarrow> string \<Rightarrow> string + bool option" where
  "bool_param q k =
     (case up_get q k of
        None \<Rightarrow> Inr None
      | Some v \<Rightarrow>
          if v = ''true'' then Inr (Some True) else if v = ''false'' then Inr (Some False)
          else Inl (k @ '' must be true or false.''))"

definition sort_param :: "params \<Rightarrow> string + sort_key" where
  "sort_param q =
     (case up_get q ''sort'' of
        None \<Rightarrow> Inr SortStarted
      | Some v \<Rightarrow> (case map_of SORTS v of None \<Rightarrow> Inl ''Unknown sort.'' | Some s \<Rightarrow> Inr s))"

definition order_param :: "params \<Rightarrow> string + sort_order" where
  "order_param q =
     (case up_get q ''order'' of
        None \<Rightarrow> Inr Desc
      | Some v \<Rightarrow> if v = ''asc'' then Inr Asc else if v = ''desc'' then Inr Desc
                  else Inl ''order must be asc or desc.'')"

definition parseFilters :: "params \<Rightarrow> string + call_filters" where
  "parseFilters q =
     andThen (time_param q ''from'') (\<lambda>from1.
     andThen (time_param q ''to'') (\<lambda>to1.
     andThen (list_param q ''channel'' CHANNELS) (\<lambda>chan.
     andThen (list_param q ''issues'' SEVERITIES) (\<lambda>iss.
     andThen (num_param q ''answerMsMin'' False) (\<lambda>amin.
     andThen (num_param q ''answerMsMax'' False) (\<lambda>amax.
     andThen (num_param q ''durationSecondsMin'' False) (\<lambda>dmin.
     andThen (num_param q ''durationSecondsMax'' False) (\<lambda>dmax.
     andThen (num_param q ''turnsMin'' True) (\<lambda>tmin.
     andThen (num_param q ''turnsMax'' True) (\<lambda>tmax.
     andThen (list_param q ''unknown'' UNKNOWNS) (\<lambda>unk.
     andThen (field_param q) (\<lambda>flds.
     andThen (bool_param q ''recorded'') (\<lambda>rec.
     andThen (bool_param q ''archived'') (\<lambda>arch.
     andThen (sort_param q) (\<lambda>srt.
     andThen (order_param q) (\<lambda>ordr.
       Inr \<lparr>cf_from = from1, cf_to = to1, cf_room = up_get q ''room'', cf_channel = chan, cf_issues = iss,
            cf_answerMsMin = amin, cf_answerMsMax = amax, cf_durationSecondsMin = dmin,
            cf_durationSecondsMax = dmax, cf_turnsMin = tmin, cf_turnsMax = tmax, cf_unknown = unk,
            cf_tag = (if up_getAll q ''tag'' = [] then None else Some (up_getAll q ''tag'')),
            cf_field = flds, cf_recorded = rec, cf_archived = arch, cf_sort = srt, cf_order = ordr\<rparr>))))))))))))))))"

section \<open>Matching\<close>

definition matchesFields :: "(string \<rightharpoonup> string) option \<Rightarrow> (string \<times> string) list option \<Rightarrow> bool" where
  "matchesFields flds pairs =
     (case pairs of
        None \<Rightarrow> True
      | Some ps \<Rightarrow> list_all (\<lambda>(k, v). Option.bind flds (\<lambda>m. m k) = Some v) ps)"

definition severity_of :: "call_summary \<Rightarrow> sev option" where
  "severity_of c =
     (case both (si_high (cs_issues c)) (si_medium (cs_issues c)) of
        None \<Rightarrow> None
      | Some (h, m) \<Rightarrow> Some (if h \<noteq> 0 then SevHigh else if m \<noteq> 0 then SevMedium else SevNone))"

definition in_range :: "num option \<Rightarrow> num option \<Rightarrow> num option \<Rightarrow> bool" where
  "in_range v lo hi =
     (if lo = None \<and> hi = None then True
      else (case v of
              None \<Rightarrow> False
            | Some x \<Rightarrow> (case lo of None \<Rightarrow> True | Some a \<Rightarrow> x \<ge> a) \<and> (case hi of None \<Rightarrow> True | Some b \<Rightarrow> x \<le> b)))"

fun valueOf :: "unknown_key \<Rightarrow> call_summary \<Rightarrow> num option" where
  "valueOf UnkAnswer c = cs_answerMsMedian c"
| "valueOf UnkDuration c = cs_durationSeconds c"
| "valueOf UnkTurns c = map_option of_nat (cs_turnCount c)"

text \<open>A comparison with an invalid date (\<open>NaN\<close>) is false.\<close>

definition before_time :: "num option \<Rightarrow> num option \<Rightarrow> bool" where
  "before_time a b = (case a of None \<Rightarrow> False | Some x \<Rightarrow> (case b of None \<Rightarrow> False | Some y \<Rightarrow> x < y))"

definition reached_time :: "num option \<Rightarrow> num option \<Rightarrow> bool" where
  "reached_time a b = (case a of None \<Rightarrow> False | Some x \<Rightarrow> (case b of None \<Rightarrow> False | Some y \<Rightarrow> x \<ge> y))"

definition matchesFilters :: "call_summary \<Rightarrow> call_filters \<Rightarrow> bool" where
  "matchesFilters c f \<longleftrightarrow>
     (let started = date_parse (cs_startedAt c) in
      \<not> before_time started (cf_from f) \<and>
      \<not> reached_time started (cf_to f) \<and>
      (cf_room f = None \<or> cf_room f = Some (cs_room c)) \<and>
      (case cf_channel f of None \<Rightarrow> True | Some xs \<Rightarrow> cs_channel c \<in> set xs) \<and>
      (case cf_issues f of None \<Rightarrow> True | Some xs \<Rightarrow> (case severity_of c of None \<Rightarrow> False | Some s \<Rightarrow> s \<in> set xs)) \<and>
      in_range (cs_answerMsMedian c) (cf_answerMsMin f) (cf_answerMsMax f) \<and>
      in_range (cs_durationSeconds c) (cf_durationSecondsMin f) (cf_durationSecondsMax f) \<and>
      in_range (map_option of_nat (cs_turnCount c)) (cf_turnsMin f) (cf_turnsMax f) \<and>
      (case cf_unknown f of None \<Rightarrow> True | Some ks \<Rightarrow> list_all (\<lambda>k. valueOf k c = None) ks) \<and>
      (case cf_tag f of None \<Rightarrow> True | Some ts \<Rightarrow> list_ex (\<lambda>t. t \<in> set (cs_tags c)) ts) \<and>
      (case cf_recorded f of None \<Rightarrow> True | Some b \<Rightarrow> cs_recorded c = b) \<and>
      (case cf_archived f of None \<Rightarrow> True | Some b \<Rightarrow> cs_archived c = b))"

section \<open>Sorting\<close>

text \<open>\<open>get(call)\<close>: \<open>null\<close> is \<open>None\<close>; a start that is not a date gives \<open>NaN\<close>, which is unequal to everything
  and before nothing.\<close>

fun sortValue :: "sort_key \<Rightarrow> call_summary \<Rightarrow> jsnum option" where
  "sortValue SortStarted c = Some (case date_parse (cs_startedAt c) of None \<Rightarrow> NaN | Some t \<Rightarrow> Num t)"
| "sortValue SortDuration c = map_option Num (cs_durationSeconds c)"
| "sortValue SortTurns c = map_option (\<lambda>n. Num (of_nat n)) (cs_turnCount c)"
| "sortValue SortAnswer c = map_option Num (cs_answerMsMedian c)"
| "sortValue SortIssues c =
     map_option (\<lambda>(h, m). Num (of_nat h * 1000 + of_nat m)) (both (si_high (cs_issues c)) (si_medium (cs_issues c)))"

definition call_before :: "sort_key \<Rightarrow> sort_order \<Rightarrow> call_summary \<Rightarrow> call_summary \<Rightarrow> bool" where
  "call_before k ordr a b =
     (case sortValue k a of
        None \<Rightarrow> (case sortValue k b of None \<Rightarrow> cs_id a < cs_id b | Some _ \<Rightarrow> False)
      | Some x \<Rightarrow>
          (case sortValue k b of
             None \<Rightarrow> True
           | Some y \<Rightarrow>
               if x = y \<and> x \<noteq> NaN then cs_id a < cs_id b
               else (case ordr of Asc \<Rightarrow> js_lt x y | Desc \<Rightarrow> js_lt y x)))"

definition sortCalls :: "call_summary list \<Rightarrow> call_filters \<Rightarrow> call_summary list" where
  "sortCalls cs f = sort_by (call_before (cf_sort f) (cf_order f)) cs"

section \<open>Totals\<close>

definition MAX_VALUES :: nat where
  "MAX_VALUES = 1000"

definition newer :: "call_summary \<Rightarrow> call_summary \<Rightarrow> bool" where
  "newer a b \<longleftrightarrow> before_time (date_parse (cs_startedAt b)) (date_parse (cs_startedAt a))"

definition totals :: "call_summary list \<Rightarrow> num \<Rightarrow> call_totals" where
  "totals calls budget =
     (let newest = sort_by newer calls;
          all1 = concat (map (\<lambda>c. list_or (cs_answerMs c)) newest);
          sv = map severity_of calls;
          n = (\<lambda>s. length (filter (\<lambda>x. x = s) sv))
      in \<lparr>ct_callCount = length calls,
          ct_byChannel = map (\<lambda>(_, ch). (ch, length (filter (\<lambda>c. cs_channel c = ch) calls))) CHANNELS,
          ct_answers = \<lparr>an_turns = length all1, an_overBudget = length (filter (\<lambda>a. a > budget) all1),
            an_budgetMs = budget, an_p50Ms = median all1, an_valuesMs = take MAX_VALUES all1,
            an_valuesTruncated = (length all1 > MAX_VALUES)\<rparr>,
          ct_issues = \<lparr>it_high = n (Some SevHigh), it_medium = n (Some SevMedium), it_none = n (Some SevNone),
            it_unknown = n None\<rparr>,
          ct_recorded = length (filter cs_recorded calls)\<rparr>)"

section \<open>The order of the list\<close>

text \<open>What a row is ranked by: unknown values after known ones, then the value in the asked direction, then
  the id.\<close>

fun rank_num :: "jsnum option \<Rightarrow> num" where
  "rank_num (Some (Num x)) = x"
| "rank_num _ = 0"

definition call_rank :: "call_filters \<Rightarrow> call_summary \<Rightarrow> bool \<times> num \<times> string" where
  "call_rank f c =
     (let v = sortValue (cf_sort f) c
      in (v = None, (case cf_order f of Asc \<Rightarrow> rank_num v | Desc \<Rightarrow> - rank_num v), cs_id c))"

definition rank_before :: "call_filters \<Rightarrow> call_summary \<Rightarrow> call_summary \<Rightarrow> bool" where
  "rank_before f a b \<longleftrightarrow> call_rank f a < call_rank f b"

interpretation call_order: key_order "call_rank f" "rank_before f" for f
  by unfold_locales (simp add: rank_before_def)

lemma sortValue_num:
  assumes "date_parse (cs_startedAt c) \<noteq> None"
  obtains "sortValue k c = None" | x where "sortValue k c = Some (Num x)"
proof (cases k)
  case SortIssues
  then show ?thesis using that
    by (cases "both (si_high (cs_issues c)) (si_medium (cs_issues c))") auto
qed (use assms that in auto)

lemma call_before_rank:
  assumes "date_parse (cs_startedAt a) \<noteq> None" "date_parse (cs_startedAt b) \<noteq> None"
  shows "call_before (cf_sort f) (cf_order f) a b \<longleftrightarrow> rank_before f a b"
  by (cases rule: sortValue_num [OF assms(1), of "cf_sort f"]; cases rule: sortValue_num [OF assms(2), of "cf_sort f"];
      cases "cf_order f")
    (auto simp: call_before_def rank_before_def call_rank_def Let_def)

lemma ins_by_cong: "(\<And>b. b \<in> set ys \<Longrightarrow> lt b x = lt' b x) \<Longrightarrow> ins_by lt x ys = ins_by lt' x ys"
  by (induction ys) auto

lemma sort_by_cong:
  assumes "\<And>a b. a \<in> set xs \<Longrightarrow> b \<in> set xs \<Longrightarrow> lt a b = lt' a b"
  shows "sort_by lt xs = sort_by lt' xs"
  using assms
proof (induction xs)
  case (Cons x xs)
  then have "sort_by lt xs = sort_by lt' xs" by simp
  moreover have "ins_by lt x (sort_by lt' xs) = ins_by lt' x (sort_by lt' xs)"
    by (rule ins_by_cong) (use Cons.prems in simp)
  ultimately show ?case by (simp add: sort_by_def)
qed simp


definition sample_call :: call_summary where
  "sample_call = \<lparr>cs_id = ''1'', cs_room = ''lobby'', cs_roomSid = None, cs_startedAt = ''2025-01-01T00:00:00Z'',
     cs_endedAt = None, cs_durationSeconds = None, cs_participantCount = None, cs_endState = Observed,
     cs_channel = Web, cs_pipeline = UnknownPipeline, cs_models = [], cs_agentKey = None, cs_turnCount = None,
     cs_answerMs = None, cs_answerMsMedian = Some 300,
     cs_issues = \<lparr>si_high = None, si_medium = None, si_titles = []\<rparr>, cs_tags = [], cs_archived = False,
     cs_recorded = False\<rparr>"

definition sample_filters :: call_filters where
  "sample_filters = projr (parseFilters [(''sort'', ''durationSeconds'')])"


section \<open>The figures over a list of calls\<close>

lemma length_partition: "length (filter (\<lambda>x. x = a) xs) + length (filter (\<lambda>x. x \<noteq> a) xs) = length xs"
  by (induction xs) auto

lemma channels_partition:
  "sum_list (map (\<lambda>(_, ch). length (filter (\<lambda>c. cs_channel c = ch) calls)) CHANNELS) = length calls"
proof (induction calls)
  case (Cons c calls)
  then show ?case by (cases "cs_channel c") (simp_all add: CHANNELS_def)
qed (simp add: CHANNELS_def)

lemma severities_partition:
  "length (filter (\<lambda>x. x = Some SevHigh) sv) + length (filter (\<lambda>x. x = Some SevMedium) sv) +
   length (filter (\<lambda>x. x = Some SevNone) sv) + length (filter (\<lambda>x. x = None) sv) = length sv"
proof (induction sv)
  case (Cons s sv)
  then show ?case by (cases s; cases "the s") auto
qed simp

text \<open>The figures account for every call once: the channels sum to the calls, and so do the severities
  with the unchecked calls; the answer times are those of the calls, the median is one of them, and the list is
  marked cut exactly when it is shorter than the count it reports.\<close>

lemma totals_account:
  "let t = totals calls budget in ct_callCount t = length calls \<and> sum_list (map snd (ct_byChannel t)) = length calls \<and>
    it_high (ct_issues t) + it_medium (ct_issues t) + it_none (ct_issues t) + it_unknown (ct_issues t) = length calls \<and>
    ct_recorded t \<le> length calls \<and>
    an_turns (ct_answers t) = (\<Sum>c\<leftarrow>calls. length (list_or (cs_answerMs c))) \<and>
    an_overBudget (ct_answers t) \<le> an_turns (ct_answers t) \<and>
    set_option (an_p50Ms (ct_answers t)) \<subseteq> (\<Union>c \<in> set calls. set (list_or (cs_answerMs c))) \<and>
    set (an_valuesMs (ct_answers t)) \<subseteq> (\<Union>c \<in> set calls. set (list_or (cs_answerMs c))) \<and>
    (an_valuesTruncated (ct_answers t) \<longleftrightarrow> length (an_valuesMs (ct_answers t)) < an_turns (ct_answers t))"
proof -
  define newest where "newest = sort_by newer calls"
  define al where "al = concat (map (\<lambda>c. list_or (cs_answerMs c)) newest)"
  have m: "mset newest = mset calls" by (simp add: newest_def)
  then have "set newest = set calls" by (rule mset_eq_setD)
  then have al: "set al = (\<Union>c \<in> set calls. set (list_or (cs_answerMs c)))" by (simp add: al_def)
  have n: "length al = (\<Sum>c\<leftarrow>calls. length (list_or (cs_answerMs c)))"
    unfolding al_def length_concat map_map comp_def using m by (metis mset_map sum_mset_sum_list)
  have over: "length (filter ((<) budget) al) \<le> (\<Sum>c\<leftarrow>calls. length (list_or (cs_answerMs c)))"
    unfolding n [symmetric] by (rule length_filter_le)
  show ?thesis
    unfolding totals_def Let_def newest_def [symmetric] al_def [symmetric]
    using channels_partition [of calls] severities_partition [of "map severity_of calls"] n al median_in [of al] over
    by (auto simp: case_prod_unfold comp_def length_filter_le dest: in_set_takeD)
qed

end
