(* ===== verification/FiltersAgree.thy ===== *)
theory FiltersAgree
  imports CallsQuery
begin

text \<open>
  The client's filters (\<open>call-filters.ts\<close>) and the server's matching (\<open>calls-query.ts\<close>) agree.
  \<open>chip_holds\<close> is what one chip asks of a call; \<open>sat\<close> is what the loop's variables ask of it. Each turn
  of the loop adds exactly its chip (\<open>sat_step\<close>), the query string says what the variables say
  (\<open>sat_params\<close>), and so the server matches a call exactly when it satisfies every chip.
\<close>

section \<open>What a chip asks\<close>

text \<open>Order of a bound and a value; \<open>NaN\<close> is not below or above anything.\<close>

fun js_le_num :: "jsnum \<Rightarrow> num \<Rightarrow> bool" where
  "js_le_num (Num a) x = (a \<le> x)"
| "js_le_num NegInf x = True"
| "js_le_num _ x = False"

fun num_le_js :: "num \<Rightarrow> jsnum \<Rightarrow> bool" where
  "num_le_js x (Num a) = (x \<le> a)"
| "num_le_js x PosInf = True"
| "num_le_js x _ = False"

definition has_least :: "num option \<Rightarrow> jsnum \<Rightarrow> bool" where
  "has_least v n = (case v of None \<Rightarrow> False | Some x \<Rightarrow> js_le_num n x)"

definition has_most :: "num option \<Rightarrow> jsnum \<Rightarrow> bool" where
  "has_most v n = (case v of None \<Rightarrow> False | Some x \<Rightarrow> num_le_js x n)"

definition bound_value :: "bound_names \<Rightarrow> call_summary \<Rightarrow> num option" where
  "bound_value b c = (case map_of UNKNOWNS (bn_unknown b) of Some k \<Rightarrow> valueOf k c | None \<Rightarrow> None)"

definition bound_holds :: "string \<Rightarrow> string list \<Rightarrow> num option \<Rightarrow> bool" where
  "bound_holds opr vs v =
     (if opr = ''empty'' then v = None
      else if opr = ''eq'' then has_least v (num_at vs 0) \<and> has_most v (num_at vs 0)
      else if opr = ''gte'' then has_least v (num_at vs 0)
      else if opr = ''lte'' then has_most v (num_at vs 0)
      else opr = ''between'' \<and> has_least v (num_at vs 0) \<and> has_most v (num_at vs 1))"

definition severity_in :: "call_summary \<Rightarrow> string list \<Rightarrow> bool" where
  "severity_in c vs = (case severity_of c of None \<Rightarrow> False | Some s \<Rightarrow> sev_name s \<in> set vs)"

definition pair_holds :: "(string \<rightharpoonup> string) option \<Rightarrow> string \<times> string \<Rightarrow> bool" where
  "pair_holds flds p = (Option.bind flds (\<lambda>m. m (fst p)) = Some (snd p))"

definition chip_holds :: "(num option \<Rightarrow> string) \<Rightarrow> call_summary \<Rightarrow> (string \<rightharpoonup> string) option \<Rightarrow> fcondition \<Rightarrow> bool" where
  "chip_holds dt c flds k =
     (let vs = map (value_text dt) (fc_values k); fld = fc_field k; opr = fc_operator k
      in if fld = ''room'' \<and> opr = ''is'' then cs_room c = text_at0 vs ''undefined''
         else if fld = ''channel'' \<and> opr \<in> {''is'', ''is_any_of''} then channel_name (cs_channel c) \<in> set vs
         else if fld = ''issues'' \<and> opr \<in> {''is'', ''is_any_of''} then severity_in c vs
         else if fld = ''channel'' \<and> opr \<in> {''is_not'', ''is_none_of''} then channel_name (cs_channel c) \<notin> set vs
         else (case map_of bounds fld of
                 Some b \<Rightarrow> bound_holds opr vs (bound_value b c)
               | None \<Rightarrow>
                   if fld = ''recorded'' \<and> opr = ''is'' then cs_recorded c = (nth_opt vs 0 = Some ''true'')
                   else if fld = ''tag'' \<and> opr = ''has_any_of'' then set vs \<inter> set (cs_tags c) \<noteq> {}
                   else fld = ''field'' \<and> opr = ''is'' \<and>
                     (case parseField (text_at0 vs []) of Some p \<Rightarrow> pair_holds flds p | None \<Rightarrow> False)))"

section \<open>What the loop's variables ask\<close>

definition num_ok :: "fstate \<Rightarrow> bound_names \<Rightarrow> num option \<Rightarrow> bool" where
  "num_ok s b v \<longleftrightarrow>
     (case map_of (fs_min s) (bn_min b) of None \<Rightarrow> True | Some n \<Rightarrow> has_least v n) \<and>
     (case map_of (fs_max s) (bn_max b) of None \<Rightarrow> True | Some n \<Rightarrow> has_most v n) \<and>
     (bn_unknown b \<in> set (up_getAll (fs_params s) ''unknown'') \<longrightarrow> v = None)"

definition sat :: "call_summary \<Rightarrow> (string \<rightharpoonup> string) option \<Rightarrow> fstate \<Rightarrow> bool" where
  "sat c flds s \<longleftrightarrow>
     \<not> fs_roomConflict s \<and> \<not> fs_fieldConflict s \<and>
     pred_option (\<lambda>r. cs_room c = r) (up_get (fs_params s) ''room'') \<and>
     pred_option (\<lambda>v. cs_recorded c = (v = ''true'')) (up_get (fs_params s) ''recorded'') \<and>
     pred_option (\<lambda>vs. channel_name (cs_channel c) \<in> set vs) (map_of (fs_lists s) ''channel'') \<and>
     pred_option (severity_in c) (map_of (fs_lists s) ''issues'') \<and>
     pred_option (\<lambda>vs. set vs \<inter> set (cs_tags c) \<noteq> {}) (map_of (fs_lists s) ''tag'') \<and>
     list_all (\<lambda>p. num_ok s (snd p) (bound_value (snd p) c)) bounds \<and>
     list_all (pair_holds flds) (fs_fieldPairs s)"

lemma channel_name_inj [simp]: "channel_name a = channel_name b \<longleftrightarrow> a = b"
  by (cases a; cases b) simp_all

lemma channel_name_listed: "channel_name ch \<in> set channel_names"
  by (cases ch) (simp_all add: channel_names_def)

lemma has_least_max: "has_least v (js_max2 a b) \<longleftrightarrow> has_least v a \<and> has_least v b"
  by (cases v; cases a; cases b) (auto simp: has_least_def)

lemma has_most_min: "has_most v (js_min2 a b) \<longleftrightarrow> has_most v a \<and> has_most v b"
  by (cases v; cases a; cases b) (auto simp: has_most_def)

lemma bounds_cases:
  "map_of bounds fld = Some b \<Longrightarrow> fld \<in> {''answer'', ''length'', ''turns''} \<and> (fld, b) \<in> set bounds"
  by (drule map_of_SomeD) (auto simp: bounds_def)

lemma bounds_distinct:
  "p \<in> set bounds \<Longrightarrow> q \<in> set bounds \<Longrightarrow> p \<noteq> q \<Longrightarrow>
     bn_min (snd p) \<noteq> bn_min (snd q) \<and> bn_max (snd p) \<noteq> bn_max (snd q) \<and> bn_unknown (snd p) \<noteq> bn_unknown (snd q)"
  unfolding bounds_def list.set insert_iff empty_iff by (elim disjE) simp_all

lemmas step_defs = drop_text_def narrow_def at_least_def at_most_def

text \<open>Changing the variables of one bound changes what is asked of that value only.\<close>

lemma list_all_one:
  assumes "p \<in> set xs" "\<And>q. q \<in> set xs \<Longrightarrow> q \<noteq> p \<Longrightarrow> P q = Q q" "P p = (Q p \<and> R)"
  shows "list_all P xs = (list_all Q xs \<and> R)"
  using assms unfolding list_all_iff by metis

lemma num_ok_at_least:
  assumes "p \<in> set bounds"
  shows "list_all (\<lambda>q. num_ok (at_least (snd p) n s) (snd q) (bound_value (snd q) c)) bounds \<longleftrightarrow>
    list_all (\<lambda>q. num_ok s (snd q) (bound_value (snd q) c)) bounds \<and> has_least (bound_value (snd p) c) n"
proof (rule list_all_one [OF assms])
  fix q assume "q \<in> set bounds" "q \<noteq> p"
  with bounds_distinct [OF assms this(1)] show
    "num_ok (at_least (snd p) n s) (snd q) (bound_value (snd q) c) = num_ok s (snd q) (bound_value (snd q) c)"
    by (auto simp: num_ok_def at_least_def mp_store.get_put)
qed (auto simp: num_ok_def at_least_def mp_store.get_put has_least_max split: option.splits)

lemma num_ok_at_most:
  assumes "p \<in> set bounds"
  shows "list_all (\<lambda>q. num_ok (at_most (snd p) n s) (snd q) (bound_value (snd q) c)) bounds \<longleftrightarrow>
    list_all (\<lambda>q. num_ok s (snd q) (bound_value (snd q) c)) bounds \<and> has_most (bound_value (snd p) c) n"
proof (rule list_all_one [OF assms])
  fix q assume "q \<in> set bounds" "q \<noteq> p"
  with bounds_distinct [OF assms this(1)] show
    "num_ok (at_most (snd p) n s) (snd q) (bound_value (snd q) c) = num_ok s (snd q) (bound_value (snd q) c)"
    by (auto simp: num_ok_def at_most_def mp_store.get_put)
qed (auto simp: num_ok_def at_most_def mp_store.get_put has_most_min split: option.splits)

lemma num_ok_unknown:
  assumes "p \<in> set bounds"
  shows "list_all (\<lambda>q. num_ok (s\<lparr>fs_params := up_append ''unknown'' (bn_unknown (snd p)) (fs_params s)\<rparr>)
      (snd q) (bound_value (snd q) c)) bounds \<longleftrightarrow>
    list_all (\<lambda>q. num_ok s (snd q) (bound_value (snd q) c)) bounds \<and> bound_value (snd p) c = None"
proof (rule list_all_one [OF assms])
  fix q assume "q \<in> set bounds" "q \<noteq> p"
  with bounds_distinct [OF assms this(1)] show
    "num_ok (s\<lparr>fs_params := up_append ''unknown'' (bn_unknown (snd p)) (fs_params s)\<rparr>) (snd q) (bound_value (snd q) c)
      = num_ok s (snd q) (bound_value (snd q) c)"
    by (auto simp: num_ok_def up_getAll_append)
qed (auto simp: num_ok_def up_getAll_append)

lemma sat_at_least: "p \<in> set bounds \<Longrightarrow>
    sat c flds (at_least (snd p) n s) \<longleftrightarrow> sat c flds s \<and> has_least (bound_value (snd p) c) n"
  using num_ok_at_least [of p n s c] unfolding sat_def by (simp add: at_least_def) blast

lemma sat_at_most: "p \<in> set bounds \<Longrightarrow>
    sat c flds (at_most (snd p) n s) \<longleftrightarrow> sat c flds s \<and> has_most (bound_value (snd p) c) n"
  using num_ok_at_most [of p n s c] unfolding sat_def by (simp add: at_most_def) blast

lemma sat_unknown: "p \<in> set bounds \<Longrightarrow>
    sat c flds (s\<lparr>fs_params := up_append ''unknown'' (bn_unknown (snd p)) (fs_params s)\<rparr>) \<longleftrightarrow>
    sat c flds s \<and> bound_value (snd p) c = None"
  using num_ok_unknown [of p s c] unfolding sat_def by (simp add: up_get_append split: option.splits) blast

lemma drop_nonempty [simp]: "fs_dropped (drop_text t s) \<noteq> []"
  by (simp add: drop_text_def)

lemma sat_bound_step:
  assumes "p \<in> set bounds" "fs_dropped (bound_step name opr (snd p) vs s) = []"
  shows "sat c flds (bound_step name opr (snd p) vs s) \<longleftrightarrow> sat c flds s \<and> bound_holds opr vs (bound_value (snd p) c)"
  using assms by (auto simp: bound_step_def bound_holds_def sat_at_least sat_at_most sat_unknown
      simp del: One_nat_def split: if_splits)

lemma num_ok_params:
  "up_getAll ps ''unknown'' = up_getAll (fs_params s) ''unknown'' \<Longrightarrow> num_ok (s\<lparr>fs_params := ps\<rparr>) b v = num_ok s b v"
  "num_ok (s\<lparr>fs_lists := ls\<rparr>) b v = num_ok s b v"
  "num_ok (s\<lparr>fs_roomConflict := rc\<rparr>) b v = num_ok s b v"
  "num_ok (s\<lparr>fs_fieldPairs := fp\<rparr>) b v = num_ok s b v"
  "num_ok (s\<lparr>fs_fieldConflict := fc\<rparr>) b v = num_ok s b v"
  by (simp_all add: num_ok_def)

lemma sat_room:
  "sat c flds (s\<lparr>fs_roomConflict := fs_roomConflict s \<or>
      (up_has (fs_params s) ''room'' \<and> up_get (fs_params s) ''room'' \<noteq> Some v),
    fs_params := up_set ''room'' v (fs_params s)\<rparr>) \<longleftrightarrow> sat c flds s \<and> cs_room c = v"
proof (cases "up_get (fs_params s) ''room''")
  case None
  then show ?thesis unfolding sat_def
    by (simp add: up_store.get_put up_has_get num_ok_params up_getAll_set) blast
next
  case (Some r)
  then show ?thesis unfolding sat_def
    by (simp add: up_store.get_put up_has_get num_ok_params up_getAll_set) blast
qed

lemma sat_recorded:
  assumes "up_get (fs_params s) ''recorded'' = None \<or>
    up_get (fs_params s) ''recorded'' = Some (if r0 then ''true'' else ''false'')"
  shows "sat c flds (s\<lparr>fs_params := up_set ''recorded'' (if r0 then ''true'' else ''false'') (fs_params s)\<rparr>) \<longleftrightarrow>
    sat c flds s \<and> cs_recorded c = r0"
  using assms unfolding sat_def
  by (elim disjE; cases r0; simp add: up_store.get_put num_ok_params up_getAll_set; blast)

lemma narrow_list:
  "x \<in> set (case o1 of None \<Rightarrow> vs | Some prev \<Rightarrow> filter (\<lambda>v. v \<in> set prev) vs) \<longleftrightarrow>
     pred_option (\<lambda>l. x \<in> set l) o1 \<and> x \<in> set vs"
  by (cases o1) auto

lemma severity_narrow:
  "severity_in c (uniq (case o1 of None \<Rightarrow> vs | Some prev \<Rightarrow> filter (\<lambda>v. v \<in> set prev) vs)) \<longleftrightarrow>
     pred_option (severity_in c) o1 \<and> severity_in c vs"
  by (cases o1; cases "severity_of c") (auto simp: severity_in_def)

lemma sat_narrow_channel:
  "sat c flds (narrow ''channel'' vs s) \<longleftrightarrow> sat c flds s \<and> channel_name (cs_channel c) \<in> set vs"
  unfolding sat_def
  by (simp add: narrow_def mp_store.get_put num_ok_params narrow_list) blast

lemma sat_narrow_issues:
  "sat c flds (narrow ''issues'' vs s) \<longleftrightarrow> sat c flds s \<and> severity_in c vs"
  unfolding sat_def
  by (simp add: narrow_def mp_store.get_put num_ok_params severity_narrow) blast

lemma sat_tag:
  assumes "map_of (fs_lists s) ''tag'' = None"
  shows "sat c flds (s\<lparr>fs_lists := mp_set ''tag'' (uniq vs) (fs_lists s)\<rparr>) \<longleftrightarrow>
    sat c flds s \<and> set vs \<inter> set (cs_tags c) \<noteq> {}"
  using assms unfolding sat_def by (simp add: mp_store.get_put num_ok_params) blast

text \<open>The number \<open>n\<close> survives being printed into the query string and read back.\<close>

definition reads_back :: "jsnum \<Rightarrow> bool" where
  "reads_back n \<longleftrightarrow> js_number (js_num_text n) = n"

definition flag_text :: "bool \<Rightarrow> string" where
  "flag_text b = (if b then ''true'' else ''false'')"

text \<open>The loop's variables are of this form.\<close>

definition map_inv :: "string set \<Rightarrow> (string \<times> 'a) list \<Rightarrow> bool" where
  "map_inv ks m \<longleftrightarrow> distinct (map fst m) \<and> fst ` set m \<subseteq> ks"

definition finv :: "bool \<Rightarrow> fstate \<Rightarrow> bool" where
  "finv r0 s \<longleftrightarrow>
     map_inv {''channel'', ''issues'', ''tag''} (fs_lists s) \<and>
     map_inv {''answerMsMin'', ''durationSecondsMin'', ''turnsMin''} (fs_min s) \<and>
     map_inv {''answerMsMax'', ''durationSecondsMax'', ''turnsMax''} (fs_max s) \<and>
     (\<forall>p \<in> set (fs_min s) \<union> set (fs_max s). reads_back (snd p)) \<and>
     fst ` set (fs_params s) \<subseteq> {''room'', ''unknown'', ''recorded''} \<and>
     up_get (fs_params s) ''recorded'' \<in> {None, Some (flag_text r0)} \<and>
     distinct (map fst (fs_fieldPairs s)) \<and> length (fs_fieldPairs s) \<le> MAX_FIELDS \<and>
     (\<forall>p \<in> set (fs_fieldPairs s). field_exec (fst p @ '':'' @ snd p) = Some p)"

lemma map_inv_set: "map_inv ks m \<Longrightarrow> k \<in> ks \<Longrightarrow> map_inv ks (mp_set k v m)"
proof -
  have "fst ` set (mp_set k v m) = insert k (fst ` set m)" by (induction m) auto
  then show "map_inv ks m \<Longrightarrow> k \<in> ks \<Longrightarrow> map_inv ks (mp_set k v m)"
    by (auto simp: map_inv_def distinct_mp_set)
qed

lemma keys_up_set: "fst ` set (up_set k v ps) \<subseteq> insert k (fst ` set ps)"
  by (induction ps) (auto simp: up_delete_def)

lemma reads_back_special [simp]: "reads_back NaN" "reads_back PosInf" "reads_back NegInf"
  unfolding reads_back_def by code_simp+

lemma reads_back_max: "reads_back a \<Longrightarrow> reads_back b \<Longrightarrow> reads_back (js_max2 a b)"
  by (cases a; cases b) (auto simp: max_def)

lemma reads_back_min: "reads_back a \<Longrightarrow> reads_back b \<Longrightarrow> reads_back (js_min2 a b)"
  by (cases a; cases b) (auto simp: min_def)

lemma bounds_names:
  "p \<in> set bounds \<Longrightarrow> bn_min (snd p) \<in> {''answerMsMin'', ''durationSecondsMin'', ''turnsMin''}"
  "p \<in> set bounds \<Longrightarrow> bn_max (snd p) \<in> {''answerMsMax'', ''durationSecondsMax'', ''turnsMax''}"
  unfolding bounds_def list.set insert_iff empty_iff by (elim disjE; simp)+

lemma finv_updates:
  "finv r0 s \<Longrightarrow> map_inv {''answerMsMin'', ''durationSecondsMin'', ''turnsMin''} m \<Longrightarrow>
     \<forall>p \<in> set m. reads_back (snd p) \<Longrightarrow> finv r0 (s\<lparr>fs_min := m\<rparr>)"
  "finv r0 s \<Longrightarrow> map_inv {''answerMsMax'', ''durationSecondsMax'', ''turnsMax''} m \<Longrightarrow>
     \<forall>p \<in> set m. reads_back (snd p) \<Longrightarrow> finv r0 (s\<lparr>fs_max := m\<rparr>)"
  "finv r0 s \<Longrightarrow> map_inv {''channel'', ''issues'', ''tag''} ls \<Longrightarrow> finv r0 (s\<lparr>fs_lists := ls\<rparr>)"
  "finv r0 s \<Longrightarrow> fst ` set ps \<subseteq> {''room'', ''unknown'', ''recorded''} \<Longrightarrow>
     up_get ps ''recorded'' \<in> {None, Some (flag_text r0)} \<Longrightarrow> finv r0 (s\<lparr>fs_params := ps\<rparr>)"
  "finv r0 s \<Longrightarrow> finv r0 (s\<lparr>fs_roomConflict := rc\<rparr>)"
  "finv r0 s \<Longrightarrow> finv r0 (s\<lparr>fs_fieldConflict := rc\<rparr>)"
  "finv r0 s \<Longrightarrow> finv r0 (s\<lparr>fs_dropped := d\<rparr>)"
  by (simp_all add: finv_def ball_Un)

lemma finv_at_least:
  assumes "finv r0 s" "reads_back n" "p \<in> set bounds"
  shows "finv r0 (at_least (snd p) n s)"
proof -
  have m: "map_inv {''answerMsMin'', ''durationSecondsMin'', ''turnsMin''} (fs_min s)"
    and r: "\<forall>q \<in> set (fs_min s). reads_back (snd q)" using assms(1) by (simp_all add: finv_def ball_Un)
  have "reads_back (case map_of (fs_min s) (bn_min (snd p)) of Some x \<Rightarrow> x | None \<Rightarrow> n)"
    using assms(2) r map_of_SomeD [of "fs_min s" "bn_min (snd p)"] by (cases "map_of (fs_min s) (bn_min (snd p))") auto
  from reads_back_max [OF this assms(2)] r show ?thesis unfolding at_least_def
    by (intro finv_updates(1) [OF assms(1)] map_inv_set [OF m bounds_names(1) [OF assms(3)]]) (auto dest!: set_mp_set)
qed

lemma finv_at_most:
  assumes "finv r0 s" "reads_back n" "p \<in> set bounds"
  shows "finv r0 (at_most (snd p) n s)"
proof -
  have m: "map_inv {''answerMsMax'', ''durationSecondsMax'', ''turnsMax''} (fs_max s)"
    and r: "\<forall>q \<in> set (fs_max s). reads_back (snd q)" using assms(1) by (simp_all add: finv_def ball_Un)
  have "reads_back (case map_of (fs_max s) (bn_max (snd p)) of Some x \<Rightarrow> x | None \<Rightarrow> n)"
    using assms(2) r map_of_SomeD [of "fs_max s" "bn_max (snd p)"] by (cases "map_of (fs_max s) (bn_max (snd p))") auto
  from reads_back_min [OF this assms(2)] r show ?thesis unfolding at_most_def
    by (intro finv_updates(2) [OF assms(1)] map_inv_set [OF m bounds_names(2) [OF assms(3)]]) (auto dest!: set_mp_set)
qed

section \<open>One turn of the loop\<close>

text \<open>What the equivalence asks of a chip: it has a value where its operator takes one, its numbers survive
  the query string, and all "recorded" chips ask the same.\<close>

definition chip_ok :: "(num option \<Rightarrow> string) \<Rightarrow> bool \<Rightarrow> fcondition \<Rightarrow> bool" where
  "chip_ok dt r0 k \<longleftrightarrow>
     (let vs = map (value_text dt) (fc_values k) in
      (fc_operator k = ''empty'' \<or> vs \<noteq> []) \<and>
      (fc_field k = ''recorded'' \<and> fc_operator k = ''is'' \<longrightarrow> (nth_opt vs 0 = Some ''true'') = r0) \<and>
      (map_of bounds (fc_field k) \<noteq> None \<longrightarrow> (\<forall>v \<in> set vs. reads_back (js_number v))))"

lemma reads_back_num_at: "\<forall>v \<in> set vs. reads_back (js_number v) \<Longrightarrow> reads_back (num_at vs i)"
  by (simp add: num_at_def nth_opt_def)

lemma finv_bound_step:
  assumes "finv r0 s" "p \<in> set bounds" "\<forall>v \<in> set vs. reads_back (js_number v)"
  shows "finv r0 (bound_step name opr (snd p) vs s)"
proof -
  note r = reads_back_num_at [OF assms(3)]
  have u: "finv r0 (s\<lparr>fs_params := up_append ''unknown'' x (fs_params s)\<rparr>)" for x
    using assms(1) by (intro finv_updates(4) [OF assms(1)]) (auto simp: finv_def up_append_def up_get_def map_add_def split: option.splits)
  show ?thesis
    unfolding bound_step_def
    by (simp add: u finv_at_least finv_at_most r assms(1,2) finv_updates(7) drop_text_def del: One_nat_def)
qed

lemma parseField_exec: "parseField t = Some p \<Longrightarrow> field_exec (fst p @ '':'' @ snd p) = Some p"
proof -
  assume a: "parseField t = Some p"
  define v where "v = trim t"
  obtain k r where p: "p = (k, r)" by fastforce
  from a have e: "field_exec v = Some (k, r)" by (simp add: parseField_def v_def p)
  then have k: "k = takeWhile key_char v" and r: "dropWhile key_char v = CHR '':'' # r"
    by (auto simp: field_exec_def Let_def split: list.splits if_splits)
  have "v = takeWhile key_char v @ dropWhile key_char v" by simp
  then have "v = k @ '':'' @ r" unfolding r k [symmetric] by simp
  with e p show ?thesis by simp
qed

lemma sat_field_step:
  assumes "finv r0 s" "fs_dropped s = []" "fs_dropped (field_step name vs s) = []"
  shows "sat c flds (field_step name vs s) \<longleftrightarrow> sat c flds s \<and>
      (case parseField (text_at0 vs []) of Some p \<Rightarrow> pair_holds flds p | None \<Rightarrow> False)"
    and "finv r0 (field_step name vs s)"
proof -
  obtain k v where p: "parseField (text_at0 vs []) = Some (k, v)"
    using assms(3) by (cases "parseField (text_at0 vs [])") (auto simp: field_step_def)
  have x: "field_exec (k @ '':'' @ v) = Some (k, v)" using parseField_exec [OF p] by simp
  show "sat c flds (field_step name vs s) \<longleftrightarrow> sat c flds s \<and>
      (case parseField (text_at0 vs []) of Some p \<Rightarrow> pair_holds flds p | None \<Rightarrow> False)"
  proof (cases "map_of (fs_fieldPairs s) k")
    case None
    with assms(2,3) p have e: "field_step name vs s = s\<lparr>fs_fieldPairs := fs_fieldPairs s @ [(k, v)]\<rparr>"
      by (auto simp: field_step_def Let_def split: if_splits)
    show ?thesis unfolding e sat_def p by (simp add: num_ok_params)
  next
    case (Some w)
    then have w: "(k, w) \<in> set (fs_fieldPairs s)" by (rule map_of_SomeD)
    from Some p have e: "field_step name vs s = s\<lparr>fs_fieldConflict := fs_fieldConflict s \<or> w \<noteq> v\<rparr>"
      by (simp add: field_step_def)
    have "pair_holds flds (k, w) \<Longrightarrow> pair_holds flds (k, v) \<longleftrightarrow> w = v"
      by (auto simp: pair_holds_def)
    moreover have "list_all (pair_holds flds) (fs_fieldPairs s) \<Longrightarrow> pair_holds flds (k, w)"
      using w by (auto simp: list_all_iff)
    ultimately show ?thesis unfolding e sat_def p by (simp add: num_ok_params) blast
  qed
  show "finv r0 (field_step name vs s)"
  proof (cases "map_of (fs_fieldPairs s) k")
    case None
    with assms(2,3) p have e: "field_step name vs s = s\<lparr>fs_fieldPairs := fs_fieldPairs s @ [(k, v)]\<rparr>"
      and l: "length (fs_fieldPairs s) < MAX_FIELDS"
      by (auto simp: field_step_def Let_def split: if_splits)
    from None have "k \<notin> fst ` set (fs_fieldPairs s)" by (simp add: map_of_eq_None_iff)
    with assms(1) x l show ?thesis unfolding e by (simp add: finv_def)
  next
    case (Some w)
    with p have e: "field_step name vs s = s\<lparr>fs_fieldConflict := fs_fieldConflict s \<or> w \<noteq> v\<rparr>"
      by (simp add: field_step_def)
    show ?thesis unfolding e by (rule finv_updates(6) [OF assms(1)])
  qed
qed

lemma finv_narrow: "finv r0 s \<Longrightarrow> fld \<in> {''channel'', ''issues'', ''tag''} \<Longrightarrow> finv r0 (narrow fld vs s)"
  unfolding narrow_def by (intro finv_updates(3) map_inv_set) (simp_all add: finv_def)

text \<open>Each turn keeps the form of the variables and adds exactly what its chip asks.\<close>

lemma sat_step:
  assumes inv: "finv r0 s" and ok: "chip_ok dt r0 k" and d0: "fs_dropped s = []"
    and d: "fs_dropped (filter_step dt labels k s) = []"
  shows "(sat c flds (filter_step dt labels k s) \<longleftrightarrow> sat c flds s \<and> chip_holds dt c flds k) \<and>
    finv r0 (filter_step dt labels k s)"
proof -
  define vs where "vs = map (value_text dt) (fc_values k)"
  define fld where "fld = fc_field k"
  define name where "name = or_val (labels fld) fld"
  define opr where "opr = fc_operator k"
  note defs = vs_def [symmetric] fld_def [symmetric] name_def [symmetric] opr_def [symmetric]
  from ok have vs: "opr = ''empty'' \<or> vs \<noteq> []"
    and rec: "fld = ''recorded'' \<and> opr = ''is'' \<Longrightarrow> (nth_opt vs 0 = Some ''true'') = r0"
    and num: "map_of bounds fld \<noteq> None \<Longrightarrow> \<forall>v \<in> set vs. reads_back (js_number v)"
    unfolding chip_ok_def Let_def defs by blast+
  have neg: "\<not> fc_negated k" using d by (auto simp: filter_step_def Let_def)
  have st: "filter_step dt labels k s = X" if "X = (if fld = ''room'' \<and> opr = ''is'' then
           s\<lparr>fs_roomConflict := fs_roomConflict s \<or>
               (up_has (fs_params s) ''room'' \<and> up_get (fs_params s) ''room'' \<noteq> nth_opt vs 0),
             fs_params := up_set ''room'' (text_at0 vs ''undefined'') (fs_params s)\<rparr>
         else if (fld = ''channel'' \<or> fld = ''issues'') \<and> opr \<in> {''is'', ''is_any_of''} then narrow fld vs s
         else if fld = ''channel'' \<and> opr \<in> {''is_not'', ''is_none_of''} then
           narrow ''channel'' (filter (\<lambda>x. x \<notin> set vs) channel_names) s
         else (case map_of bounds fld of
                 Some b \<Rightarrow> bound_step name opr b vs s
               | None \<Rightarrow>
                   if fld = ''recorded'' \<and> opr = ''is'' then
                     s\<lparr>fs_params := up_set ''recorded''
                         (if nth_opt vs 0 = Some ''true'' then ''true'' else ''false'') (fs_params s)\<rparr>
                   else if fld = ''tag'' \<and> opr = ''has_any_of'' then
                     (if mp_has (fs_lists s) ''tag'' then drop_text (''a second '' @ name @ '' filter'') s
                      else s\<lparr>fs_lists := mp_set ''tag'' (uniq vs) (fs_lists s)\<rparr>)
                   else if fld = ''field'' \<and> opr = ''is'' then field_step name vs s
                   else drop_text (name @ '' '' @ opr) s))" for X
    unfolding that filter_step_def Let_def defs using neg by (simp only: if_False)
  note hd = chip_holds_def [of dt c flds k, unfolded Let_def, unfolded defs]
  have bc: "fld \<in> {''answer'', ''length'', ''turns''}" if "map_of bounds fld = Some b" for b
    using bounds_cases that by blast
  have last: "filter_step dt labels k s = drop_text (name @ '' '' @ opr) s"
    if "\<not> (fld = ''room'' \<and> opr = ''is'')" "\<not> ((fld = ''channel'' \<or> fld = ''issues'') \<and> opr \<in> {''is'', ''is_any_of''})"
      "\<not> (fld = ''channel'' \<and> opr \<in> {''is_not'', ''is_none_of''})" "map_of bounds fld = None"
      "\<not> (fld = ''recorded'' \<and> opr = ''is'')" "\<not> (fld = ''tag'' \<and> opr = ''has_any_of'')"
      "\<not> (fld = ''field'' \<and> opr = ''is'')"
    unfolding st [OF refl] by (simp only: that if_False option.case)
  consider (room) "fld = ''room'' \<and> opr = ''is''"
    | (narrowc) "(fld = ''channel'' \<or> fld = ''issues'') \<and> opr \<in> {''is'', ''is_any_of''}"
    | (notch) "fld = ''channel'' \<and> opr \<in> {''is_not'', ''is_none_of''}"
    | (bnd) b where "map_of bounds fld = Some b"
    | (recd) "fld = ''recorded'' \<and> opr = ''is''"
    | (tag) "fld = ''tag'' \<and> opr = ''has_any_of''"
    | (fieldc) "fld = ''field'' \<and> opr = ''is''"
    | (no) "filter_step dt labels k s = drop_text (name @ '' '' @ opr) s"
    using last by (metis not_None_eq)
  then show ?thesis
  proof cases
    case room
    with vs obtain v ws where v: "vs = v # ws" by (cases vs) auto
    from room v have e: "filter_step dt labels k s = s\<lparr>fs_roomConflict := fs_roomConflict s \<or>
        (up_has (fs_params s) ''room'' \<and> up_get (fs_params s) ''room'' \<noteq> Some v),
        fs_params := up_set ''room'' v (fs_params s)\<rparr>"
      unfolding st [OF refl] by (simp add: nth_opt_def text_at0_def)
    have "finv r0 (filter_step dt labels k s)" unfolding e
      using inv keys_up_set [of "''room''" v "fs_params s"]
      by (intro finv_updates(4) finv_updates(5) [OF inv]) (auto simp: finv_def up_store.get_put)
    moreover from room v have "chip_holds dt c flds k \<longleftrightarrow> cs_room c = v" unfolding hd by (simp add: text_at0_def)
    ultimately show ?thesis by (simp add: e sat_room)
  next
    case narrowc
    then have e: "filter_step dt labels k s = narrow fld vs s" unfolding st [OF refl] by auto
    from narrowc consider "fld = ''channel''" | "fld = ''issues''" by blast
    then show ?thesis
    proof cases
      case 1
      with narrowc have "chip_holds dt c flds k \<longleftrightarrow> channel_name (cs_channel c) \<in> set vs" unfolding hd by auto
      then show ?thesis unfolding e 1 using finv_narrow [OF inv] by (simp add: sat_narrow_channel)
    next
      case 2
      with narrowc have "chip_holds dt c flds k \<longleftrightarrow> severity_in c vs" unfolding hd by auto
      then show ?thesis unfolding e 2 using finv_narrow [OF inv] by (simp add: sat_narrow_issues)
    qed
  next
    case notch
    then have e: "filter_step dt labels k s = narrow ''channel'' (filter (\<lambda>x. x \<notin> set vs) channel_names) s"
      unfolding st [OF refl] by auto
    from notch have "chip_holds dt c flds k \<longleftrightarrow> channel_name (cs_channel c) \<notin> set vs" unfolding hd by auto
    then show ?thesis unfolding e
      using finv_narrow [OF inv, of "''channel''" "filter (\<lambda>x. x \<notin> set vs) channel_names"] channel_name_listed
      by (simp add: sat_narrow_channel)
  next
    case bnd
    note f = bc [OF bnd]
    from bnd f have e: "filter_step dt labels k s = bound_step name opr b vs s" unfolding st [OF refl] by auto
    from bnd f have h: "chip_holds dt c flds k \<longleftrightarrow> bound_holds opr vs (bound_value b c)" unfolding hd by auto
    from bounds_cases [OF bnd] have p: "(fld, b) \<in> set bounds" by simp
    show ?thesis unfolding e h
      using sat_bound_step [OF p, of name opr vs s c flds] d finv_bound_step [OF inv p, of vs name opr] num bnd
      unfolding e by simp
  next
    case recd
    then have e: "filter_step dt labels k s =
        s\<lparr>fs_params := up_set ''recorded'' (if r0 then ''true'' else ''false'') (fs_params s)\<rparr>"
      unfolding st [OF refl] using rec by (simp add: bounds_def)
    have u: "up_get (fs_params s) ''recorded'' = None \<or>
        up_get (fs_params s) ''recorded'' = Some (if r0 then ''true'' else ''false'')"
      using inv by (simp add: finv_def flag_text_def)
    have "finv r0 (filter_step dt labels k s)" unfolding e
    proof (rule finv_updates(4) [OF inv])
      show "fst ` set (up_set ''recorded'' (if r0 then ''true'' else ''false'') (fs_params s))
          \<subseteq> {''room'', ''unknown'', ''recorded''}"
        by (rule subset_trans [OF keys_up_set]) (use inv in \<open>simp add: finv_def\<close>)
    qed (simp add: up_store.get_put flag_text_def)
    moreover from recd have "chip_holds dt c flds k \<longleftrightarrow> cs_recorded c = r0" unfolding hd using rec
      by (simp add: bounds_def)
    ultimately show ?thesis by (simp add: e sat_recorded [OF u])
  next
    case tag
    from tag d have m: "\<not> mp_has (fs_lists s) ''tag''" unfolding st [OF refl] by (auto simp: bounds_def)
    with tag have e: "filter_step dt labels k s = s\<lparr>fs_lists := mp_set ''tag'' (uniq vs) (fs_lists s)\<rparr>"
      unfolding st [OF refl] by (simp add: bounds_def)
    from tag have "chip_holds dt c flds k \<longleftrightarrow> set vs \<inter> set (cs_tags c) \<noteq> {}" unfolding hd by (simp add: bounds_def)
    moreover have "finv r0 (filter_step dt labels k s)" unfolding e
      using inv by (intro finv_updates(3) [OF inv] map_inv_set) (simp_all add: finv_def)
    ultimately show ?thesis using m by (simp add: e sat_tag mp_has_def)
  next
    case fieldc
    then have e: "filter_step dt labels k s = field_step name vs s" unfolding st [OF refl] by (simp add: bounds_def)
    from fieldc have h: "chip_holds dt c flds k \<longleftrightarrow>
        (case parseField (text_at0 vs []) of Some p \<Rightarrow> pair_holds flds p | None \<Rightarrow> False)"
      unfolding hd by (simp add: bounds_def)
    show ?thesis unfolding e h using sat_field_step [OF inv d0 d [unfolded e]] by blast
  next
    case no
    with d show ?thesis by simp
  qed
qed

lemma dropped_keeps:
  "prefix (fs_dropped s) (fs_dropped (drop_text t s))"
  "fs_dropped (narrow k vs s) = fs_dropped s" "fs_dropped (at_least b n s) = fs_dropped s"
  "fs_dropped (at_most b n s) = fs_dropped s"
  by (simp_all add: step_defs)

lemma dropped_bound: "prefix (fs_dropped s) (fs_dropped (bound_step name opr b vs s))"
  by (simp add: bound_step_def dropped_keeps)

lemma dropped_field: "prefix (fs_dropped s) (fs_dropped (field_step name vs s))"
  by (simp add: field_step_def dropped_keeps Let_def split: option.split prod.split)

lemma dropped_grows: "fs_dropped (filter_step dt labels k s) = [] \<Longrightarrow> fs_dropped s = []"
proof -
  have "prefix (fs_dropped s) (fs_dropped (filter_step dt labels k s))"
    unfolding filter_step_def Let_def
    by (simp add: dropped_keeps dropped_bound dropped_field split: option.split)
  then show "fs_dropped (filter_step dt labels k s) = [] \<Longrightarrow> fs_dropped s = []" by simp
qed

lemma sat_loop:
  assumes "list_all (chip_ok dt r0) ks" "finv r0 s"
    and "fs_dropped (foldl (\<lambda>s k. filter_step dt labels k s) s ks) = []"
  shows "(sat c flds (foldl (\<lambda>s k. filter_step dt labels k s) s ks) \<longleftrightarrow> sat c flds s \<and> list_all (chip_holds dt c flds) ks) \<and>
    finv r0 (foldl (\<lambda>s k. filter_step dt labels k s) s ks)"
  using assms
proof (induction ks arbitrary: s)
  case Nil
  then show ?case by simp
next
  case (Cons k ks)
  let ?s = "filter_step dt labels k s"
  have end0: "fs_dropped (foldl (\<lambda>s k. filter_step dt labels k s) ?s ks) = []" using Cons.prems(3) by simp
  have none_before: "fs_dropped (foldl (\<lambda>s k. filter_step dt labels k s) t ls) = [] \<Longrightarrow> fs_dropped t = []" for t ls
  proof (induction ls arbitrary: t)
    case (Cons k ls)
    have "fs_dropped (filter_step dt labels k t) = []"
      by (rule Cons.IH [OF Cons.prems [unfolded foldl_Cons]])
    then show ?case by (rule dropped_grows)
  qed simp
  from none_before [OF end0] have d: "fs_dropped ?s = []" .
  have ok: "chip_ok dt r0 k" using Cons.prems(1) by simp
  note both = sat_step [OF Cons.prems(2) ok dropped_grows [OF d] d, of c flds]
  have st: "sat c flds ?s \<longleftrightarrow> sat c flds s \<and> chip_holds dt c flds k" using both by blast
  have inv: "finv r0 ?s" using both by blast
  show ?case using Cons.IH [OF _ inv end0] Cons.prems(1) st by simp
qed

lemma sat_start: "sat c flds (fstate0 d)"
  by (simp add: sat_def fstate0_def up_get_def list_all_iff num_ok_def up_getAll_def)

lemma finv_start: "finv r0 (fstate0 d)"
  by (simp add: finv_def fstate0_def map_inv_def up_get_def)

section \<open>What the query string says\<close>

definition texts :: "(string \<times> jsnum) list \<Rightarrow> params" where
  "texts m = map (\<lambda>(k, v). (k, js_num_text v)) m"

lemma getAll_fields:
  "up_getAll (foldl (\<lambda>ps (k, v). up_append ''field'' (k @ '':'' @ v) ps) ps fp) key =
     up_getAll ps key @ (if key = ''field'' then map (\<lambda>(k, v). k @ '':'' @ v) fp else [])"
proof (induction fp arbitrary: ps)
  case (Cons p fp)
  then show ?case by (cases p) (simp add: up_getAll_append)
qed simp

lemma getAll_values:
  "up_getAll (foldl (\<lambda>ps v. up_append k v ps) ps vs) key = up_getAll ps key @ (if key = k then vs else [])"
  by (induction vs arbitrary: ps) (simp_all add: up_getAll_append)

lemma getAll_lists:
  "distinct (map fst ls) \<Longrightarrow> up_getAll (foldl (\<lambda>ps (k, vs). foldl (\<lambda>ps v. up_append k v ps) ps vs) ps ls) key =
     up_getAll ps key @ list_or (map_of ls key)"
proof (induction ls arbitrary: ps)
  case (Cons p ls)
  obtain k vs where p: "p = (k, vs)" by fastforce
  have "map_of ls k = None" using Cons.prems p by (simp add: map_of_eq_None_iff)
  with Cons p show ?case by (simp add: getAll_values)
qed simp

lemma getAll_numbers:
  "distinct (map fst m) \<Longrightarrow> up_getAll (foldl (\<lambda>ps (k, v). up_set k (js_num_text v) ps) ps m) key =
     (case map_of m key of Some v \<Rightarrow> [js_num_text v] | None \<Rightarrow> up_getAll ps key)"
proof (induction m arbitrary: ps)
  case (Cons p m)
  obtain k v where p: "p = (k, v)" by fastforce
  have "map_of m k = None" using Cons.prems p by (simp add: map_of_eq_None_iff)
  with Cons p show ?case by (auto simp: up_getAll_set split: option.splits)
qed simp

lemma getAll_other: "key \<notin> fst ` set ps \<Longrightarrow> up_getAll ps key = []"
  by (auto simp: up_getAll_def filter_empty_conv)

lemma map_of_other: "map_inv ks m \<Longrightarrow> key \<notin> ks \<Longrightarrow> map_of m key = None"
  by (auto simp: map_inv_def map_of_eq_None_iff)

text \<open>Every parameter of the finished query string.\<close>

lemma finished_params:
  assumes "finv r0 s"
  shows "up_getAll (sv_params (finish_filter s)) key =
    (case map_of (fs_max s) key of Some v \<Rightarrow> [js_num_text v] | None \<Rightarrow>
      (case map_of (fs_min s) key of Some v \<Rightarrow> [js_num_text v] | None \<Rightarrow>
        up_getAll (fs_params s) key @
        (if key = ''field'' then map (\<lambda>(k, v). k @ '':'' @ v) (fs_fieldPairs s) else []) @
        list_or (map_of (fs_lists s) key)))"
proof -
  have "distinct (map fst (fs_lists s))" "distinct (map fst (fs_min s))" "distinct (map fst (fs_max s))"
    using assms by (simp_all add: finv_def map_inv_def)
  then show ?thesis
    by (simp only: finish_filter_def Let_def server_filter.simps getAll_numbers getAll_lists getAll_fields append_assoc)
qed

lemma andThen_Inr: "andThen r k = Inr y \<longleftrightarrow> (\<exists>x. r = Inr x \<and> k x = Inr y)"
  by (cases r) (auto simp: andThen_def)

lemma allowed_list_Inr:
  "allowed_list k al vs = Inr xs \<longleftrightarrow> list_all2 (\<lambda>v x. map_of al v = Some x) vs xs"
  by (induction vs arbitrary: xs) (auto simp: andThen_Inr list_all2_Cons1 split: option.splits)

lemma field_list_Inr: "field_list vs = Inr ps \<longleftrightarrow> list_all2 (\<lambda>v p. field_exec v = Some p) vs ps"
  by (induction vs arbitrary: ps) (auto simp: andThen_Inr list_all2_Cons1 split: option.splits)

lemma up_get_of_all: "up_getAll ps k = xs \<Longrightarrow> up_get ps k = (case xs of [] \<Rightarrow> None | v # _ \<Rightarrow> Some v)"
  by (simp add: up_get_all)

lemma num_param_value:
  assumes "num_param q k w = Inr o1" "up_getAll q k = (case b of Some n \<Rightarrow> [js_num_text n] | None \<Rightarrow> [])"
    and "pred_option reads_back b"
  shows "b = map_option Num o1"
proof (cases b)
  case None
  with assms show ?thesis by (simp add: num_param_def up_get_all)
next
  case (Some n)
  with assms(2) have g: "up_get q k = Some (js_num_text n)" by (simp add: up_get_all)
  have r: "js_number (js_num_text n) = n" using assms(3) Some by (simp add: reads_back_def)
  show ?thesis using assms(1) Some g r by (cases n) (auto simp: num_param_def split: if_splits)
qed

lemma in_range_bounds:
  "in_range v lo hi \<longleftrightarrow> pred_option (has_least v) (map_option Num lo) \<and> pred_option (has_most v) (map_option Num hi)"
  by (cases v; cases lo; cases hi) (auto simp: in_range_def has_least_def has_most_def)

text \<open>The parameters of a finished query, by kind.\<close>

lemma param_lists:
  assumes "finv r0 s"
  shows "up_getAll (sv_params (finish_filter s)) ''channel'' = list_or (map_of (fs_lists s) ''channel'')"
    and "up_getAll (sv_params (finish_filter s)) ''issues'' = list_or (map_of (fs_lists s) ''issues'')"
    and "up_getAll (sv_params (finish_filter s)) ''tag'' = list_or (map_of (fs_lists s) ''tag'')"
    and "up_getAll (sv_params (finish_filter s)) ''room'' = up_getAll (fs_params s) ''room''"
    and "up_getAll (sv_params (finish_filter s)) ''recorded'' = up_getAll (fs_params s) ''recorded''"
    and "up_getAll (sv_params (finish_filter s)) ''unknown'' = up_getAll (fs_params s) ''unknown''"
    and "up_getAll (sv_params (finish_filter s)) ''field'' = map (\<lambda>(k, v). k @ '':'' @ v) (fs_fieldPairs s)"
    and "up_getAll (sv_params (finish_filter s)) ''from'' = []"
    and "up_getAll (sv_params (finish_filter s)) ''to'' = []"
    and "up_getAll (sv_params (finish_filter s)) ''archived'' = []"
proof -
  from assms have m: "map_inv {''answerMsMin'', ''durationSecondsMin'', ''turnsMin''} (fs_min s)"
    "map_inv {''answerMsMax'', ''durationSecondsMax'', ''turnsMax''} (fs_max s)"
    "map_inv {''channel'', ''issues'', ''tag''} (fs_lists s)"
    and p: "fst ` set (fs_params s) \<subseteq> {''room'', ''unknown'', ''recorded''}"
    by (simp_all add: finv_def)
  have np: "up_getAll (fs_params s) k = []" if "k \<notin> {''room'', ''unknown'', ''recorded''}" for k
    using p that by (intro getAll_other) blast
  note f = finished_params [OF assms]
  show "up_getAll (sv_params (finish_filter s)) ''channel'' = list_or (map_of (fs_lists s) ''channel'')"
    "up_getAll (sv_params (finish_filter s)) ''issues'' = list_or (map_of (fs_lists s) ''issues'')"
    "up_getAll (sv_params (finish_filter s)) ''tag'' = list_or (map_of (fs_lists s) ''tag'')"
    "up_getAll (sv_params (finish_filter s)) ''room'' = up_getAll (fs_params s) ''room''"
    "up_getAll (sv_params (finish_filter s)) ''recorded'' = up_getAll (fs_params s) ''recorded''"
    "up_getAll (sv_params (finish_filter s)) ''unknown'' = up_getAll (fs_params s) ''unknown''"
    "up_getAll (sv_params (finish_filter s)) ''field'' = map (\<lambda>(k, v). k @ '':'' @ v) (fs_fieldPairs s)"
    "up_getAll (sv_params (finish_filter s)) ''from'' = []"
    "up_getAll (sv_params (finish_filter s)) ''to'' = []"
    "up_getAll (sv_params (finish_filter s)) ''archived'' = []"
    unfolding f by (simp_all add: map_of_other [OF m(1)] map_of_other [OF m(2)] map_of_other [OF m(3)] np)
qed

lemma param_numbers:
  assumes "finv r0 s" "p \<in> set bounds"
  shows "up_getAll (sv_params (finish_filter s)) (bn_min (snd p)) =
      (case map_of (fs_min s) (bn_min (snd p)) of Some n \<Rightarrow> [js_num_text n] | None \<Rightarrow> [])"
    and "up_getAll (sv_params (finish_filter s)) (bn_max (snd p)) =
      (case map_of (fs_max s) (bn_max (snd p)) of Some n \<Rightarrow> [js_num_text n] | None \<Rightarrow> [])"
    and "pred_option reads_back (map_of (fs_min s) (bn_min (snd p)))"
    and "pred_option reads_back (map_of (fs_max s) (bn_max (snd p)))"
proof -
  from assms(1) have m: "map_inv {''answerMsMin'', ''durationSecondsMin'', ''turnsMin''} (fs_min s)"
    "map_inv {''answerMsMax'', ''durationSecondsMax'', ''turnsMax''} (fs_max s)"
    "map_inv {''channel'', ''issues'', ''tag''} (fs_lists s)"
    and p: "fst ` set (fs_params s) \<subseteq> {''room'', ''unknown'', ''recorded''}"
    and r0: "\<forall>p \<in> set (fs_min s) \<union> set (fs_max s). reads_back (snd p)"
    by (simp_all add: finv_def)
  have r: "\<And>k n. (k, n) \<in> set (fs_min s) \<Longrightarrow> reads_back n" "\<And>k n. (k, n) \<in> set (fs_max s) \<Longrightarrow> reads_back n"
    using r0 by (metis UnCI snd_conv)+
  have np: "up_getAll (fs_params s) k = []" if "k \<notin> {''room'', ''unknown'', ''recorded''}" for k
    using p that by (intro getAll_other) blast
  note f = finished_params [OF assms(1)]
  show "up_getAll (sv_params (finish_filter s)) (bn_min (snd p)) =
      (case map_of (fs_min s) (bn_min (snd p)) of Some n \<Rightarrow> [js_num_text n] | None \<Rightarrow> [])"
    using bounds_names(1) [OF assms(2)] unfolding f insert_iff empty_iff
    by (elim disjE) (simp_all add: map_of_other [OF m(2)] map_of_other [OF m(3)] np cong: option.case_cong)
  show "up_getAll (sv_params (finish_filter s)) (bn_max (snd p)) =
      (case map_of (fs_max s) (bn_max (snd p)) of Some n \<Rightarrow> [js_num_text n] | None \<Rightarrow> [])"
    using bounds_names(2) [OF assms(2)] unfolding f insert_iff empty_iff
    by (elim disjE) (simp_all add: map_of_other [OF m(1)] map_of_other [OF m(3)] np cong: option.case_cong)
  show "pred_option reads_back (map_of (fs_min s) (bn_min (snd p)))"
    using r map_of_SomeD [of "fs_min s" "bn_min (snd p)"] by (cases "map_of (fs_min s) (bn_min (snd p))") auto
  show "pred_option reads_back (map_of (fs_max s) (bn_max (snd p)))"
    using r map_of_SomeD [of "fs_max s" "bn_max (snd p)"] by (cases "map_of (fs_max s) (bn_max (snd p))") auto
qed

text \<open>Repeated values read by name mean what the names mean.\<close>

lemma list_param_named:
  assumes "list_param q k al = Inr o1" "up_getAll q k = vs" "vs \<noteq> []"
    and "\<And>v x. map_of al v = Some x \<Longrightarrow> v = name x"
  shows "\<exists>xs. o1 = Some xs \<and> vs = map name xs"
proof -
  from assms(1-3) obtain xs where x: "o1 = Some xs" "list_all2 (\<lambda>v x. map_of al v = Some x) vs xs"
    by (auto simp: list_param_def andThen_Inr allowed_list_Inr)
  from x(2) assms(4) have "vs = map name xs" by (induction rule: list_all2_induct) auto
  with x show ?thesis by blast
qed

lemma named_tables:
  "map_of CHANNELS v = Some x \<Longrightarrow> v = channel_name x" "map_of SEVERITIES w = Some y \<Longrightarrow> w = sev_name y"
  by (auto simp: CHANNELS_def SEVERITIES_def split: if_splits)

lemma sev_name_inj [simp]: "sev_name a = sev_name b \<longleftrightarrow> a = b"
  by (cases a; cases b) simp_all

definition unknown_name :: "unknown_key \<Rightarrow> string" where
  "unknown_name k = (case k of UnkAnswer \<Rightarrow> ''answerMs'' | UnkDuration \<Rightarrow> ''durationSeconds'' | UnkTurns \<Rightarrow> ''turnCount'')"

lemma unknown_table: "map_of UNKNOWNS v = Some x \<longleftrightarrow> v = unknown_name x"
  by (cases x) (auto simp: UNKNOWNS_def unknown_name_def)

lemma field_list_back:
  "list_all2 (\<lambda>v p. field_exec v = Some p) (map (\<lambda>(k, v). k @ '':'' @ v) fp) ps \<Longrightarrow>
     (\<forall>p \<in> set fp. field_exec (fst p @ '':'' @ snd p) = Some p) \<Longrightarrow> ps = fp"
  by (induction fp arbitrary: ps) (auto simp: list_all2_Cons1 case_prod_unfold)

section \<open>Agreement\<close>

lemma parse_parts:
  assumes "parseFilters q = Inr f"
  shows "time_param q ''from'' = Inr (cf_from f)" "time_param q ''to'' = Inr (cf_to f)"
    "up_get q ''room'' = cf_room f"
    "list_param q ''channel'' CHANNELS = Inr (cf_channel f)" "list_param q ''issues'' SEVERITIES = Inr (cf_issues f)"
    "num_param q ''answerMsMin'' False = Inr (cf_answerMsMin f)" "num_param q ''answerMsMax'' False = Inr (cf_answerMsMax f)"
    "num_param q ''durationSecondsMin'' False = Inr (cf_durationSecondsMin f)"
    "num_param q ''durationSecondsMax'' False = Inr (cf_durationSecondsMax f)"
    "num_param q ''turnsMin'' True = Inr (cf_turnsMin f)" "num_param q ''turnsMax'' True = Inr (cf_turnsMax f)"
    "list_param q ''unknown'' UNKNOWNS = Inr (cf_unknown f)" "field_param q = Inr (cf_field f)"
    "bool_param q ''recorded'' = Inr (cf_recorded f)" "bool_param q ''archived'' = Inr (cf_archived f)"
    "cf_tag f = (if up_getAll q ''tag'' = [] then None else Some (up_getAll q ''tag''))"
proof -
  from assms obtain a1 a2 a3 a4 a5 a6 a7 a8 a9 a10 a11 a12 a13 a14 a15 a16 where
    "time_param q ''from'' = Inr a1" "time_param q ''to'' = Inr a2"
    "list_param q ''channel'' CHANNELS = Inr a3" "list_param q ''issues'' SEVERITIES = Inr a4"
    "num_param q ''answerMsMin'' False = Inr a5" "num_param q ''answerMsMax'' False = Inr a6"
    "num_param q ''durationSecondsMin'' False = Inr a7" "num_param q ''durationSecondsMax'' False = Inr a8"
    "num_param q ''turnsMin'' True = Inr a9" "num_param q ''turnsMax'' True = Inr a10"
    "list_param q ''unknown'' UNKNOWNS = Inr a11" "field_param q = Inr a12"
    "bool_param q ''recorded'' = Inr a13" "bool_param q ''archived'' = Inr a14" "sort_param q = Inr a15"
    "order_param q = Inr a16"
    and "f = \<lparr>cf_from = a1, cf_to = a2, cf_room = up_get q ''room'', cf_channel = a3, cf_issues = a4,
            cf_answerMsMin = a5, cf_answerMsMax = a6, cf_durationSecondsMin = a7,
            cf_durationSecondsMax = a8, cf_turnsMin = a9, cf_turnsMax = a10, cf_unknown = a11,
            cf_tag = (if up_getAll q ''tag'' = [] then None else Some (up_getAll q ''tag'')),
            cf_field = a12, cf_recorded = a13, cf_archived = a14, cf_sort = a15, cf_order = a16\<rparr>"
    unfolding parseFilters_def andThen_Inr by (elim exE conjE) simp
  then show "time_param q ''from'' = Inr (cf_from f)" "time_param q ''to'' = Inr (cf_to f)"
    "up_get q ''room'' = cf_room f"
    "list_param q ''channel'' CHANNELS = Inr (cf_channel f)" "list_param q ''issues'' SEVERITIES = Inr (cf_issues f)"
    "num_param q ''answerMsMin'' False = Inr (cf_answerMsMin f)" "num_param q ''answerMsMax'' False = Inr (cf_answerMsMax f)"
    "num_param q ''durationSecondsMin'' False = Inr (cf_durationSecondsMin f)"
    "num_param q ''durationSecondsMax'' False = Inr (cf_durationSecondsMax f)"
    "num_param q ''turnsMin'' True = Inr (cf_turnsMin f)" "num_param q ''turnsMax'' True = Inr (cf_turnsMax f)"
    "list_param q ''unknown'' UNKNOWNS = Inr (cf_unknown f)" "field_param q = Inr (cf_field f)"
    "bool_param q ''recorded'' = Inr (cf_recorded f)" "bool_param q ''archived'' = Inr (cf_archived f)"
    "cf_tag f = (if up_getAll q ''tag'' = [] then None else Some (up_getAll q ''tag''))"
    by simp_all
qed

lemma empty_params:
  "up_getAll q k = [] \<Longrightarrow> time_param q k = Inr o1 \<Longrightarrow> o1 = None"
  "up_getAll q k = [] \<Longrightarrow> bool_param q k = Inr o2 \<Longrightarrow> o2 = None"
  "up_getAll q k = [] \<Longrightarrow> list_param q k al = Inr o3 \<Longrightarrow> o3 = None"
  by (simp_all add: time_param_def bool_param_def list_param_def up_get_all)

lemma num_ok_iff:
  assumes "map_of (fs_min s) (bn_min b) = map_option Num lo" "map_of (fs_max s) (bn_max b) = map_option Num hi"
  shows "num_ok s b v \<longleftrightarrow> in_range v lo hi \<and> (bn_unknown b \<in> set (up_getAll (fs_params s) ''unknown'') \<longrightarrow> v = None)"
  using assms by (cases lo; cases hi) (simp_all add: num_ok_def in_range_bounds)

lemma num_ok_possible:
  assumes "num_ok s b v" "up_getAll ps ''unknown'' = up_getAll (fs_params s) ''unknown''"
  shows "\<not> bound_nothing s ps b"
proof -
  have lt: "js_lt hi lo \<Longrightarrow> has_least v lo \<Longrightarrow> has_most v hi \<Longrightarrow> False" for lo hi
    by (cases v; cases lo; cases hi) (auto simp: has_least_def has_most_def)
  have some: "has_least None n = False" "has_most None n = False" for n
    by (simp_all add: has_least_def has_most_def)
  show ?thesis
    using assms lt some
    by (cases "map_of (fs_min s) (bn_min b)"; cases "map_of (fs_max s) (bn_max b)")
      (auto simp: num_ok_def bound_nothing_def Let_def)
qed

lemma unknowns_hold:
  assumes "list_param q ''unknown'' UNKNOWNS = Inr o1"
  shows "(case o1 of None \<Rightarrow> True | Some ks \<Rightarrow> list_all (\<lambda>k. valueOf k c = None) ks) \<longleftrightarrow>
    list_all (\<lambda>p. bn_unknown (snd p) \<in> set (up_getAll q ''unknown'') \<longrightarrow> bound_value (snd p) c = None) bounds"
proof -
  have v: "bound_value b c = valueOf k c" if "bn_unknown b = unknown_name k" for b k
    using that by (simp add: bound_value_def unknown_table [THEN iffD2])
  have b: "map unknown_name [UnkAnswer, UnkDuration, UnkTurns] = map (bn_unknown \<circ> snd) bounds"
    by (simp add: bounds_def unknown_name_def)
  have all: "list_all (\<lambda>p. bn_unknown (snd p) \<in> U \<longrightarrow> bound_value (snd p) c = None) bounds \<longleftrightarrow>
      (\<forall>k. unknown_name k \<in> U \<longrightarrow> valueOf k c = None)" for U
  proof -
    have "(\<forall>k. P k) \<longleftrightarrow> P UnkAnswer \<and> P UnkDuration \<and> P UnkTurns" for P
      by (metis unknown_key.exhaust)
    then show ?thesis
      by (simp add: bounds_def unknown_name_def bound_value_def UNKNOWNS_def)
  qed
  show ?thesis
  proof (cases "up_getAll q ''unknown'' = []")
    case True
    with empty_params(3) [OF True assms] show ?thesis unfolding all by simp
  next
    case False
    from list_param_named [OF assms refl False, of unknown_name] unknown_table obtain ks where
      "o1 = Some ks" "up_getAll q ''unknown'' = map unknown_name ks" by blast
    moreover have "unknown_name a = unknown_name b \<longleftrightarrow> a = b" for a b
      by (cases a; cases b) (simp_all add: unknown_name_def)
    ultimately show ?thesis unfolding all by (auto simp: list_all_iff image_iff)
  qed
qed

lemma channel_holds:
  assumes "list_param q ''channel'' CHANNELS = Inr o1" "up_getAll q ''channel'' = list_or l" "l \<noteq> Some []"
  shows "(case o1 of None \<Rightarrow> True | Some xs \<Rightarrow> cs_channel c \<in> set xs) \<longleftrightarrow>
    pred_option (\<lambda>vs. channel_name (cs_channel c) \<in> set vs) l"
proof (cases l)
  case None
  with empty_params(3) [OF _ assms(1)] assms(2) show ?thesis by simp
next
  case (Some vs)
  with assms(2,3) list_param_named [OF assms(1), of vs channel_name] named_tables(1)
  obtain xs where "o1 = Some xs" "vs = map channel_name xs" by auto
  with Some show ?thesis by auto
qed

lemma issues_hold:
  assumes "list_param q ''issues'' SEVERITIES = Inr o1" "up_getAll q ''issues'' = list_or l" "l \<noteq> Some []"
  shows "(case o1 of None \<Rightarrow> True | Some xs \<Rightarrow> (case severity_of c of None \<Rightarrow> False | Some s \<Rightarrow> s \<in> set xs)) \<longleftrightarrow>
    pred_option (severity_in c) l"
proof (cases l)
  case None
  with empty_params(3) [OF _ assms(1)] assms(2) show ?thesis by simp
next
  case (Some vs)
  with assms(2,3) list_param_named [OF assms(1), of vs sev_name] named_tables(2)
  obtain xs where "o1 = Some xs" "vs = map sev_name xs" by auto
  with Some show ?thesis by (cases "severity_of c") (auto simp: severity_in_def)
qed

lemma recorded_holds:
  assumes "bool_param q ''recorded'' = Inr o1" "up_getAll q ''recorded'' = up_getAll ps ''recorded''"
  shows "(case o1 of None \<Rightarrow> True | Some b \<Rightarrow> cs_recorded c = b) \<longleftrightarrow>
    pred_option (\<lambda>v. cs_recorded c = (v = ''true'')) (up_get ps ''recorded'')"
proof -
  have "up_get q ''recorded'' = up_get ps ''recorded''" using assms(2) by (simp add: up_get_all)
  with assms(1) show ?thesis
    by (cases "up_get ps ''recorded''") (auto simp: bool_param_def split: if_splits)
qed

lemma fields_hold:
  assumes "field_param q = Inr o1" "up_getAll q ''field'' = map (\<lambda>(k, v). k @ '':'' @ v) fp"
    and "\<forall>p \<in> set fp. field_exec (fst p @ '':'' @ snd p) = Some p"
  shows "matchesFields flds o1 \<longleftrightarrow> list_all (pair_holds flds) fp"
proof (cases "fp = []")
  case True
  with assms(1,2) show ?thesis by (auto simp: field_param_def matchesFields_def Let_def split: if_splits)
next
  case False
  with assms(1,2) obtain ps where ps: "o1 = Some ps" "list_all2 (\<lambda>v p. field_exec v = Some p) (map (\<lambda>(k, v). k @ '':'' @ v) fp) ps"
    unfolding field_param_def Let_def assms(2) by (auto simp: andThen_Inr field_list_Inr split: if_splits)
  from field_list_back [OF ps(2) assms(3)] ps(1) show ?thesis
    by (simp add: matchesFields_def pair_holds_def [abs_def] case_prod_unfold)
qed

lemma bound_numbers:
  assumes inv: "finv r0 s" and f: "parseFilters (sv_params (finish_filter s)) = Inr f"
  shows "list_all (\<lambda>p. num_ok s (snd p) (bound_value (snd p) c)) bounds \<longleftrightarrow>
    in_range (cs_answerMsMedian c) (cf_answerMsMin f) (cf_answerMsMax f) \<and>
    in_range (cs_durationSeconds c) (cf_durationSecondsMin f) (cf_durationSecondsMax f) \<and>
    in_range (map_option of_nat (cs_turnCount c)) (cf_turnsMin f) (cf_turnsMax f) \<and>
    list_all (\<lambda>p. bn_unknown (snd p) \<in> set (up_getAll (fs_params s) ''unknown'') \<longrightarrow> bound_value (snd p) c = None) bounds"
proof -
  note pp = parse_parts [OF f] and pn = param_numbers [OF inv]
  let ?a = "(''answer'', \<lparr>bn_min = ''answerMsMin'', bn_max = ''answerMsMax'', bn_unknown = ''answerMs''\<rparr>)"
  let ?l = "(''length'', \<lparr>bn_min = ''durationSecondsMin'', bn_max = ''durationSecondsMax'', bn_unknown = ''durationSeconds''\<rparr>)"
  let ?t = "(''turns'', \<lparr>bn_min = ''turnsMin'', bn_max = ''turnsMax'', bn_unknown = ''turnCount''\<rparr>)"
  have b: "bounds = [?a, ?l, ?t]" by (simp add: bounds_def)
  have m: "?a \<in> set bounds" "?l \<in> set bounds" "?t \<in> set bounds" by (simp_all add: bounds_def)
  have va: "bound_value (snd ?a) c = cs_answerMsMedian c" "bound_value (snd ?l) c = cs_durationSeconds c"
    "bound_value (snd ?t) c = map_option of_nat (cs_turnCount c)"
    by (simp_all add: bound_value_def UNKNOWNS_def)
  note n1 = pn(1) [OF m(1)] pn(1) [OF m(2)] pn(1) [OF m(3)] pn(2) [OF m(1)] pn(2) [OF m(2)] pn(2) [OF m(3)]
  note r1 = pn(3) [OF m(1)] pn(3) [OF m(2)] pn(3) [OF m(3)] pn(4) [OF m(1)] pn(4) [OF m(2)] pn(4) [OF m(3)]
  have e: "map_of (fs_min s) ''answerMsMin'' = map_option Num (cf_answerMsMin f)"
    "map_of (fs_max s) ''answerMsMax'' = map_option Num (cf_answerMsMax f)"
    "map_of (fs_min s) ''durationSecondsMin'' = map_option Num (cf_durationSecondsMin f)"
    "map_of (fs_max s) ''durationSecondsMax'' = map_option Num (cf_durationSecondsMax f)"
    "map_of (fs_min s) ''turnsMin'' = map_option Num (cf_turnsMin f)"
    "map_of (fs_max s) ''turnsMax'' = map_option Num (cf_turnsMax f)"
    using num_param_value [OF pp(6)] num_param_value [OF pp(7)] num_param_value [OF pp(8)]
      num_param_value [OF pp(9)] num_param_value [OF pp(10)] num_param_value [OF pp(11)] n1 r1 by simp_all
  have k: "num_ok s (snd ?a) v \<longleftrightarrow> in_range v (cf_answerMsMin f) (cf_answerMsMax f) \<and>
      (bn_unknown (snd ?a) \<in> set (up_getAll (fs_params s) ''unknown'') \<longrightarrow> v = None)"
    "num_ok s (snd ?l) v \<longleftrightarrow> in_range v (cf_durationSecondsMin f) (cf_durationSecondsMax f) \<and>
      (bn_unknown (snd ?l) \<in> set (up_getAll (fs_params s) ''unknown'') \<longrightarrow> v = None)"
    "num_ok s (snd ?t) v \<longleftrightarrow> in_range v (cf_turnsMin f) (cf_turnsMax f) \<and>
      (bn_unknown (snd ?t) \<in> set (up_getAll (fs_params s) ''unknown'') \<longrightarrow> v = None)" for v
    using e by (auto simp: num_ok_iff)
  show ?thesis unfolding b list.pred_inject(2) k va by (simp only: list.pred_inject(1) simp_thms) blast
qed

definition with_fields :: "fstate \<Rightarrow> params" where
  "with_fields s = foldl (\<lambda>ps (k, v). up_append ''field'' (k @ '':'' @ v) ps) (fs_params s) (fs_fieldPairs s)"

lemma unknown_with_fields: "up_getAll (with_fields s) ''unknown'' = up_getAll (fs_params s) ''unknown''"
  unfolding with_fields_def getAll_fields by simp

lemma nothing_iff:
  "sv_nothing (finish_filter s) \<longleftrightarrow> fs_roomConflict s \<or> fs_fieldConflict s \<or>
     list_ex (\<lambda>(_, b). bound_nothing s (with_fields s) b) bounds \<or> list_ex (\<lambda>(_, vs). vs = []) (fs_lists s)"
  by (simp only: finish_filter_def Let_def server_filter.simps disj_assoc with_fields_def)

lemma bounds_possible:
  assumes "list_all (\<lambda>p. num_ok s (snd p) (bound_value (snd p) c)) bounds"
  shows "\<not> list_ex (\<lambda>(_, b). bound_nothing s (with_fields s) b) bounds"
proof
  assume "list_ex (\<lambda>(_, b). bound_nothing s (with_fields s) b) bounds"
  then obtain p where p: "p \<in> set bounds" "bound_nothing s (with_fields s) (snd p)"
    unfolding list_ex_iff by (metis case_prod_unfold)
  with assms have "num_ok s (snd p) (bound_value (snd p) c)" by (simp add: list_all_iff)
  from num_ok_possible [OF this unknown_with_fields] p(2) show False by simp
qed

lemma lists_possible:
  assumes "sat c flds s" "map_inv {''channel'', ''issues'', ''tag''} (fs_lists s)"
  shows "\<not> list_ex (\<lambda>(_, vs). vs = []) (fs_lists s)"
proof
  assume "list_ex (\<lambda>(_, vs). vs = []) (fs_lists s)"
  then obtain k where m: "(k, []) \<in> set (fs_lists s)" by (auto simp: list_ex_iff)
  then have "k \<in> fst ` set (fs_lists s)" using imageI [of "(k, [])" "set (fs_lists s)" fst] by simp
  with assms(2) have k: "k \<in> {''channel'', ''issues'', ''tag''}" unfolding map_inv_def by (elim conjE subsetD)
  have o: "map_of (fs_lists s) k = Some []"
    by (rule map_of_is_SomeI [OF _ m]) (use assms(2) in \<open>simp add: map_inv_def\<close>)
  have "pred_option (\<lambda>vs. channel_name (cs_channel c) \<in> set vs) (map_of (fs_lists s) ''channel'')"
    "pred_option (severity_in c) (map_of (fs_lists s) ''issues'')"
    "pred_option (\<lambda>vs. set vs \<inter> set (cs_tags c) \<noteq> {}) (map_of (fs_lists s) ''tag'')"
    using assms(1) unfolding sat_def by blast+
  moreover have "\<not> severity_in c []" by (simp add: severity_in_def split: option.split)
  moreover have "map_of (fs_lists s) ''channel'' = Some [] \<or> map_of (fs_lists s) ''issues'' = Some [] \<or>
      map_of (fs_lists s) ''tag'' = Some []"
    using k o unfolding insert_iff empty_iff by (elim disjE) (simp_all only: simp_thms)
  ultimately show False by (elim disjE) simp_all
qed

lemma room_holds:
  assumes "up_getAll q ''room'' = up_getAll ps ''room''"
  shows "(up_get q ''room'' = None \<or> up_get q ''room'' = Some (cs_room c)) \<longleftrightarrow>
    pred_option (\<lambda>r. cs_room c = r) (up_get ps ''room'')"
proof -
  have "up_get q ''room'' = up_get ps ''room''" unfolding up_get_all assms ..
  then show ?thesis by (cases "up_get ps ''room''") auto
qed

lemma tags_hold:
  assumes "l \<noteq> Some []"
  shows "(case (if list_or l = [] then None else Some (list_or l)) of
      None \<Rightarrow> True | Some ts \<Rightarrow> list_ex (\<lambda>t. t \<in> set (cs_tags c)) ts) \<longleftrightarrow>
    pred_option (\<lambda>vs. set vs \<inter> set (cs_tags c) \<noteq> {}) l"
  using assms by (cases l) (auto simp: list_ex_iff)

text \<open>The finished query matches what the loop's variables ask, unless it is marked as matching nothing.\<close>

lemma sat_rest:
  assumes inv: "finv r0 s" and f: "parseFilters (sv_params (finish_filter s)) = Inr f"
    and n: "\<not> sv_nothing (finish_filter s)"
  shows "sat c flds s \<longleftrightarrow> matchesFilters c f \<and> matchesFields flds (cf_field f)"
proof -
  note pp = parse_parts [OF f] and pl = param_lists [OF inv]
  have c1: "\<not> fs_roomConflict s" "\<not> fs_fieldConflict s" using n unfolding nothing_iff by simp_all
  have l: "map_of (fs_lists s) k \<noteq> Some []" for k
  proof
    assume "map_of (fs_lists s) k = Some []"
    from map_of_SomeD [OF this] have "list_ex (\<lambda>(_, vs). vs = []) (fs_lists s)" unfolding list_ex_iff by blast
    with n show False unfolding nothing_iff by simp
  qed
  have n3: "cf_from f = None" "cf_to f = None" "cf_archived f = None"
    by (rule empty_params(1) [OF pl(8) pp(1)] empty_params(1) [OF pl(9) pp(2)] empty_params(2) [OF pl(10) pp(15)])+
  have no_times: "before_time t None = False" "reached_time t None = False" for t
    by (cases t; simp add: before_time_def reached_time_def)+
  have fp: "\<forall>p \<in> set (fs_fieldPairs s). field_exec (fst p @ '':'' @ snd p) = Some p"
    using inv by (simp add: finv_def)
  note unk = unknowns_hold [OF pp(12), of c, unfolded pl(6)]
  note tag = tags_hold [OF l, of c "''tag''", folded pl(3), folded pp(16)]
  note room = room_holds [OF pl(4), of c, unfolded pp(3)]
  note parts = channel_holds [OF pp(4) pl(1) l, of c] issues_hold [OF pp(5) pl(2) l, of c]
    recorded_holds [OF pp(14) pl(5), of c] fields_hold [OF pp(13) pl(7) fp, of flds] tag room unk
  show ?thesis unfolding sat_def matchesFilters_def Let_def n3 no_times bound_numbers [OF inv f, of c]
      parts [symmetric] using c1 by (simp only: simp_thms option.case) blast
qed

lemma sat_params:
  assumes inv: "finv r0 s" and f: "parseFilters (sv_params (finish_filter s)) = Inr f"
  shows "sat c flds s \<longleftrightarrow>
    \<not> sv_nothing (finish_filter s) \<and> matchesFilters c f \<and> matchesFields flds (cf_field f)"
proof (cases "sv_nothing (finish_filter s)")
  case True
  have dl: "map_inv {''channel'', ''issues'', ''tag''} (fs_lists s)" using inv by (simp add: finv_def)
  have "\<not> sat c flds s"
  proof
    assume s: "sat c flds s"
    then have "\<not> fs_roomConflict s" "\<not> fs_fieldConflict s"
      "list_all (\<lambda>p. num_ok s (snd p) (bound_value (snd p) c)) bounds"
      unfolding sat_def by blast+
    with True bounds_possible lists_possible [OF s dl] show False unfolding nothing_iff by blast
  qed
  with True show ?thesis by simp
next
  case False
  with sat_rest [OF inv f False, of c flds] show ?thesis by simp
qed


text \<open>A query of two chips, which the sample call satisfies.\<close>

definition sample_rule :: "string \<Rightarrow> string \<Rightarrow> string \<Rightarrow> fvalue \<Rightarrow> fnode" where
  "sample_rule i fld opr v = Rule \<lparr>fr_id = i, fr_path = [fld], fr_operator = opr, fr_value = v, fr_negated = False\<rparr>"

definition sample_chips :: fnode where
  "sample_chips = Group ''root'' AndC
     [sample_rule ''a'' ''channel'' ''is_any_of'' (FvArr [FvStr ''phone'', FvStr ''web'']),
      sample_rule ''b'' ''answer'' ''gte'' (FvArr [FvNum (Num 250)])]"

definition no_labels :: "string \<Rightarrow> string option" where "no_labels f = None"
definition no_dates :: "num option \<Rightarrow> string" where "no_dates d = []"


text \<open>Two "recorded" chips that contradict each other ask the impossible, yet the second one's parameter
  silently replaces the first one's: nothing is dropped, and the query is not marked as matching nothing.\<close>

lemma recorded_last_wins:
  "let q = Group ''root'' AndC [sample_rule ''a'' ''recorded'' ''is'' (FvArr [FvStr ''true'']),
             sample_rule ''b'' ''recorded'' ''is'' (FvArr [FvStr ''false''])];
       r = toServerParams no_dates q no_labels
   in sv_params r = [(''recorded'', ''false'')] \<and> sv_dropped r = [] \<and> \<not> sv_nothing r \<and>
      \<not> list_all (chip_holds no_dates sample_call None) (flattenFilterConditions q)"
  by code_simp

end
