(* ===== verification/EventStream.thy ===== *)
theory EventStream
  imports JsJson
begin

text \<open>
  The server-sent events reader the live updates use (\<open>lib/api-types/core/serverSentEvents.gen.ts\<close>,
  \<open>createSseClient\<close>): line endings, splitting at blank lines, the fields of an event, and the attempts
  with their backoff. Validators and transformers are not set by the code that calls it. The main fact:
  how the network cuts a text without carriage returns into pieces does not change the events read from it.
\<close>

section \<open>Lines\<close>

definition LF :: char where "LF = CHR 0x0A"
definition CR :: char where "CR = CHR 0x0D"

lemma CR_not_LF [simp]: "CR \<noteq> LF" "LF \<noteq> CR"
  by (simp_all add: LF_def CR_def)

text \<open>\<open>buffer.replace(/\r\n?/g, '\n')\<close>\<close>

fun normal_ends :: "string \<Rightarrow> string" where
  "normal_ends [] = []"
| "normal_ends (c # cs) =
     (if c = CR then LF # (case cs of [] \<Rightarrow> [] | d # ds \<Rightarrow> if d = LF then normal_ends ds else normal_ends (d # ds))
      else c # normal_ends cs)"

text \<open>\<open>buffer.split('\n\n')\<close>\<close>

fun blank_split :: "string \<Rightarrow> string list" where
  "blank_split [] = [[]]"
| "blank_split [c] = [[c]]"
| "blank_split (c # d # cs) =
     (if c = LF \<and> d = LF then [] # blank_split cs
      else (case blank_split (d # cs) of [] \<Rightarrow> [[c]] | p # ps \<Rightarrow> (c # p) # ps))"

fun line_split :: "string \<Rightarrow> string list" where
  "line_split [] = [[]]"
| "line_split (c # cs) =
     (if c = LF then [] # line_split cs
      else (case line_split cs of [] \<Rightarrow> [[c]] | p # ps \<Rightarrow> (c # p) # ps))"

section \<open>Events\<close>

text \<open>An event's data: absent, JSON, or the text as it is.\<close>

datatype sse_data = NoData | JsonData json | TextData string

record sse_event =
  ev_data :: sse_data
  ev_name :: "string option"
  ev_id :: "string option"
  ev_retry :: int

text \<open>The reader's variables: \<open>buffer\<close>, \<open>lastEventId\<close>, \<open>retryDelay\<close>.\<close>

record sse_state =
  ss_buffer :: string
  ss_lastId :: "string option"
  ss_retry :: int

text \<open>\<open>line.replace(/^name:\s*/, '')\<close> of a line that starts so, and \<open>Number.parseInt(text, 10)\<close>.\<close>

definition field_value :: "string \<Rightarrow> string \<Rightarrow> string" where
  "field_value name line = trim_start (drop (length name) line)"

definition parse_int :: "string \<Rightarrow> int option" where
  "parse_int text =
     (let (neg, u) = signed_part (trim_start text); ds = takeWhile is_digit u
      in if ds = [] then None else Some (if neg then - int (digits_val ds) else int (digits_val ds)))"

record line_state =
  ln_data :: "string list"
  ln_name :: "string option"
  ln_id :: "string option"
  ln_retry :: int

definition read_line :: "line_state \<Rightarrow> string \<Rightarrow> line_state" where
  "read_line st line =
     (if starts_with line ''data:'' then st\<lparr>ln_data := ln_data st @ [field_value ''data:'' line]\<rparr>
      else if starts_with line ''event:'' then st\<lparr>ln_name := Some (field_value ''event:'' line)\<rparr>
      else if starts_with line ''id:'' then st\<lparr>ln_id := Some (field_value ''id:'' line)\<rparr>
      else if starts_with line ''retry:''
      then (case parse_int (field_value ''retry:'' line) of Some n \<Rightarrow> st\<lparr>ln_retry := n\<rparr> | None \<Rightarrow> st)
      else st)"

definition data_of :: "string list \<Rightarrow> sse_data" where
  "data_of ls =
     (if ls = [] then NoData
      else (let raw = join [LF] ls in case json_parse raw of Some v \<Rightarrow> JsonData v | None \<Rightarrow> TextData raw))"

definition read_chunk :: "string option \<times> int \<Rightarrow> string \<Rightarrow> (string option \<times> int) \<times> sse_event" where
  "read_chunk s chunk =
     (let l = foldl read_line \<lparr>ln_data = [], ln_name = None, ln_id = fst s, ln_retry = snd s\<rparr> (line_split chunk)
      in ((ln_id l, ln_retry l),
          \<lparr>ev_data = data_of (ln_data l), ev_name = ln_name l, ev_id = ln_id l, ev_retry = ln_retry l\<rparr>))"

fun read_chunks :: "string option \<times> int \<Rightarrow> string list \<Rightarrow> (string option \<times> int) \<times> sse_event list" where
  "read_chunks s [] = (s, [])"
| "read_chunks s (c # cs) =
     (let (s', e) = read_chunk s c; (s'', es) = read_chunks s' cs in (s'', e # es))"

text \<open>One \<open>reader.read()\<close>.\<close>

definition read_piece :: "sse_state \<Rightarrow> string \<Rightarrow> sse_state \<times> sse_event list" where
  "read_piece st value =
     (let parts = blank_split (normal_ends (ss_buffer st @ value));
          (s, es) = read_chunks (ss_lastId st, ss_retry st) (butlast parts)
      in (\<lparr>ss_buffer = last parts, ss_lastId = fst s, ss_retry = snd s\<rparr>, es))"

fun read_pieces :: "sse_state \<Rightarrow> string list \<Rightarrow> sse_state \<times> sse_event list" where
  "read_pieces st [] = (st, [])"
| "read_pieces st (v # vs) =
     (let (st', es) = read_piece st v; (st'', es') = read_pieces st' vs in (st'', es @ es'))"

section \<open>Attempts\<close>

text \<open>How an attempt ended: read to its end, or failed (with the delay the stream asked for by then). The
  reader's effects are the attempts it makes, the errors it reports and the time it sleeps.\<close>

datatype attempt_end = Completed | Failed int

datatype attempt_effect = Attempt nat | SseError | SleepFor num

fun run_attempts :: "nat option \<Rightarrow> num \<Rightarrow> nat \<Rightarrow> attempt_end list \<Rightarrow> attempt_effect list" where
  "run_attempts most cap n [] = []"
| "run_attempts most cap n (Completed # es) = [Attempt (Suc n)]"
| "run_attempts most cap n (Failed delay # es) =
     Attempt (Suc n) # SseError #
     (if (case most of Some m \<Rightarrow> m \<le> Suc n | None \<Rightarrow> False) then []
      else SleepFor (min (of_int delay * 2 ^ n) cap) # run_attempts most cap (Suc n) es)"

section \<open>Properties\<close>

lemma blank_split_ne [simp]: "blank_split s \<noteq> []"
  by (induction s rule: blank_split.induct) (auto split: list.splits)

lemma normal_ends_id [simp]: "CR \<notin> set s \<Longrightarrow> normal_ends s = s"
  by (induction s rule: normal_ends.induct) auto

lemma blank_split_set: "p \<in> set (blank_split s) \<Longrightarrow> set p \<subseteq> set s"
  by (induction s arbitrary: p rule: blank_split.induct) (auto split: list.splits if_splits, blast+)

text \<open>Splitting what is left of the first part with the second gives the rest of the whole.\<close>

lemma blank_split_append:
  "blank_split (a @ b) = butlast (blank_split a) @ blank_split (last (blank_split a) @ b)"
proof (induction a rule: blank_split.induct)
  case (3 c d cs)
  show ?case
  proof (cases "c = LF \<and> d = LF")
    case True
    with 3(1) show ?thesis by simp
  next
    case False
    obtain p ps where p: "blank_split (d # cs) = p # ps" by (cases "blank_split (d # cs)") auto
    have ih: "blank_split (d # cs @ b) = butlast (p # ps) @ blank_split (last (p # ps) @ b)"
      using 3(2) [OF False] p by simp
    show ?thesis
    proof (cases "ps = []")
      case False2: False
      then show ?thesis using False p ih by auto
    next
      case True
      then have q: "p = d # cs" using p
      proof -
        have len: "blank_split s = [q] \<Longrightarrow> q = s" for s q
          by (induction s arbitrary: q rule: blank_split.induct) (auto split: list.splits if_splits)
        show ?thesis using len p True by simp
      qed
      then show ?thesis using False p True by auto
    qed
  qed
qed simp_all

lemma read_chunks_append:
  "read_chunks s (xs @ ys) =
     (let (s', es) = read_chunks s xs; (s'', es') = read_chunks s' ys in (s'', es @ es'))"
  by (induction xs arbitrary: s) (simp_all add: case_prod_unfold Let_def)

lemma read_piece_append:
  assumes "CR \<notin> set (ss_buffer st)" "CR \<notin> set a" "CR \<notin> set b"
  shows "read_piece st (a @ b) =
    (let (st', es) = read_piece st a; (st'', es') = read_piece st' b in (st'', es @ es'))"
proof -
  let ?a = "ss_buffer st @ a"
  have l: "set (last (blank_split ?a)) \<subseteq> set ?a" by (rule blank_split_set) simp
  then have cr: "CR \<notin> set (last (blank_split ?a) @ b)" using assms by auto
  have n: "normal_ends (ss_buffer st @ a @ b) = ?a @ b" "normal_ends ?a = ?a"
    "normal_ends (last (blank_split ?a) @ b) = last (blank_split ?a) @ b"
    using assms cr by simp_all
  show ?thesis
    unfolding read_piece_def Let_def n blank_split_append [of ?a b]
    by (simp add: read_chunks_append case_prod_unfold Let_def n butlast_append del: append_assoc)
qed

lemma read_piece_buffer: "CR \<notin> set (ss_buffer st) \<Longrightarrow> CR \<notin> set v \<Longrightarrow> CR \<notin> set (ss_buffer (fst (read_piece st v)))"
  using blank_split_set [of "last (blank_split (ss_buffer st @ v))" "ss_buffer st @ v"]
  by (auto simp: read_piece_def Let_def case_prod_unfold)

text \<open>C13: how the network cuts the stream into pieces changes neither the events nor what is left over, when
  neither the stream nor the buffer holds a carriage return.\<close>

theorem pieces_as_one:
  assumes "CR \<notin> set (ss_buffer st)" "list_all (\<lambda>v. CR \<notin> set v) vs" "vs \<noteq> []"
  shows "read_pieces st vs = read_piece st (concat vs)"
  using assms
proof (induction vs arbitrary: st)
  case (Cons v vs)
  show ?case
  proof (cases "vs = []")
    case True
    then show ?thesis by (simp add: case_prod_unfold)
  next
    case False
    have c: "CR \<notin> set (concat vs)" using Cons.prems(2) by (auto simp: list_all_iff)
    have "read_pieces (fst (read_piece st v)) vs = read_piece (fst (read_piece st v)) (concat vs)"
      using Cons.IH [OF read_piece_buffer] Cons.prems False by simp
    then show ?thesis using read_piece_append [OF Cons.prems(1) _ c, of v] Cons.prems(2)
      by (simp add: case_prod_unfold Let_def)
  qed
qed simp

definition sse_start :: sse_state where
  "sse_start = \<lparr>ss_buffer = [], ss_lastId = None, ss_retry = 3000\<rparr>"

definition renew_text :: string where
  "renew_text = ''event: renew'' @ [LF] @ ''data: 1'' @ [LF, LF]"

theorem pieces_as_one_witness:
  "read_pieces sse_start [take 5 renew_text, drop 5 renew_text] = read_piece sse_start renew_text \<and>
   map ev_name (snd (read_piece sse_start renew_text)) = [Some ''renew'']"
proof
  have "read_pieces sse_start [take 5 renew_text, drop 5 renew_text] =
      read_piece sse_start (concat [take 5 renew_text, drop 5 renew_text])"
    by (rule pieces_as_one) (code_simp, code_simp, simp)
  then show "read_pieces sse_start [take 5 renew_text, drop 5 renew_text] = read_piece sse_start renew_text"
    by (simp del: read_pieces.simps)
qed code_simp

text \<open>With carriage returns it does: a piece that ends between \<open>\r\<close> and \<open>\n\<close> turns one line ending into two,
  so the event is cut in two, its name without its data.\<close>

lemma crlf_cut_in_two:
  "map (\<lambda>e. (ev_name e, ev_data e)) (snd (read_pieces sse_start
     [''event: x'' @ [CR], [LF] @ ''data: 1'' @ [CR, LF, CR, LF]])) = [(Some ''x'', NoData), (None, JsonData (JNum 1))]"
  "map (\<lambda>e. (ev_name e, ev_data e)) (snd (read_piece sse_start
     (''event: x'' @ [CR, LF] @ ''data: 1'' @ [CR, LF, CR, LF]))) = [(Some ''x'', JsonData (JNum 1))]"
  by code_simp+


end
