(* ===== verification/JsonRound.thy ===== *)
theory JsonRound
  imports JsJson
begin

text \<open>
  \<open>JSON.parse(JSON.stringify(v))\<close> is \<open>v\<close>, for values made of whole numbers, texts, booleans, \<open>null\<close>, arrays and
  objects whose keys are distinct and are not array indices (whose order an object would change). What the
  console writes to storage and to requests is of this form.
\<close>

fun sendable :: "json \<Rightarrow> bool" where
  "sendable (JNum x) = is_integer x"
| "sendable (JArr xs) = list_all sendable xs"
| "sendable (JObj kvs) =
     (distinct (map fst kvs) \<and> list_all (\<lambda>(k, v). array_index k = None \<and> sendable v) kvs)"
| "sendable _ = True"

fun toks :: "json \<Rightarrow> tok list" where
  "toks (JArr xs) = LBrack # join [Comma] (map toks xs) @ [RBrack]"
| "toks (JObj kvs) = LBrace # join [Comma] (map (\<lambda>(k, v). Lit (JStr k) # Colon # toks v) kvs) @ [RBrace]"
| "toks v = [Lit v]"

section \<open>Cutting what was written\<close>

lemma radix_hex_digit: "n < 16 \<Longrightarrow> radix_digit (hex_digit n) = Some n"
  by (auto simp: hex_digit_def radix_digit_def is_digit_def)

lemma control_escape:
  assumes "code c < 32"
  shows "unicode_escape (''00'' @ hex_digit (code c div 16) # hex_digit (code c mod 16) # t) = Some ([c], t)"
proof -
  have d: "code c div 16 < 16" "code c mod 16 < 16" using assms by auto
  have z: "radix_digit (CHR ''0'') = Some 0" by code_simp
  have "hex4 (''00'' @ hex_digit (code c div 16) # hex_digit (code c mod 16) # t) = Some (code c, t)"
    using d by (simp add: hex4_def z radix_hex_digit)
  moreover have "utf8 (code c) = [c]" using assms by (simp add: utf8_def code_def)
  ultimately show ?thesis using assms by (simp add: unicode_escape_def)
qed

lemma quote_backslash [simp]: "quote \<noteq> backslash" "backslash \<noteq> quote" "CHR ''u'' \<noteq> quote" "\<not> code backslash < 32"
  by code_simp+

lemma esc_cases:
  obtains (simple) d where "esc_char c = [backslash, d]" "simple_escape d = Some c" "d \<noteq> CHR ''u''"
  | (control) "code c < 32"
      "esc_char c = [backslash, CHR ''u'', CHR ''0'', CHR ''0'', hex_digit (code c div 16), hex_digit (code c mod 16)]"
  | (plain) "esc_char c = [c]" "c \<noteq> quote" "c \<noteq> backslash" "\<not> code c < 32"
proof -
  let ?m = "[(quote, quote), (backslash, backslash), (CHR 0x08, CHR ''b''), (CHR 0x0C, CHR ''f''),
         (CHR 0x0A, CHR ''n''), (CHR 0x0D, CHR ''r''), (CHR 0x09, CHR ''t'')]"
  show thesis
  proof (cases "map_of ?m c")
    case None
    then have "c \<noteq> quote" "c \<noteq> backslash" by (auto split: if_splits)
    with None show ?thesis using control plain by (cases "code c < 32") (auto simp: esc_char_def)
  next
    case (Some d)
    then have "(c, d) \<in> set ?m" by (rule map_of_SomeD)
    moreover have "list_all (\<lambda>(c, d). simple_escape d = Some c \<and> d \<noteq> CHR ''u'') ?m" by code_simp
    ultimately have "simple_escape d = Some c" "d \<noteq> CHR ''u''" unfolding list_all_iff by blast+
    with Some show ?thesis using simple by (simp add: esc_char_def)
  qed
qed

lemma lex_str_esc: "lex_str acc (esc_char c @ t) = lex_str (acc @ [c]) t"
  by (cases rule: esc_cases [of c]) (simp_all add: control_escape [simplified])

lemma lex_str_quoted: "lex_str acc (concat (map esc_char s) @ quote # r) = Some (acc @ s, r)"
  by (induction s arbitrary: acc) (simp_all add: lex_str_esc)

lemma lex_cons: "\<not> json_ws c \<Longrightarrow> lex (c # s) = (case lex_one (c # s) of None \<Rightarrow> None | Some (t, r) \<Rightarrow> map_option ((#) t) (lex r))"
  by (subst lex.simps) simp

lemma lex_punct: "punct c = Some t \<Longrightarrow> \<not> json_ws c \<Longrightarrow> lex (c # s) = map_option ((#) t) (lex s)"
  by (simp add: lex_cons lex_one_def)

lemma puncts [simp]:
  "lex (CHR ''['' # s) = map_option ((#) LBrack) (lex s)" "lex (CHR '']'' # s) = map_option ((#) RBrack) (lex s)"
  "lex (CHR ''{'' # s) = map_option ((#) LBrace) (lex s)" "lex (CHR ''}'' # s) = map_option ((#) RBrace) (lex s)"
  "lex (CHR '','' # s) = map_option ((#) Comma) (lex s)" "lex (CHR '':'' # s) = map_option ((#) Colon) (lex s)"
  by (rule lex_punct; simp add: punct_def json_ws_def code_def)+

lemma lex_quoted: "lex (json_quote s @ r) = map_option ((#) (Lit (JStr s))) (lex r)"
proof -
  have "\<not> json_ws quote" "punct quote = None" by code_simp+
  then show ?thesis by (simp add: json_quote_def lex_cons lex_one_def lex_str_quoted)
qed

text \<open>What may follow a value: the end, or a mark that ends a number.\<close>

definition value_end :: "string \<Rightarrow> bool" where
  "value_end r \<longleftrightarrow> r = [] \<or> hd r \<in> {CHR '','', CHR '']'', CHR ''}''}"

lemma value_endD:
  assumes "value_end r"
  shows "takeWhile is_digit r = []" "dropWhile is_digit r = r" "take 1 r \<noteq> ''.''" "lex_exp r = Some (0, r)"
proof -
  have "list_all (\<lambda>c. \<not> is_digit c \<and> c \<noteq> CHR ''.'' \<and> c \<noteq> CHR ''e'' \<and> c \<noteq> CHR ''E'') [CHR '','', CHR '']'', CHR ''}'']"
    by code_simp
  then have "r = [] \<or> (\<not> is_digit (hd r) \<and> hd r \<noteq> CHR ''.'' \<and> hd r \<noteq> CHR ''e'' \<and> hd r \<noteq> CHR ''E'')"
    using assms by (auto simp: value_end_def)
  then show "takeWhile is_digit r = []" "dropWhile is_digit r = r" "take 1 r \<noteq> ''.''" "lex_exp r = Some (0, r)"
    by (cases r; simp add: lex_exp_def)+
qed

lemma nat_str_leading: "length (nat_str n) > 1 \<Longrightarrow> hd (nat_str n) \<noteq> CHR ''0''"
proof (induction n rule: nat_str.induct)
  case (1 n)
  show ?case
  proof (cases "n < 10")
    case True
    with 1(2) show ?thesis by (simp add: nat_str.simps [of n])
  next
    case False
    note big = this
    show ?thesis
    proof (cases "n div 10 < 10")
      case True
      have "code (char_of (48 + n div 10)) = 48 + n div 10" using True by (intro code_char_of) simp
      moreover have "code (CHR ''0'') = 48" by code_simp
      moreover have "1 \<le> n div 10" using big by simp
      ultimately have "char_of (48 + n div 10) \<noteq> (CHR ''0'')" by (metis add_cancel_right_right not_one_le_zero)
      with big True show ?thesis by (simp add: nat_str.simps [of n] nat_str.simps [of "n div 10"])
    next
      case False
      then have "length (nat_str (n div 10)) > 1" by (simp add: nat_str.simps [of "n div 10"])
      with 1(1) big show ?thesis by (simp add: nat_str.simps [of n])
    qed
  qed
qed

lemma frac_digits_zero [simp]: "frac_digits n 0 = []"
  by (cases n) simp_all

lemma lex_digits_nat: "value_end r \<Longrightarrow> lex_digits (nat_str n @ r) = Some (nat_str n, r)"
proof -
  assume r: "value_end r"
  have d: "\<And>c. c \<in> set (nat_str n) \<Longrightarrow> is_digit c" using nat_str_digits [of n] by (simp add: list_all_iff)
  then have "takeWhile is_digit (nat_str n @ r) = nat_str n" "dropWhile is_digit (nat_str n @ r) = r"
    using value_endD(1,2) [OF r] by simp_all
  then show ?thesis by (simp add: lex_digits_def)
qed

lemma lex_num_int:
  assumes "value_end r" shows "lex_num (num_str (of_int i) @ r) = Some (of_int i, r)"
proof -
  have n: "num_str (of_int i) = (if i < 0 then ''-'' else []) @ nat_str (nat \<bar>i\<bar>)"
    by (simp add: num_str_def Let_def flip: of_int_abs)
  have m: "take 1 (nat_str k @ r) \<noteq> ''-''" for k
  proof -
    have "is_digit (hd (nat_str k))" using nat_str_digits [of k] by (simp add: list_all_iff)
    moreover have "\<not> is_digit (CHR ''-'')" by code_simp
    ultimately show ?thesis by (cases "nat_str k") auto
  qed
  have lead: "\<not> (length (nat_str k) > 1 \<and> hd (nat_str k) = CHR ''0'')" for k using nat_str_leading by blast
  have p: "pow10 0 = 1" by (simp add: pow10_def)
  have body: "Option.bind (lex_digits (nat_str k @ r)) (\<lambda>(ip, r).
        if length ip > 1 \<and> hd ip = CHR ''0'' then None
        else Option.bind (if take 1 r = ''.'' then lex_digits (drop 1 r) else Some ([], r)) (\<lambda>(fp, r2).
          map_option (\<lambda>(e, r3).
            (let x = of_nat (digits_val (ip @ fp)) / 10 ^ length fp * pow10 e in (if neg then - x else x, r3)))
            (lex_exp r2))) = Some (if neg then - of_nat k else of_nat k :: num, r)" for k neg
    using lex_digits_nat [OF assms] lead value_endD [OF assms] by (simp add: p)
  show ?thesis
  proof (cases "i < 0")
    case True
    then have "num_str (of_int i) @ r = CHR ''-'' # nat_str (nat \<bar>i\<bar>) @ r" by (simp add: n)
    then show ?thesis using True body [of "nat \<bar>i\<bar>" True] by (simp add: lex_num_def)
  next
    case False
    then have e: "num_str (of_int i) @ r = nat_str (nat \<bar>i\<bar>) @ r" by (simp add: n)
    show ?thesis unfolding e lex_num_def using False m [of "nat \<bar>i\<bar>"] body [of "nat \<bar>i\<bar>" False] by simp
  qed
qed

lemma int_head:
  obtains c t where "num_str (of_int i) = c # t" "\<not> json_ws c" "punct c = None" "c \<noteq> quote"
    "c \<notin> {CHR ''t'', CHR ''f'', CHR ''n''}"
proof -
  have n: "num_str (of_int i) = (if i < 0 then ''-'' else []) @ nat_str (nat \<bar>i\<bar>)"
    by (simp add: num_str_def Let_def flip: of_int_abs)
  have bad: "list_all (\<lambda>c. \<not> is_digit c \<and> c \<noteq> CHR ''-'')
      [CHR ''['', CHR '']'', CHR ''{'', CHR ''}'', CHR '','', CHR '':'', quote, CHR ''t'', CHR ''f'', CHR ''n'']"
    by (simp add: is_digit_def code_def quote_def)
  have ok: "\<not> json_ws c \<and> punct c = None \<and> c \<noteq> quote \<and> c \<notin> {CHR ''t'', CHR ''f'', CHR ''n''}"
    if "is_digit c \<or> c = CHR ''-''" for c
  proof -
    have w: "\<not> json_ws c"
      using that by (elim disjE) (auto simp: is_digit_def json_ws_def code_def)
    have "c \<noteq> x" if "x \<in> set [CHR ''['', CHR '']'', CHR ''{'', CHR ''}'', CHR '','', CHR '':'', quote, CHR ''t'', CHR ''f'', CHR ''n'']" for x
      using that bad \<open>is_digit c \<or> c = CHR ''-''\<close> unfolding list_all_iff by blast
    then show ?thesis using w by (simp add: punct_def)
  qed
  have "is_digit (hd (nat_str k))" for k using nat_str_digits [of k] by (simp add: list_all_iff)
  then have "is_digit (hd (num_str (of_int i))) \<or> hd (num_str (of_int i)) = CHR ''-''" by (simp add: n)
  moreover have "num_str (of_int i) \<noteq> []" by (simp add: n)
  ultimately show thesis using ok that by (cases "num_str (of_int i)") auto
qed

lemma lex_int: "value_end r \<Longrightarrow> lex (num_str (of_int i) @ r) = map_option ((#) (Lit (JNum (of_int i)))) (lex r)"
proof -
  assume r: "value_end r"
  obtain c t where c: "num_str (of_int i) = c # t" "\<not> json_ws c" "punct c = None" "c \<noteq> quote"
    "c \<notin> {CHR ''t'', CHR ''f'', CHR ''n''}" by (rule int_head)
  have "lex_num (c # t @ r) = Some (of_int i, r)" using lex_num_int [OF r, of i] c(1) by simp
  then have "lex_one (c # t @ r) = Some (Lit (JNum (of_int i)), r)"
    using c by (simp add: lex_one_def starts_with_def)
  then show ?thesis using c by (simp add: lex_cons)
qed

lemma lex_words:
  "lex (''true'' @ r) = map_option ((#) (Lit (JBool True))) (lex r)"
  "lex (''false'' @ r) = map_option ((#) (Lit (JBool False))) (lex r)"
  "lex (''null'' @ r) = map_option ((#) (Lit JNull)) (lex r)"
proof -
  have "list_all (\<lambda>c. \<not> json_ws c \<and> punct c = None \<and> c \<noteq> quote) [CHR ''t'', CHR ''f'', CHR ''n'']" by code_simp
  then show "lex (''true'' @ r) = map_option ((#) (Lit (JBool True))) (lex r)"
    "lex (''false'' @ r) = map_option ((#) (Lit (JBool False))) (lex r)"
    "lex (''null'' @ r) = map_option ((#) (Lit JNull)) (lex r)"
    by (simp_all add: lex_cons lex_one_def starts_with_def)
qed

lemma value_end_marks [simp]:
  "value_end []" "value_end (CHR '','' # s)" "value_end (CHR '']'' # s)" "value_end (CHR ''}'' # s)"
  by (simp_all add: value_end_def)

lemma map_append [simp]:
  "map_option ((@) []) x = x" "map_option ((@) (t # ts)) x = map_option (\<lambda>us. t # ts @ us) x"
  by (cases x; simp)+

lemma lex_elems:
  assumes "\<And>x r. x \<in> set xs \<Longrightarrow> value_end r \<Longrightarrow> lex (f x @ r) = map_option ((@) (g x)) (lex r)" "value_end r"
  shows "lex (join '','' (map f xs) @ r) = map_option ((@) (join [Comma] (map g xs))) (lex r)"
  using assms
proof (induction xs rule: induct_list012)
  case (3 x y zs)
  have "lex (f x @ '','' @ join '','' (map f (y # zs)) @ r) =
      map_option ((@) (g x)) (lex ('','' @ join '','' (map f (y # zs)) @ r))"
    by (rule 3(3)) simp_all
  also have "\<dots> = map_option (\<lambda>ts. g x @ Comma # join [Comma] (map g (y # zs)) @ ts) (lex r)"
    using 3(2) 3(3,4) by (simp add: option.map_comp comp_def)
  finally show ?case by (simp add: option.map_comp comp_def)
qed (simp_all add: option.map_ident)

lemma own_entries_id: "list_all (\<lambda>(k, v). array_index k = None) kvs \<Longrightarrow> own_entries kvs = kvs"
proof -
  have "ins_by index_before x ys = x # ys" if "list_all (\<lambda>(k, v). array_index k = None) ys" for x :: "string \<times> 'a" and ys
    using that by (cases ys) (auto simp: index_before_def case_prod_unfold split: option.splits)
  then show "list_all (\<lambda>(k, v). array_index k = None) kvs \<Longrightarrow> own_entries kvs = kvs"
    unfolding own_entries_def sort_by_def by (induction kvs) auto
qed

lemma lex_json: "sendable v \<Longrightarrow> value_end r \<Longrightarrow> lex (json_str v @ r) = map_option ((@) (toks v)) (lex r)"
proof (induction v arbitrary: r)
  case (JNum x)
  then obtain i where "x = of_int i" by (metis sendable.simps(1) is_integer_def)
  with JNum show ?case by (simp add: lex_int)
next
  case (JArr xs)
  have "lex (join '','' (map json_str xs) @ '']'' @ r) = map_option ((@) (join [Comma] (map toks xs))) (lex ('']'' @ r))"
    by (rule lex_elems) (use JArr in \<open>auto simp: list_all_iff\<close>)
  then show ?case by (simp add: option.map_comp comp_def)
next
  case (JObj kvs)
  have ix: "list_all (\<lambda>(k, v). array_index k = None) (map (\<lambda>(k, v). (k, json_str v)) kvs)"
    using JObj.prems(1) by (auto simp: list_all_iff)
  have "lex (join '','' (map (\<lambda>(k, v). json_quote k @ '':'' @ json_str v) kvs) @ ''}'' @ r) =
      map_option ((@) (join [Comma] (map (\<lambda>(k, v). Lit (JStr k) # Colon # toks v) kvs))) (lex (''}'' @ r))"
  proof (rule lex_elems)
    fix p :: "string \<times> json" and r' :: string
    assume p: "p \<in> set kvs" and r': "value_end r'"
    obtain k v where kv: "p = (k, v)" by fastforce
    with p JObj.prems(1) have "sendable v" by (auto simp: list_all_iff)
    with JObj.IH [of p v] p kv r' have "lex (json_str v @ r') = map_option ((@) (toks v)) (lex r')" by simp
    then show "lex ((case p of (k, v) \<Rightarrow> json_quote k @ '':'' @ json_str v) @ r') =
        map_option ((@) (case p of (k, v) \<Rightarrow> Lit (JStr k) # Colon # toks v)) (lex r')"
      by (simp add: kv lex_quoted option.map_comp comp_def)
  qed simp
  moreover have "own_entries (map (\<lambda>(k, v). (k, json_str v)) kvs) = map (\<lambda>(k, v). (k, json_str v)) kvs"
    by (rule own_entries_id [OF ix])
  ultimately show ?case
    by (simp add: option.map_comp comp_def case_prod_unfold)
next
  case (JBool b)
  then show ?case using lex_words [simplified] by (cases b) simp_all
qed (simp_all add: lex_quoted lex_words [simplified])

section \<open>Reading it back\<close>

lemma toks_head: "\<exists>t ts. toks v = t # ts \<and> t \<noteq> RBrack \<and> t \<noteq> RBrace"
  by (cases v) auto

lemma feed_elems:
  assumes "\<And>x st ts. x \<in> set xs \<Longrightarrow> feed_all (toks x @ ts) (st, Want) = feed_all ts (complete x st)" "xs \<noteq> []"
  shows "feed_all (join [Comma] (map toks xs) @ RBrack # ts) (FArr acc # st, Want) =
    feed_all ts (complete (JArr (acc @ xs)) st)"
  using assms
proof (induction xs arbitrary: acc rule: induct_list012)
  case (2 x)
  then show ?case by (simp add: feed_def)
next
  case (3 x y zs)
  have ih: "feed_all (join [Comma] (map toks (y # zs)) @ RBrack # ts) (FArr (acc @ [x]) # st, Want) =
      feed_all ts (complete (JArr ((acc @ [x]) @ y # zs)) st)"
    by (rule 3(2)) (use 3(3) in auto)
  have "feed_all (toks x @ Comma # join [Comma] (map toks (y # zs)) @ RBrack # ts) (FArr acc # st, Want) =
      feed_all (Comma # join [Comma] (map toks (y # zs)) @ RBrack # ts) (complete x (FArr acc # st))"
    by (rule 3(3)) simp
  then show ?case using ih by (simp add: feed_def)
qed simp

lemma feed_fields:
  assumes "\<And>k x st ts. (k, x) \<in> set kvs \<Longrightarrow> feed_all (toks x @ ts) (st, Want) = feed_all ts (complete x st)"
    "kvs \<noteq> []" "distinct (map fst (acc @ kvs))"
  shows "feed_all (join [Comma] (map (\<lambda>(k, v). Lit (JStr k) # Colon # toks v) kvs) @ RBrace # ts) (FObj acc k0 # st, WantKey) =
    feed_all ts (complete (JObj (acc @ kvs)) st)"
  using assms
proof (induction kvs arbitrary: acc k0 rule: induct_list012)
  case (2 p)
  obtain k x where p: "p = (k, x)" by fastforce
  from 2 p show ?case by (simp add: feed_def want_key_def obj_set_def)
next
  case (3 p q zs)
  obtain k x where p: "p = (k, x)" by fastforce
  let ?rest = "join [Comma] (map (\<lambda>(k, v). Lit (JStr k) # Colon # toks v) (q # zs)) @ RBrace # ts"
  have ih: "feed_all ?rest (FObj (acc @ [p]) k # st, WantKey) = feed_all ts (complete (JObj ((acc @ [p]) @ q # zs)) st)"
    by (rule 3(2)) (use 3(3,5) in auto)
  have fresh: "obj_set k x acc = acc @ [p]" using 3(5) p by (auto simp: obj_set_def)
  have "feed_all (toks x @ Comma # ?rest) (FObj acc k # st, Want) = feed_all (Comma # ?rest) (complete x (FObj acc k # st))"
    by (rule 3(3) [of k]) (simp add: p)
  then show ?case using ih fresh by (simp add: p feed_def want_key_def)
qed simp

lemma feed_json: "sendable v \<Longrightarrow> feed_all (toks v @ ts) (st, Want) = feed_all ts (complete v st)"
proof (induction v arbitrary: st ts)
  case (JArr xs)
  show ?case
  proof (cases xs)
    case Nil
    then show ?thesis by (simp add: feed_def want_value_def)
  next
    case (Cons x zs)
    have e: "feed_all (join [Comma] (map toks xs) @ RBrack # ts) (FArr [] # st, Want) = feed_all ts (complete (JArr ([] @ xs)) st)"
      by (rule feed_elems) (use JArr Cons in \<open>auto simp: list_all_iff\<close>)
    obtain t us where t: "join [Comma] (map toks xs) @ RBrack # ts = t # us" "t \<noteq> RBrack"
      using toks_head [of x] Cons by (cases zs) auto
    have "feed t (FArr [] # st, WantOrClose) = feed t (FArr [] # st, Want)" using t(2) by (simp add: feed_def)
    with e t show ?thesis by (simp add: feed_def want_value_def)
  qed
next
  case (JObj kvs)
  show ?case
  proof (cases kvs)
    case Nil
    then show ?thesis by (simp add: feed_def want_value_def)
  next
    case (Cons p zs)
    have e: "feed_all (join [Comma] (map (\<lambda>(k, v). Lit (JStr k) # Colon # toks v) kvs) @ RBrace # ts) (FObj [] [] # st, WantKey) =
        feed_all ts (complete (JObj ([] @ kvs)) st)"
    proof (rule feed_fields)
      fix k x st' ts'
      assume "(k, x) \<in> set kvs"
      with JObj show "feed_all (toks x @ ts') (st', Want) = feed_all ts' (complete x st')" by (auto simp: list_all_iff)
    qed (use JObj Cons in auto)
    obtain us where t: "join [Comma] (map (\<lambda>(k, v). Lit (JStr k) # Colon # toks v) kvs) @ RBrace # ts = Lit (JStr (fst p)) # us"
      using Cons by (cases zs; cases p) auto
    have "feed (Lit (JStr (fst p))) (FObj [] [] # st, KeyOrClose) = feed (Lit (JStr (fst p))) (FObj [] [] # st, WantKey)"
      by (simp add: feed_def)
    with e t show ?thesis by (simp add: feed_def want_value_def)
  qed
qed (simp_all add: feed_def want_value_def)

theorem json_round: "sendable v \<Longrightarrow> json_parse (json_str v) = Some v"
proof -
  assume v: "sendable v"
  have nil: "lex [] = Some []" by (simp add: lex.simps)
  have l: "lex (json_str v) = Some (toks v)" using lex_json [OF v, of "[]"] nil by simp
  have f: "feed_all (toks v) ([], Want) = Some ([], Finished v)" using feed_json [OF v, of "[]" "[]"] by simp
  show ?thesis by (simp add: json_parse_def l f)
qed

end
