(* ===== verification/LocalStore.thy ===== *)
theory LocalStore
  imports JsonRound JsUrl
begin

text \<open>
  What the console keeps in this browser (\<open>lib/local-store.ts\<close>): \<open>localStorage\<close>, with memory behind it for a
  browser that refuses to store or to read; and the choice to set up later that is kept there
  (\<open>features/setup/setup-later.ts\<close>). Whether storage throws is an argument of each read and write, so the
  laws hold however it comes and goes. The locale \<open>json_store\<close> is what its clients rely on.
\<close>

section \<open>The store\<close>

record local_store =
  ls_memory :: "(string \<times> string) list"
  ls_unsaved :: "string list"
  ls_items :: "(string \<times> string) list"

definition readLocal :: "bool \<Rightarrow> local_store \<Rightarrow> string \<Rightarrow> json option" where
  "readLocal blocked s key =
     Option.bind
       (if key \<in> set (ls_unsaved s) then map_of (ls_memory s) key
        else if blocked then map_of (ls_memory s) key
        else map_of (ls_items s) key)
       json_parse"

definition writeLocal :: "bool \<Rightarrow> string \<Rightarrow> json \<Rightarrow> local_store \<Rightarrow> local_store" where
  "writeLocal refused key v s =
     (let raw = json_str v; s1 = s\<lparr>ls_memory := mp_set key raw (ls_memory s)\<rparr>
      in if refused then s1\<lparr>ls_unsaved := List.insert key (ls_unsaved s1)\<rparr>
         else s1\<lparr>ls_items := mp_set key raw (ls_items s1), ls_unsaved := removeAll key (ls_unsaved s1)\<rparr>)"

locale json_store =
  fixes read_at :: "'m \<Rightarrow> 's \<Rightarrow> string \<Rightarrow> json option" and write_at :: "'m \<Rightarrow> string \<Rightarrow> json \<Rightarrow> 's \<Rightarrow> 's"
  assumes read_write_same: "sendable v \<Longrightarrow> read_at r (write_at w k v s) k = Some v"
    and read_write_other: "k \<noteq> k' \<Longrightarrow> read_at r (write_at w k v s) k' = read_at r s k'"
begin

text \<open>A key read after a run of writes holds the last value written to it, whatever storage did meanwhile.\<close>

lemma read_last:
  assumes "list_all (\<lambda>(w, k, v). sendable v) ws"
  shows "read_at r (fold (\<lambda>(w, k, v). write_at w k v) ws s) key =
    (case map_of (rev (map snd ws)) key of Some v \<Rightarrow> Some v | None \<Rightarrow> read_at r s key)"
  using assms
proof (induction ws arbitrary: s)
  case (Cons p ws)
  obtain w k v where p: "p = (w, k, v)" by (cases p)
  from Cons.prems p have v: "sendable v" and rest: "list_all (\<lambda>(w, k, v). sendable v) ws" by auto
  have "read_at r (write_at w k v s) key = (if k = key then Some v else read_at r s key)"
    using read_write_same [OF v] read_write_other by auto
  with Cons.IH [OF rest, of "write_at w k v s"] p show ?case
    by (auto simp: map_add_def split: option.splits)
qed simp

text \<open>The texts kept under a key, and adding one.\<close>

definition texts_at :: "'m \<Rightarrow> string \<Rightarrow> 's \<Rightarrow> string list" where
  "texts_at r key s =
     (case read_at r s key of
        Some (JArr xs) \<Rightarrow> somes (map (\<lambda>x. case x of JStr t \<Rightarrow> Some t | _ \<Rightarrow> None) xs)
      | _ \<Rightarrow> [])"

definition add_text :: "'m \<Rightarrow> 'm \<Rightarrow> string \<Rightarrow> string \<Rightarrow> 's \<Rightarrow> 's" where
  "add_text r w key t s = write_at w key (JArr (map JStr (uniq (texts_at r key s @ [t])))) s"

lemma somes_texts: "somes (map (\<lambda>x. case x of JStr t \<Rightarrow> Some t | _ \<Rightarrow> None) (map JStr ts)) = ts"
  by (induction ts) auto

lemma texts_after_add: "texts_at r' key (add_text r w key t s) = uniq (texts_at r key s @ [t])"
proof -
  have "sendable (JArr (map JStr (uniq (texts_at r key s @ [t]))))" by (simp add: list_all_iff)
  then show ?thesis unfolding texts_at_def [of r'] add_text_def
    by (simp add: read_write_same somes_texts del: map_map)
qed

end

lemma readLocal_same: "sendable v \<Longrightarrow> readLocal r (writeLocal w k v s) k = Some v"
  by (simp add: readLocal_def writeLocal_def Let_def mp_store.get_put json_round)

lemma readLocal_other: "k \<noteq> k' \<Longrightarrow> readLocal r (writeLocal w k v s) k' = readLocal r s k'"
  by (auto simp: readLocal_def writeLocal_def Let_def mp_store.get_put)

interpretation local_json: json_store readLocal writeLocal
  by unfold_locales (auto intro: readLocal_same readLocal_other)

section \<open>Set up later\<close>

definition SETUP_LATER_KEY :: string where
  "SETUP_LATER_KEY = ''vg.setup-later''"

definition later_id :: "string \<Rightarrow> string option \<Rightarrow> string" where
  "later_id org project = org @ ''/'' @ (case project of Some p \<Rightarrow> p | None \<Rightarrow> [])"

definition saved_later :: "bool \<Rightarrow> local_store \<Rightarrow> string list" where
  "saved_later r s =
     (case readLocal r s SETUP_LATER_KEY of
        Some (JArr xs) \<Rightarrow> somes (map (\<lambda>x. case x of JStr t \<Rightarrow> Some t | _ \<Rightarrow> None) xs)
      | _ \<Rightarrow> [])"

definition setUpLater :: "bool \<Rightarrow> bool \<Rightarrow> string \<Rightarrow> string option \<Rightarrow> local_store \<Rightarrow> local_store" where
  "setUpLater r w org project s =
     writeLocal w SETUP_LATER_KEY (JArr (map JStr (uniq (saved_later r s @ [later_id org project])))) s"

definition choseLater :: "bool \<Rightarrow> local_store \<Rightarrow> string \<Rightarrow> string option \<Rightarrow> bool" where
  "choseLater r s org project \<longleftrightarrow> later_id org project \<in> set (saved_later r s)"

section \<open>Properties\<close>

text \<open>after any run of writes, each of which storage may refuse, a read, which storage may block, gives the
  last value written under its key, or what it gave before when none was.\<close>

theorem last_write_wins:
  assumes "list_all (\<lambda>(w, k, v). sendable v) ws"
  shows "readLocal r (fold (\<lambda>(w, k, v). writeLocal w k v) ws s) key =
    (case map_of (rev (map snd ws)) key of Some v \<Rightarrow> Some v | None \<Rightarrow> readLocal r s key)"
  using assms by (rule local_json.read_last)

theorem last_write_wins_witness:
  "readLocal True (fold (\<lambda>(w, k, v). writeLocal w k v) [(False, ''a'', JBool True), (True, ''a'', JArr [JStr ''x'']), (False, ''b'', JNull)]
     \<lparr>ls_memory = [], ls_unsaved = [], ls_items = []\<rparr>) ''a'' = Some (JArr [JStr ''x''])"
  using last_write_wins [of "[(False, ''a'', JBool True), (True, ''a'', JArr [JStr ''x'']), (False, ''b'', JNull)]" True
      "\<lparr>ls_memory = [], ls_unsaved = [], ls_items = []\<rparr>" "''a''"]
  by simp

lemma saved_later_texts: "saved_later r s = local_json.texts_at r SETUP_LATER_KEY s"
  by (simp add: saved_later_def local_json.texts_at_def)

lemma setUpLater_add: "setUpLater r w org project s = local_json.add_text r w SETUP_LATER_KEY (later_id org project) s"
  by (simp add: setUpLater_def local_json.add_text_def saved_later_texts)

text \<open>Choosing to set up later is remembered for that organisation and project and for no other, whether or
  not the browser stores it, and forgets no earlier choice.\<close>

lemma later_remembered:
  "choseLater r' (setUpLater r w org project s) org2 project2 \<longleftrightarrow>
     later_id org2 project2 = later_id org project \<or> choseLater r s org2 project2"
  by (auto simp: choseLater_def setUpLater_add saved_later_texts local_json.texts_after_add)

end
