(* ===== verification/Scope.thy ===== *)
theory Scope
  imports JsCore
begin

text \<open>
  Which project a page is about (\<open>lib/url-state.ts\<close>, \<open>lib/workspaces.ts\<close>): the scope that the router's rewrite
  takes off incoming addresses and puts back on outgoing ones, over the list of organisations and projects
  this person may read. Only an address's path takes part in the rewrite; its query and fragment are kept.
\<close>

section \<open>The list\<close>

record workspace_project =
  wp_id :: string
  wp_name :: string

record workspace =
  ws_id :: string
  ws_name :: string
  ws_projects :: "workspace_project list"

text \<open>\<open>list\<close>: \<open>null\<close> when the read failed.\<close>

definition workspaces :: "workspace list option \<Rightarrow> workspace list" where
  "workspaces read = (case read of Some l \<Rightarrow> l | None \<Rightarrow> [])"

definition workspacesRead :: "workspace list option \<Rightarrow> bool" where
  "workspacesRead read \<longleftrightarrow> read \<noteq> None"

definition setWorkspaces :: "workspace list option \<Rightarrow> workspace list option \<Rightarrow> workspace list option" where
  "setWorkspaces new old = new"

section \<open>The scope\<close>

record scope =
  sc_org :: string
  sc_project :: string

record scope_state =
  ss_list :: "workspace list option"
  ss_scope :: "scope option"
  ss_unknown :: bool

definition fallback :: "scope_state \<Rightarrow> scope" where
  "fallback s =
     (case workspaces (ss_list s) of
        [] \<Rightarrow> \<lparr>sc_org = ''default'', sc_project = ''default-project''\<rparr>
      | org # _ \<Rightarrow> \<lparr>sc_org = ws_id org,
          sc_project = (case ws_projects org of [] \<Rightarrow> ''default-project'' | p # _ \<Rightarrow> wp_id p)\<rparr>)"

definition currentScope :: "scope_state \<Rightarrow> scope" where
  "currentScope s = (case ss_scope s of Some c \<Rightarrow> c | None \<Rightarrow> fallback s)"

definition orgOnly :: "scope_state \<Rightarrow> bool" where
  "orgOnly s \<longleftrightarrow> ss_unknown s \<and> list_ex (\<lambda>o1. ws_id o1 = sc_org (currentScope s)) (workspaces (ss_list s))"

definition firstProjectPath :: "scope_state \<Rightarrow> string option" where
  "firstProjectPath s =
     (case workspaces (ss_list s) of
        [] \<Rightarrow> None
      | org # _ \<Rightarrow> (case ws_projects org of
            [] \<Rightarrow> None
          | p # _ \<Rightarrow> Some (''/org/'' @ ws_id org @ ''/project/'' @ wp_id p @ ''/overview'')))"

definition currentOrg :: "scope_state \<Rightarrow> workspace option" where
  "currentOrg s = find (\<lambda>o1. ws_id o1 = sc_org (currentScope s)) (workspaces (ss_list s))"

definition scopePrefix :: "scope_state \<Rightarrow> string" where
  "scopePrefix s = ''/org/'' @ sc_org (currentScope s) @ ''/project/'' @ sc_project (currentScope s)"

section \<open>Addresses\<close>

text \<open>\<open>^\/org\/([^/]+)\/project\/([^/]+)(\/.*)?$\<close>: the organisation, the project and what follows. A path holds no
  line break, so \<open>.\<close> matches everything in it.\<close>

definition after :: "string \<Rightarrow> string \<Rightarrow> string option" where
  "after p s = (if starts_with s p then Some (drop (length p) s) else None)"

definition path_segment :: "string \<Rightarrow> (string \<times> string) option" where
  "path_segment s =
     (let a = takeWhile (\<lambda>c. c \<noteq> CHR ''/'') s in if a = [] then None else Some (a, drop (length a) s))"

definition scoped :: "string \<Rightarrow> (string \<times> string \<times> string option) option" where
  "scoped path =
     Option.bind (after ''/org/'' path) (\<lambda>s1. Option.bind (path_segment s1) (\<lambda>(org, s2).
     Option.bind (after ''/project/'' s2) (\<lambda>s3. Option.bind (path_segment s3) (\<lambda>(project, s4).
       Some (org, project, if s4 = [] then None else Some s4)))))"

record location =
  lc_path :: string
  lc_search :: string
  lc_hash :: string

definition short_path :: "string \<Rightarrow> string" where
  "short_path p = (if p = ''/'' then [] else p)"

definition entryPath :: "scope_state \<Rightarrow> location \<Rightarrow> string option" where
  "entryPath s loc =
     (if scoped (lc_path loc) \<noteq> None then None
      else Some (scopePrefix s @ short_path (lc_path loc) @ lc_search loc @ lc_hash loc))"

text \<open>\<open>scopeRewrite.input\<close> and \<open>.output\<close>: the new state and the new path, or \<open>undefined\<close>.\<close>

definition known :: "workspace list \<Rightarrow> string \<Rightarrow> string \<Rightarrow> bool" where
  "known l org project \<longleftrightarrow>
     (case find (\<lambda>o1. ws_id o1 = org) l of
        None \<Rightarrow> False
      | Some o1 \<Rightarrow> list_ex (\<lambda>p. wp_id p = project) (ws_projects o1))"

definition rewrite_in :: "scope_state \<Rightarrow> string \<Rightarrow> scope_state \<times> string option" where
  "rewrite_in s path =
     (case scoped path of
        None \<Rightarrow> (s, None)
      | Some (org, project, rest) \<Rightarrow>
          (s\<lparr>ss_unknown := workspacesRead (ss_list s) \<and> \<not> known (workspaces (ss_list s)) org project,
             ss_scope := Some \<lparr>sc_org = org, sc_project = project\<rparr>\<rparr>,
           Some (case rest of Some r \<Rightarrow> r | None \<Rightarrow> ''/'')))"

definition rewrite_out :: "scope_state \<Rightarrow> string \<Rightarrow> string option" where
  "rewrite_out s path =
     (if scoped path \<noteq> None then None else Some (scopePrefix s @ short_path path))"

section \<open>Properties\<close>

text \<open>An id that can stand in an address.\<close>

definition address_id :: "string \<Rightarrow> bool" where
  "address_id i \<longleftrightarrow> i \<noteq> [] \<and> CHR ''/'' \<notin> set i"

lemma path_segment_id: "address_id i \<Longrightarrow> r = [] \<or> hd r = CHR ''/'' \<Longrightarrow> path_segment (i @ r) = Some (i, r)"
proof -
  assume i: "address_id i" and r: "r = [] \<or> hd r = CHR ''/''"
  have "takeWhile (\<lambda>c. c \<noteq> CHR ''/'') (i @ r) = i"
    using i r by (cases r) (auto simp: address_id_def takeWhile_tail)
  then show ?thesis using i by (simp add: path_segment_def address_id_def Let_def)
qed

lemma after_append [simp]: "after p (p @ s) = Some s"
  by (simp add: after_def)

lemma scoped_path:
  assumes "address_id org" "address_id project" "r = [] \<or> hd r = CHR ''/''"
  shows "scoped (''/org/'' @ org @ ''/project/'' @ project @ r) = Some (org, project, if r = [] then None else Some r)"
proof -
  have s1: "path_segment (org @ ''/project/'' @ project @ r) = Some (org, ''/project/'' @ project @ r)"
    by (rule path_segment_id [OF assms(1)]) simp
  have s2: "path_segment (project @ r) = Some (project, r)" by (rule path_segment_id [OF assms(2,3)])
  show ?thesis unfolding scoped_def by (simp only: after_append s1 s2 bind.bind_lunit prod.case)
qed

lemma path_segmentD: "path_segment s = Some (a, r) \<Longrightarrow> s = a @ r \<and> address_id a \<and> (r = [] \<or> hd r = CHR ''/'')"
proof -
  assume s: "path_segment s = Some (a, r)"
  then have a: "a = takeWhile (\<lambda>c. c \<noteq> CHR ''/'') s" "a \<noteq> []" "r = drop (length a) s"
    by (auto simp: path_segment_def Let_def split: if_splits)
  then have r: "r = dropWhile (\<lambda>c. c \<noteq> CHR ''/'') s" by (simp add: dropWhile_eq_drop)
  have "r = [] \<or> hd r = CHR ''/''" using hd_dropWhile [of "\<lambda>c. c \<noteq> CHR ''/''" s] r by auto
  moreover have "CHR ''/'' \<notin> set a" using a(1) by (auto dest: set_takeWhileD)
  moreover have "s = a @ r" unfolding a(1) r by simp
  ultimately show ?thesis using a(2) by (simp add: address_id_def)
qed

lemma scopedD:
  assumes "scoped path = Some (org, project, rest)"
  shows "path = ''/org/'' @ org @ ''/project/'' @ project @ (case rest of None \<Rightarrow> [] | Some r \<Rightarrow> r) \<and>
    address_id org \<and> address_id project \<and> pred_option (\<lambda>r. r \<noteq> [] \<and> hd r = CHR ''/'') rest"
proof -
  have aft: "after p s = Some t \<Longrightarrow> s = p @ t" for p s t
    by (auto simp: after_def starts_with_def split: if_splits) (metis append_take_drop_id)
  from assms obtain s1 s2 s3 s4 where s: "after ''/org/'' path = Some s1" "path_segment s1 = Some (org, s2)"
    "after ''/project/'' s2 = Some s3" "path_segment s3 = Some (project, s4)" "rest = (if s4 = [] then None else Some s4)"
    unfolding scoped_def bind_eq_Some_conv by (auto simp only: split_paired_all prod.case bind_eq_Some_conv option.inject prod.inject)
  from path_segmentD [OF s(2)] path_segmentD [OF s(4)] aft [OF s(1)] aft [OF s(3)] s(5) show ?thesis
    by auto
qed

text \<open>C18: an address the router writes for a path of the app is one it reads back as that path, under the same
  organisation and project.\<close>

theorem out_then_in:
  assumes "rewrite_out s path = Some url" "path = [] \<or> hd path = CHR ''/''"
    and "address_id (sc_org (currentScope s))" "address_id (sc_project (currentScope s))"
  shows "snd (rewrite_in s url) = Some (if path = [] then ''/'' else path) \<and>
    currentScope (fst (rewrite_in s url)) = currentScope s"
proof -
  let ?r = "short_path path"
  from assms(1) have u: "url = ''/org/'' @ sc_org (currentScope s) @ ''/project/'' @ sc_project (currentScope s) @ ?r"
    by (auto simp: rewrite_out_def scopePrefix_def split: if_splits)
  have "?r = [] \<or> hd ?r = CHR ''/''" using assms(2) by (auto simp: short_path_def)
  from scoped_path [OF assms(3,4) this] have "scoped url = Some (sc_org (currentScope s), sc_project (currentScope s),
      if ?r = [] then None else Some ?r)" unfolding u .
  then have i: "rewrite_in s url = (s\<lparr>ss_unknown := workspacesRead (ss_list s) \<and>
        \<not> known (workspaces (ss_list s)) (sc_org (currentScope s)) (sc_project (currentScope s)),
      ss_scope := Some (currentScope s)\<rparr>, Some (if path = [] then ''/'' else path))"
    by (simp add: rewrite_in_def short_path_def)
  have "currentScope (t\<lparr>ss_unknown := u, ss_scope := Some c\<rparr>) = c" for t u c
    by (simp add: currentScope_def)
  then show ?thesis unfolding i by (simp only: fst_conv snd_conv simp_thms)
qed

definition sample_scope :: scope_state where
  "sample_scope = \<lparr>ss_list = Some [\<lparr>ws_id = ''acme'', ws_name = ''Acme'', ws_projects = [\<lparr>wp_id = ''voice'', wp_name = ''Voice''\<rparr>]\<rparr>],
     ss_scope = None, ss_unknown = False\<rparr>"

theorem out_then_in_witness:
  "rewrite_out sample_scope ''/calls'' = Some ''/org/acme/project/voice/calls'' \<and>
   snd (rewrite_in sample_scope ''/org/acme/project/voice/calls'') = Some ''/calls''"
proof -
  have o1: "rewrite_out sample_scope ''/calls'' = Some ''/org/acme/project/voice/calls''" by code_simp
  have "address_id (sc_org (currentScope sample_scope))" "address_id (sc_project (currentScope sample_scope))" by code_simp+
  with out_then_in [OF o1] o1 show ?thesis by simp
qed

text \<open>a scoped address is read as its own organisation and project, known or not: no other project is ever
  opened in their place. It is called unknown exactly when the list was read and does not hold that project, and
  writing the path it was read as gives the address back, up to a trailing slash.\<close>

theorem in_keeps_address:
  assumes "scoped url = Some (org, project, rest)"
  shows "currentScope (fst (rewrite_in s url)) = \<lparr>sc_org = org, sc_project = project\<rparr> \<and>
    (ss_unknown (fst (rewrite_in s url)) \<longleftrightarrow> ss_list s \<noteq> None \<and>
      \<not> (\<exists>o1. find (\<lambda>w. ws_id w = org) (workspaces (ss_list s)) = Some o1 \<and> project \<in> wp_id ` set (ws_projects o1))) \<and>
    (\<forall>path. snd (rewrite_in s url) = Some path \<longrightarrow> scoped path = None \<longrightarrow>
      rewrite_out (fst (rewrite_in s url)) path = Some (if rest = Some ''/'' then butlast url else url))"
proof (intro conjI allI impI)
  have i: "rewrite_in s url = (s\<lparr>ss_unknown := workspacesRead (ss_list s) \<and> \<not> known (workspaces (ss_list s)) org project,
      ss_scope := Some \<lparr>sc_org = org, sc_project = project\<rparr>\<rparr>, Some (case rest of Some r \<Rightarrow> r | None \<Rightarrow> ''/''))"
    by (simp add: rewrite_in_def assms)
  show c: "currentScope (fst (rewrite_in s url)) = \<lparr>sc_org = org, sc_project = project\<rparr>"
    unfolding i by (simp add: currentScope_def)
  show "ss_unknown (fst (rewrite_in s url)) \<longleftrightarrow> ss_list s \<noteq> None \<and>
      \<not> (\<exists>o1. find (\<lambda>w. ws_id w = org) (workspaces (ss_list s)) = Some o1 \<and> project \<in> wp_id ` set (ws_projects o1))"
    unfolding i by (auto simp: workspacesRead_def known_def list_ex_iff split: option.splits)
  fix path
  assume "snd (rewrite_in s url) = Some path" and n: "scoped path = None"
  then have path: "path = (case rest of Some r \<Rightarrow> r | None \<Rightarrow> ''/'')" unfolding i by simp
  note u = scopedD [OF assms]
  have "rewrite_out (fst (rewrite_in s url)) path = Some (''/org/'' @ org @ ''/project/'' @ project @ short_path path)"
    using n c by (simp add: rewrite_out_def scopePrefix_def)
  moreover have "''/org/'' @ org @ ''/project/'' @ project @ short_path path = (if rest = Some ''/'' then butlast url else url)"
    using u unfolding path by (cases rest) (auto simp: short_path_def butlast_append)
  ultimately show "rewrite_out (fst (rewrite_in s url)) path = Some (if rest = Some ''/'' then butlast url else url)"
    by (simp only:)
qed

theorem in_keeps_address_witness:
  "currentScope (fst (rewrite_in sample_scope ''/org/other/project/x/calls'')) = \<lparr>sc_org = ''other'', sc_project = ''x''\<rparr> \<and>
   ss_unknown (fst (rewrite_in sample_scope ''/org/other/project/x/calls''))"
proof -
  have s: "scoped ''/org/other/project/x/calls'' = Some (''other'', ''x'', Some ''/calls'')" by code_simp
  have "ss_unknown (fst (rewrite_in sample_scope ''/org/other/project/x/calls''))" by code_simp
  with in_keeps_address [OF s, of sample_scope] show ?thesis by blast
qed

end
