(* ===== verification/MockWorkspaces.thy ===== *)
theory MockWorkspaces
  imports LocalStore Scope
begin

text \<open>
  The organisations and projects the mock API answers for (\<open>mocks/workspaces.ts\<close>): a fixed organisation, a
  second one on request, and the projects added to them, kept in the browser's store. A name's slug is its
  project's id. Names are ASCII here: any other character counts as a separator, as in the code.
\<close>

section \<open>Slugs\<close>

definition slug_char :: "char \<Rightarrow> bool" where
  "slug_char c \<longleftrightarrow> is_lower c \<or> is_digit c"

text \<open>\<open>.replace(/[^a-z0-9]+/g, '-')\<close>: one dash for each run of other characters.\<close>

fun dashes :: "bool \<Rightarrow> string \<Rightarrow> string" where
  "dashes run [] = []"
| "dashes run (c # cs) =
     (if slug_char c then c # dashes False cs
      else if run then dashes True cs else CHR ''-'' # dashes True cs)"

definition drop_dash :: "string \<Rightarrow> string" where
  "drop_dash s = (case s of [] \<Rightarrow> [] | c # cs \<Rightarrow> if c = CHR ''-'' then cs else s)"

definition drop_last_dash :: "string \<Rightarrow> string" where
  "drop_last_dash s = rev (drop_dash (rev s))"

definition slug :: "string \<Rightarrow> string" where
  "slug name = drop_last_dash (take 63 (drop_last_dash (drop_dash (dashes False (lower name)))))"

definition project :: "string \<Rightarrow> workspace_project" where
  "project name = \<lparr>wp_id = slug name, wp_name = name\<rparr>"

section \<open>Added projects\<close>

definition ADDED :: string where
  "ADDED = ''vg.mock-projects''"

text \<open>\<open>typeof a?.key === 'string'\<close>, and the text.\<close>

definition text_field :: "json \<Rightarrow> string \<Rightarrow> string option" where
  "text_field a k = (case prop_of a k of Some (Some (JStr t)) \<Rightarrow> Some t | _ \<Rightarrow> None)"

record added_project =
  ap_org :: string
  ap_id :: string
  ap_name :: string

definition added_of :: "json \<Rightarrow> added_project option" where
  "added_of a =
     Option.bind (text_field a ''orgId'') (\<lambda>org. Option.bind (text_field a ''id'') (\<lambda>i.
       map_option (\<lambda>n. \<lparr>ap_org = org, ap_id = i, ap_name = n\<rparr>) (text_field a ''name'')))"

definition added :: "bool \<Rightarrow> local_store \<Rightarrow> json list" where
  "added r s =
     (case readLocal r s ADDED of
        Some (JArr xs) \<Rightarrow> filter (\<lambda>a. added_of a \<noteq> None) xs
      | _ \<Rightarrow> [])"

definition EMPTY_ORG :: string where
  "EMPTY_ORG = ''new-voice-team''"

definition emptyOrgWanted :: "bool \<Rightarrow> local_store \<Rightarrow> bool" where
  "emptyOrgWanted r s \<longleftrightarrow> readLocal r s ''vg.mock-empty-org'' = Some (JBool True)"

definition projectsOf :: "bool \<Rightarrow> local_store \<Rightarrow> string \<Rightarrow> workspace_project list" where
  "projectsOf r s orgId =
     map (\<lambda>a. \<lparr>wp_id = ap_id a, wp_name = ap_name a\<rparr>)
       (filter (\<lambda>a. ap_org a = orgId) (somes (map added_of (added r s))))"

definition mock_workspaces :: "bool \<Rightarrow> local_store \<Rightarrow> workspace list" where
  "mock_workspaces r s =
     \<lparr>ws_id = ''default'', ws_name = ''Your organization'',
       ws_projects = project ''Default project'' # projectsOf r s ''default''\<rparr> #
     (if emptyOrgWanted r s
      then [\<lparr>ws_id = EMPTY_ORG, ws_name = ''New voice team'', ws_projects = projectsOf r s EMPTY_ORG\<rparr>] else [])"

definition knownProject :: "bool \<Rightarrow> local_store \<Rightarrow> string \<Rightarrow> string \<Rightarrow> bool" where
  "knownProject r s orgId projectId \<longleftrightarrow>
     list_ex (\<lambda>w. ws_id w = orgId \<and> list_ex (\<lambda>p. wp_id p = projectId) (ws_projects w)) (mock_workspaces r s)"

definition knownOrg :: "bool \<Rightarrow> local_store \<Rightarrow> string \<Rightarrow> bool" where
  "knownOrg r s orgId \<longleftrightarrow> list_ex (\<lambda>w. ws_id w = orgId) (mock_workspaces r s)"

definition added_json :: "string \<Rightarrow> workspace_project \<Rightarrow> json" where
  "added_json orgId p = JObj [(''orgId'', JStr orgId), (''id'', JStr (wp_id p)), (''name'', JStr (wp_name p))]"

text \<open>\<open>addProject\<close>: the left summand is \<open>'project_exists'\<close>.\<close>

definition addProject :: "bool \<Rightarrow> bool \<Rightarrow> string \<Rightarrow> string \<Rightarrow> local_store \<Rightarrow> (string + workspace_project) \<times> local_store" where
  "addProject r w orgId name s =
     (let p = project (trim name)
      in if knownProject r s orgId (wp_id p) then (Inl ''project_exists'', s)
         else (Inr p, writeLocal w ADDED (JArr (added r s @ [added_json orgId p])) s))"

section \<open>Properties\<close>

lemma dashes_chars: "c \<in> set (dashes run s) \<Longrightarrow> slug_char c \<or> c = CHR ''-''"
  by (induction run s rule: dashes.induct) (auto split: if_splits)

lemma drop_dash_subset: "set (drop_dash s) \<subseteq> set s" "length (drop_dash s) \<le> length s"
  by (cases s; auto simp: drop_dash_def)+

lemma drop_last_dash_subset: "set (drop_last_dash s) \<subseteq> set s" "length (drop_last_dash s) \<le> length s"
  using drop_dash_subset [of "rev s"] by (simp_all add: drop_last_dash_def)

text \<open>No two dashes in a row.\<close>

definition single_dashes :: "string \<Rightarrow> bool" where
  "single_dashes s \<longleftrightarrow> (\<forall>a b. s \<noteq> a @ ''--'' @ b)"

lemma slug_char_dash [simp]: "\<not> slug_char (CHR ''-'')"
  by code_simp

lemma single_dashes_Cons: "single_dashes (c # s) \<longleftrightarrow> single_dashes s \<and> \<not> (c = CHR ''-'' \<and> s \<noteq> [] \<and> hd s = CHR ''-'')"
proof
  assume a: "single_dashes (c # s)"
  have "s = x @ ''--'' @ y \<Longrightarrow> c # s = (c # x) @ ''--'' @ y" for x y by simp
  with a have "single_dashes s" unfolding single_dashes_def by metis
  moreover have "c = CHR ''-'' \<and> s \<noteq> [] \<and> hd s = CHR ''-'' \<Longrightarrow> c # s = [] @ ''--'' @ tl s" by (cases s) auto
  ultimately show "single_dashes s \<and> \<not> (c = CHR ''-'' \<and> s \<noteq> [] \<and> hd s = CHR ''-'')"
    using a unfolding single_dashes_def by metis
next
  assume a: "single_dashes s \<and> \<not> (c = CHR ''-'' \<and> s \<noteq> [] \<and> hd s = CHR ''-'')"
  show "single_dashes (c # s)"
    unfolding single_dashes_def
  proof (intro allI notI)
    fix x y assume e: "c # s = x @ ''--'' @ y"
    show False using a e unfolding single_dashes_def by (cases x) auto
  qed
qed

lemma dashes_single: "single_dashes (dashes run s) \<and> (run \<longrightarrow> dashes run s = [] \<or> hd (dashes run s) \<noteq> CHR ''-'')"
proof (induction run s rule: dashes.induct)
  case (1 run)
  then show ?case by (simp add: single_dashes_def)
next
  case (2 run c cs)
  then show ?case by (auto simp: single_dashes_Cons)
qed

lemma single_dashes_sub: "single_dashes (a @ s @ b) \<Longrightarrow> single_dashes s"
  unfolding single_dashes_def by (metis append.assoc)

lemma drop_last_dash_snoc: "drop_last_dash (t @ [c]) = (if c = CHR ''-'' then t else t @ [c])"
  by (simp add: drop_last_dash_def drop_dash_def)

lemma last_drop: "single_dashes s \<Longrightarrow> drop_last_dash s \<noteq> [] \<Longrightarrow> last (drop_last_dash s) \<noteq> CHR ''-''"
proof (induction s rule: rev_induct)
  case Nil
  then show ?case by (simp add: drop_last_dash_def drop_dash_def)
next
  case (snoc c t)
  show ?case
  proof (cases "c = CHR ''-''")
    case True
    have "t @ [c] \<noteq> butlast t @ ''--'' @ []" using snoc.prems(1) unfolding single_dashes_def by blast
    moreover have "t \<noteq> []" using snoc.prems(2) True by (auto simp: drop_last_dash_snoc)
    moreover from this have "t = butlast t @ [last t]" by simp
    ultimately have "last t \<noteq> CHR ''-''" using True by (metis append.assoc append_Cons append_Nil)
    then show ?thesis by (simp add: drop_last_dash_snoc True)
  qed (simp add: drop_last_dash_snoc)
qed

lemma head_drop: "single_dashes s \<Longrightarrow> drop_dash s = [] \<or> hd (drop_dash s) \<noteq> CHR ''-''"
  by (cases s) (auto simp: drop_dash_def single_dashes_Cons)

lemma dash_prefix: "\<exists>b. s = drop_last_dash s @ b" "\<exists>a. s = a @ drop_dash s"
proof -
  show p: "\<exists>a. s = a @ drop_dash s" for s by (cases s) (auto simp: drop_dash_def)
  from p [of "rev s"] show "\<exists>b. s = drop_last_dash s @ b"
    unfolding drop_last_dash_def by (metis rev_append rev_rev_ident)
qed

lemma slug_shape:
  obtains a where "single_dashes a" "a = [] \<or> hd a \<noteq> CHR ''-''" "set a \<subseteq> set (dashes False (lower name))"
    "slug name = drop_last_dash (take 63 a)"
proof -
  define d where "d = drop_dash (dashes False (lower name))"
  obtain x where x: "dashes False (lower name) = x @ d" using dash_prefix(2) unfolding d_def by blast
  obtain y where y: "d = drop_last_dash d @ y" using dash_prefix(1) by blast
  have sd: "single_dashes d" using dashes_single [of False "lower name"] single_dashes_sub [of x d "[]"] x by simp
  have s1: "single_dashes (drop_last_dash d)" using single_dashes_sub [of "[]" "drop_last_dash d" y] sd y by simp
  have "d = [] \<or> hd d \<noteq> CHR ''-''" unfolding d_def by (rule head_drop) (use dashes_single in blast)
  then have s2: "drop_last_dash d = [] \<or> hd (drop_last_dash d) \<noteq> CHR ''-''"
    using y by (metis hd_append2 append_is_Nil_conv)
  have s3: "set (drop_last_dash d) \<subseteq> set (dashes False (lower name))"
    using drop_last_dash_subset(1) [of d] drop_dash_subset(1) unfolding d_def by blast
  have s4: "slug name = drop_last_dash (take 63 (drop_last_dash d))" by (simp add: slug_def d_def)
  show thesis by (rule that [OF s1 s2 s3 s4])
qed

text \<open>C16: a slug is at most 63 characters, only lower case letters, digits and single dashes, with none at either
  end, so it is an id an address can hold whenever it is not empty.\<close>

theorem slug_form:
  "length (slug name) \<le> 63 \<and> list_all (\<lambda>c. slug_char c \<or> c = CHR ''-'') (slug name) \<and> single_dashes (slug name) \<and>
   (slug name = [] \<or> hd (slug name) \<noteq> CHR ''-'' \<and> last (slug name) \<noteq> CHR ''-'' \<and> address_id (slug name))"
proof -
  obtain a where a: "single_dashes a" "a = [] \<or> hd a \<noteq> CHR ''-''" "set a \<subseteq> set (dashes False (lower name))"
    "slug name = drop_last_dash (take 63 a)" by (rule slug_shape)
  obtain y where y: "take 63 a = slug name @ y" using dash_prefix(1) [of "take 63 a"] unfolding a(4) [symmetric] by blast
  have t: "single_dashes (take 63 a)" using single_dashes_sub [of "[]" "take 63 a" "drop 63 a"] a(1) by simp
  have chars: "list_all (\<lambda>c. slug_char c \<or> c = CHR ''-'') (slug name)"
    unfolding list_all_iff
  proof
    fix c assume "c \<in> set (slug name)"
    then have "c \<in> set (take 63 a)" unfolding y by simp
    then show "slug_char c \<or> c = CHR ''-''" using a(3) dashes_chars [of c False "lower name"] by (auto dest!: in_set_takeD)
  qed
  have "length (slug name) \<le> length (take 63 a)" unfolding y by simp
  then have len: "length (slug name) \<le> 63" by simp
  have sd: "single_dashes (slug name)" using single_dashes_sub [of "[]" "slug name" y] t unfolding y by simp
  have last: "slug name \<noteq> [] \<Longrightarrow> last (slug name) \<noteq> CHR ''-''" unfolding a(4) by (rule last_drop [OF t])
  have hd: "slug name \<noteq> [] \<Longrightarrow> hd (slug name) \<noteq> CHR ''-''"
  proof -
    assume n: "slug name \<noteq> []"
    then have "take 63 a \<noteq> []" unfolding y by simp
    then have "a \<noteq> []" "hd (take 63 a) = hd a" by (simp_all add: hd_take)
    moreover have "hd (take 63 a) = hd (slug name)" unfolding y using n by (rule hd_append2)
    ultimately show ?thesis using a(2) by metis
  qed
  have "\<not> slug_char (CHR ''/'')" by code_simp
  then have "CHR ''/'' \<notin> set (slug name)" using chars by (auto simp: list_all_iff)
  with len chars sd last hd show ?thesis unfolding address_id_def by blast
qed

text \<open>What is stored can be written again.\<close>

definition tidy_added :: "bool \<Rightarrow> local_store \<Rightarrow> bool" where
  "tidy_added r s \<longleftrightarrow> list_all sendable (added r s)"

lemma added_json_ok: "sendable (added_json orgId p)" "added_of (added_json orgId p) = Some \<lparr>ap_org = orgId, ap_id = wp_id p, ap_name = wp_name p\<rparr>"
proof -
  have "array_index ''orgId'' = None" "array_index ''id'' = None" "array_index ''name'' = None" by code_simp+
  then show "sendable (added_json orgId p)" by (simp add: added_json_def)
  show "added_of (added_json orgId p) = Some \<lparr>ap_org = orgId, ap_id = wp_id p, ap_name = wp_name p\<rparr>"
    by (simp add: added_json_def added_of_def text_field_def)
qed

lemma added_after:
  assumes "tidy_added r s" "addProject r w orgId name s = (Inr p, s')"
  shows "added r' s' = added r s @ [added_json orgId p]" "p = project (trim name)" "\<not> knownProject r s orgId (wp_id p)"
    "emptyOrgWanted r' s' = emptyOrgWanted r' s"
proof -
  from assms(2) have p: "p = project (trim name)" "\<not> knownProject r s orgId (wp_id p)"
    and s': "s' = writeLocal w ADDED (JArr (added r s @ [added_json orgId p])) s"
    by (auto simp: addProject_def Let_def split: if_splits)
  then show "p = project (trim name)" "\<not> knownProject r s orgId (wp_id p)" by blast+
  have ok: "sendable (JArr (added r s @ [added_json orgId p]))"
    using assms(1) added_json_ok(1) by (simp add: tidy_added_def)
  have f: "list_all (\<lambda>a. added_of a \<noteq> None) (added r s)" by (auto simp: added_def list_all_iff split: option.splits json.splits)
  show "added r' s' = added r s @ [added_json orgId p]"
    using f unfolding s'
    by (simp add: added_def [of r'] readLocal_same [OF ok] added_json_ok(2) list_all_iff del: append_assoc)
  have "ADDED \<noteq> ''vg.mock-empty-org''" by code_simp
  then show "emptyOrgWanted r' s' = emptyOrgWanted r' s" unfolding emptyOrgWanted_def s' by (simp add: readLocal_other)
qed

lemma projectsOf_after:
  assumes "tidy_added r s" "addProject r w orgId name s = (Inr p, s')"
  shows "projectsOf r' s' o2 = projectsOf r s o2 @ (if orgId = o2 then [p] else [])"
proof -
  have sm: "somes (xs @ [Some y]) = somes xs @ [y]" for xs :: "'a option list" and y
    by (induction xs rule: somes.induct) simp_all
  show ?thesis unfolding projectsOf_def added_after(1) [OF assms] by (simp add: added_json_ok(2) sm)
qed

text \<open>C17: adding a project either finds its id taken and changes nothing, or adds exactly that project at the end
  of its organisation and nothing anywhere else, whether or not the browser could store it; every organisation's
  project ids stay distinct.\<close>

theorem addProject_adds:
  assumes "tidy_added r s" "emptyOrgWanted r' s = emptyOrgWanted r s"
    and "list_all (\<lambda>x. distinct (map wp_id (ws_projects x))) (mock_workspaces r s)"
  shows "case addProject r w orgId name s of
      (Inl e, s') \<Rightarrow> s' = s \<and> knownProject r s orgId (slug (trim name))
    | (Inr p, s') \<Rightarrow> wp_id p = slug (trim name) \<and>
        mock_workspaces r' s' = map (\<lambda>x. if ws_id x = orgId then x\<lparr>ws_projects := ws_projects x @ [p]\<rparr> else x) (mock_workspaces r s) \<and>
        list_all (\<lambda>x. distinct (map wp_id (ws_projects x))) (mock_workspaces r' s')"
proof (cases "addProject r w orgId name s")
  case (Pair res s')
  show ?thesis
  proof (cases res)
    case (Inl e)
    with Pair show ?thesis by (auto simp: addProject_def Let_def project_def split: if_splits)
  next
    case (Inr p)
    note a = added_after [OF assms(1) Pair [unfolded Inr]] and q = projectsOf_after [OF assms(1) Pair [unfolded Inr]]
    have m: "mock_workspaces r' s' = map (\<lambda>x. if ws_id x = orgId then x\<lparr>ws_projects := ws_projects x @ [p]\<rparr> else x) (mock_workspaces r s)"
      unfolding mock_workspaces_def q a(4) assms(2) by (auto simp: EMPTY_ORG_def)
    have fresh: "x \<in> set (mock_workspaces r s) \<Longrightarrow> ws_id x = orgId \<Longrightarrow> wp_id p \<notin> wp_id ` set (ws_projects x)" for x
      using a(3) unfolding knownProject_def list_ex_iff by (metis imageE)
    have "list_all (\<lambda>x. distinct (map wp_id (ws_projects x))) (mock_workspaces r' s')"
      unfolding m using assms(3) fresh by (auto simp: list_all_iff)
    with Pair Inr a(2) m show ?thesis by (simp add: project_def)
  qed
qed

definition empty_store :: local_store where
  "empty_store = \<lparr>ls_memory = [], ls_unsaved = [], ls_items = []\<rparr>"

theorem addProject_adds_witness:
  "case addProject False True ''default'' '' Voice Bot!'' empty_store of
      (Inl e, s') \<Rightarrow> False
    | (Inr p, s') \<Rightarrow> wp_id p = ''voice-bot'' \<and> knownProject False s' ''default'' ''voice-bot''"
proof -
  have t: "tidy_added False empty_store" by code_simp
  have d: "list_all (\<lambda>x. distinct (map wp_id (ws_projects x))) (mock_workspaces False empty_store)" by code_simp
  note a = addProject_adds [OF t refl d, where w = True and orgId = "''default''" and name = "'' Voice Bot!''"]
  have s: "slug (trim '' Voice Bot!'') = ''voice-bot''" by code_simp
  have k: "\<not> knownProject False empty_store ''default'' ''voice-bot''" by code_simp
  have m: "mock_workspaces False empty_store = [\<lparr>ws_id = ''default'', ws_name = ''Your organization'', ws_projects = [project ''Default project'']\<rparr>]"
    by code_simp
  from a show ?thesis unfolding s m using k
    by (auto simp: knownProject_def split: sum.splits)
qed

end
