(* ===== verification/Analytics.thy ===== *)
theory Analytics
  imports JsJson JsUrl
begin

text \<open>
  Product analytics (\<open>lib/analytics.ts\<close>) and error reporting (\<open>lib/monitoring.ts\<close>): what may leave the page.
  The first part is what both strip from an event before it is sent; the second is the life of the analytics
  client as a step relation: starts that end later and may fail, events held until then, sign-out. An event's
  unknown values are JSON.
\<close>

section \<open>Addresses\<close>

definition url_cut :: "char \<Rightarrow> bool" where
  "url_cut c \<longleftrightarrow> c = CHR ''?'' \<or> c = CHR ''#''"

definition scrubUrl :: "string \<Rightarrow> string" where
  "scrubUrl raw = (case search url_cut raw of None \<Rightarrow> raw | Some n \<Rightarrow> take n raw)"

definition stripUrl :: "json \<Rightarrow> json" where
  "stripUrl v = (case v of JStr s \<Rightarrow> JStr (case search url_cut s of None \<Rightarrow> s | Some n \<Rightarrow> take n s) | _ \<Rightarrow> v)"

lemma scrubUrl_takeWhile: "scrubUrl s = takeWhile (\<lambda>c. \<not> url_cut c) s"
proof (cases "search url_cut s")
  case None
  then have "\<forall>c \<in> set s. \<not> url_cut c" by (simp add: search_None)
  then have "takeWhile (\<lambda>c. \<not> url_cut c) s = s" by (simp add: takeWhile_eq_all_conv)
  then show ?thesis by (simp only: scrubUrl_def None option.case)
qed (simp add: scrubUrl_def search_take)

lemma scrubUrl_clean: "c \<in> set (scrubUrl s) \<Longrightarrow> \<not> url_cut c"
  unfolding scrubUrl_takeWhile by (drule set_takeWhileD) simp

lemma scrubUrl_idem [simp]: "scrubUrl (scrubUrl s) = scrubUrl s"
  by (simp add: scrubUrl_takeWhile)

lemma stripUrl_text [simp]: "stripUrl (JStr s) = JStr (scrubUrl s)"
  by (simp add: stripUrl_def scrubUrl_def)

lemma stripUrl_idem [simp]: "stripUrl (stripUrl v) = stripUrl v"
  by (cases v) (simp_all add: stripUrl_def scrubUrl_def [symmetric])

section \<open>Analytics events\<close>

definition URL_PROPERTIES :: "string list" where
  "URL_PROPERTIES = [''$current_url'', ''$referrer'', ''$initial_current_url'', ''$initial_referrer'',
     ''$session_entry_url'', ''$session_entry_referrer'', ''$prev_pageview_pathname'']"

definition CAMPAIGN_PROPERTIES :: "string list" where
  "CAMPAIGN_PROPERTIES = [''utm_source'', ''utm_medium'', ''utm_campaign'', ''utm_content'', ''utm_term'', ''gad_source'',
     ''mc_cid'', ''gclid'', ''gclsrc'', ''dclid'', ''gbraid'', ''wbraid'', ''fbclid'', ''msclkid'', ''twclid'', ''li_fat_id'',
     ''igshid'', ''ttclid'', ''rdt_cid'', ''epik'', ''qclid'', ''sccid'', ''oppref'', ''bfcid'', ''irclid'', ''_kx'']"

text \<open>\<open>key.replace(/^\$(initial_|session_entry_)/, '')\<close>\<close>

definition drop_entry :: "string \<Rightarrow> string" where
  "drop_entry key =
     (if starts_with key ''$initial_'' then drop 9 key
      else if starts_with key ''$session_entry_'' then drop 15 key else key)"

definition isCampaignProperty :: "string \<Rightarrow> bool" where
  "isCampaignProperty key \<longleftrightarrow> drop_entry key \<in> set CAMPAIGN_PROPERTIES"

type_synonym bag = "(string \<times> json) list"

record capture_result =
  cr_event :: string
  cr_properties :: "bag option"
  cr_set :: "bag option"
  cr_set_once :: "bag option"

text \<open>\<open>for (key of URL_PROPERTIES) if (key in bag) bag[key] = stripUrl(bag[key])\<close>, then the campaign keys go.\<close>

fun strip_keys :: "string list \<Rightarrow> bag \<Rightarrow> bag" where
  "strip_keys [] b = b"
| "strip_keys (k # ks) b = strip_keys ks (case map_of b k of Some v \<Rightarrow> mp_set k (stripUrl v) b | None \<Rightarrow> b)"

definition scrub_bag :: "bag \<Rightarrow> bag" where
  "scrub_bag b = filter (\<lambda>p. \<not> isCampaignProperty (fst p)) (strip_keys URL_PROPERTIES b)"

definition scrub :: "capture_result option \<Rightarrow> capture_result option" where
  "scrub event = map_option (\<lambda>e. e\<lparr>cr_properties := map_option scrub_bag (cr_properties e),
     cr_set := map_option scrub_bag (cr_set e), cr_set_once := map_option scrub_bag (cr_set_once e)\<rparr>) event"

section \<open>Error events\<close>

record sentry_request =
  sr_url :: "string option"
  sr_query_string :: "json option"
  sr_cookies :: "json option"
  sr_headers :: "json option"
  sr_data :: "json option"

record breadcrumb =
  bc_category :: "string option"
  bc_data :: "bag option"

record sentry_event =
  se_message :: "string option"
  se_user :: "json option"
  se_request :: "sentry_request option"
  se_breadcrumbs :: "breadcrumb list option"

definition scrub_key :: "string \<Rightarrow> bag \<Rightarrow> bag" where
  "scrub_key k b = (case map_of b k of Some (JStr s) \<Rightarrow> mp_set k (JStr (scrubUrl s)) b | _ \<Rightarrow> b)"

definition scrubBreadcrumb :: "breadcrumb \<Rightarrow> breadcrumb" where
  "scrubBreadcrumb crumb =
     (case bc_data crumb of
        None \<Rightarrow> crumb
      | Some d \<Rightarrow> crumb\<lparr>bc_data := Some (fold scrub_key [''url'', ''from'', ''to''] d)\<rparr>)"

text \<open>An empty address is left as it is (\<open>if (event.request.url)\<close>), which scrubbing would not change.\<close>

definition scrub_request :: "sentry_request \<Rightarrow> sentry_request" where
  "scrub_request r = \<lparr>sr_url = map_option scrubUrl (sr_url r), sr_query_string = None, sr_cookies = None,
     sr_headers = None, sr_data = None\<rparr>"

definition scrubEvent :: "sentry_event \<Rightarrow> sentry_event" where
  "scrubEvent e = e\<lparr>se_user := None, se_request := map_option scrub_request (se_request e),
     se_breadcrumbs := map_option (map scrubBreadcrumb) (se_breadcrumbs e)\<rparr>"

definition URL_PARTS :: "string list" where
  "URL_PARTS = [''url.query'', ''url.fragment'', ''http.query'', ''http.fragment'']"

definition scrubValue :: "json \<Rightarrow> json" where
  "scrubValue v =
     (case v of
        JStr s \<Rightarrow> JStr (scrubUrl s)
      | JObj kvs \<Rightarrow> (case map_of kvs ''value'' of Some (JStr s) \<Rightarrow> JObj (mp_set ''value'' (JStr (scrubUrl s)) kvs) | _ \<Rightarrow> v)
      | _ \<Rightarrow> v)"

record streamed_span =
  st_name :: string
  st_attributes :: bag

definition url_attribute :: "string \<Rightarrow> bool" where
  "url_attribute key \<longleftrightarrow> key = ''url'' \<or> starts_with key ''url.'' \<or> starts_with key ''http.''"

definition scrubSpan :: "streamed_span \<Rightarrow> streamed_span" where
  "scrubSpan s = \<lparr>st_name = scrubUrl (st_name s),
     st_attributes = map (\<lambda>(k, v). (k, if url_attribute k then scrubValue v else v))
       (filter (\<lambda>(k, v). k \<notin> set URL_PARTS) (st_attributes s))\<rparr>"

section \<open>What scrubbing leaves\<close>

lemma mp_set_keys: "map_of b k \<noteq> None \<Longrightarrow> map fst (mp_set k v b) = map fst b"
  by (induction b) (auto split: if_splits)

lemma strip_keys_get:
  "map_of (strip_keys ks b) k = (if k \<in> set ks then map_option stripUrl (map_of b k) else map_of b k)"
proof (induction ks arbitrary: b)
  case (Cons j ks)
  show ?case
  proof (cases "map_of b j")
    case None
    with Cons show ?thesis by auto
  next
    case (Some v)
    with Cons show ?thesis by (auto simp: mp_store.get_put option.map_comp comp_def)
  qed
qed simp

lemma strip_keys_fst: "map fst (strip_keys ks b) = map fst b"
proof (induction ks arbitrary: b)
  case (Cons j ks)
  then show ?case by (cases "map_of b j") (simp_all add: mp_set_keys)
qed simp

lemma map_of_filter_keys: "map_of (filter (\<lambda>p. P (fst p)) b) k = (if P k then map_of b k else None)"
  by (induction b) auto

lemma scrub_bag_get:
  "map_of (scrub_bag b) k = (if isCampaignProperty k then None
     else if k \<in> set URL_PROPERTIES then map_option stripUrl (map_of b k) else map_of b k)"
  unfolding scrub_bag_def map_of_filter_keys [of "\<lambda>k. \<not> isCampaignProperty k"] strip_keys_get by simp

text \<open>The bag with the same properties but for the campaign keys, and addresses without query or fragment.\<close>

definition scrubbed_bag :: "bag option \<Rightarrow> bag option \<Rightarrow> bool" where
  "scrubbed_bag old new \<longleftrightarrow>
     (case (old, new) of
        (Some b, Some b') \<Rightarrow>
          (\<forall>k. map_of b' k = (if isCampaignProperty k then None
             else if k \<in> set URL_PROPERTIES then map_option stripUrl (map_of b k) else map_of b k))
      | (None, None) \<Rightarrow> True
      | _ \<Rightarrow> False)"

lemma scrub_bag_ok: "scrubbed_bag b (map_option scrub_bag b)"
  by (cases b) (simp_all add: scrubbed_bag_def scrub_bag_get)

lemma mp_set_same: "map_of b k = Some v \<Longrightarrow> mp_set k v b = b"
  by (induction b) (auto split: if_splits)

lemma strip_keys_done: "(\<And>k v. k \<in> set ks \<Longrightarrow> map_of b k = Some v \<Longrightarrow> stripUrl v = v) \<Longrightarrow> strip_keys ks b = b"
proof (induction ks)
  case (Cons j ks)
  have "(case map_of b j of Some v \<Rightarrow> mp_set j (stripUrl v) b | None \<Rightarrow> b) = b"
    using Cons.prems [of j] by (cases "map_of b j") (simp_all add: mp_set_same)
  moreover have "strip_keys ks b = b" by (rule Cons.IH) (use Cons.prems in auto)
  ultimately show ?case by simp
qed simp

lemma scrub_bag_idem: "scrub_bag (scrub_bag b) = scrub_bag b"
proof -
  have "strip_keys URL_PROPERTIES (scrub_bag b) = scrub_bag b"
    by (rule strip_keys_done) (auto simp: scrub_bag_get split: if_splits)
  then show ?thesis unfolding scrub_bag_def [of "scrub_bag b"] by (simp add: scrub_bag_def)
qed


definition crumb_clean :: "breadcrumb \<Rightarrow> bool" where
  "crumb_clean c \<longleftrightarrow>
     (case bc_data c of
        None \<Rightarrow> True
      | Some d \<Rightarrow> list_all (\<lambda>k. case map_of d k of Some (JStr s) \<Rightarrow> list_all (\<lambda>c. \<not> url_cut c) s | _ \<Rightarrow> True)
          [''url'', ''from'', ''to''])"

lemma scrub_key_get:
  "map_of (scrub_key k b) j = (if j = k then map_option (\<lambda>v. case v of JStr s \<Rightarrow> JStr (scrubUrl s) | _ \<Rightarrow> v) (map_of b j) else map_of b j)"
  by (cases "map_of b k") (auto simp: scrub_key_def mp_store.get_put split: json.splits)

lemma crumb_clean_scrub: "crumb_clean (scrubBreadcrumb c)"
proof (cases "bc_data c")
  case (Some d)
  have u: "list_all (\<lambda>c. \<not> url_cut c) (scrubUrl s)" for s using scrubUrl_clean by (auto simp: list_all_iff)
  have e: "bc_data (scrubBreadcrumb c) = Some (scrub_key ''to'' (scrub_key ''from'' (scrub_key ''url'' d)))"
    using Some by (simp add: scrubBreadcrumb_def)
  show ?thesis unfolding crumb_clean_def e
    by (simp add: scrub_key_get u split: option.split json.split)
qed (simp add: crumb_clean_def scrubBreadcrumb_def)

text \<open>An error event that is sent names no user and carries no query string, cookies, headers or body; its request's
  address and the addresses in its breadcrumbs have no query and no fragment.\<close>

lemma scrubEvent_strips:
  "se_user (scrubEvent e) = None \<and> se_message (scrubEvent e) = se_message e \<and>
   (case se_request (scrubEvent e) of
      None \<Rightarrow> se_request e = None
    | Some r \<Rightarrow> sr_query_string r = None \<and> sr_cookies r = None \<and> sr_headers r = None \<and> sr_data r = None \<and>
        list_all (\<lambda>c. \<not> url_cut c) (case sr_url r of Some u \<Rightarrow> u | None \<Rightarrow> [])) \<and>
   list_all crumb_clean (case se_breadcrumbs (scrubEvent e) of Some bs \<Rightarrow> bs | None \<Rightarrow> [])"
proof -
  have u: "list_all (\<lambda>c. \<not> url_cut c) (scrubUrl s)" for s using scrubUrl_clean by (auto simp: list_all_iff)
  show ?thesis
    by (cases "se_request e"; cases "se_breadcrumbs e")
      (auto simp: scrubEvent_def scrub_request_def u list_all_iff crumb_clean_scrub split: option.split
        dest: u [unfolded list_all_iff, rule_format])
qed

section \<open>The life of the analytics client\<close>

record posthog_config =
  pc_key :: string
  pc_host :: string

datatype sign_in_method = Google | Github | Auth0

datatype analytics_event =
    SignInStarted sign_in_method
  | SignedIn
  | InvitationAccepted
  | ProjectCreated string
  | SetupStepReached string nat
  | SetupDeferred string "nat option"

text \<open>What PostHog is told, in order.\<close>

datatype posthog_call =
    PhInit posthog_config
  | PhCapture analytics_event
  | PhIdentify string
  | PhRegister
  | PhReset

text \<open>The module's variables, the starts that wait for the library's chunk, and the calls made on it.\<close>

record analytics =
  an_client :: bool
  an_pending :: "analytics_event list option"
  an_signedOut :: bool
  an_starting :: "posthog_config list"
  an_calls :: "posthog_call list"

definition PENDING_MAX :: nat where
  "PENDING_MAX = 20"

definition analytics0 :: analytics where
  "analytics0 = \<lparr>an_client = False, an_pending = Some [], an_signedOut = False, an_starting = [], an_calls = []\<rparr>"

definition tell :: "posthog_call list \<Rightarrow> analytics \<Rightarrow> analytics" where
  "tell cs s = s\<lparr>an_calls := an_calls s @ cs\<rparr>"

text \<open>\<open>startAnalytics\<close> up to its \<open>await\<close>.\<close>

definition startAnalytics :: "posthog_config option \<Rightarrow> analytics \<Rightarrow> analytics" where
  "startAnalytics on s =
     (if an_client s then s
      else case on of
        None \<Rightarrow> s\<lparr>an_pending := None\<rparr>
      | Some c \<Rightarrow> s\<lparr>an_starting := an_starting s @ [c]\<rparr>)"

text \<open>How the awaited part ends: the chunk or \<open>init\<close> fails, or it starts; then sending the held events may throw
  after some of them (\<open>Some n\<close>). Whatever ends it, nothing is held any more.\<close>

datatype start_end = NotLoaded | InitThrew | Started "nat option"

definition held :: "analytics \<Rightarrow> analytics_event list" where
  "held s = (case an_pending s of Some p \<Rightarrow> p | None \<Rightarrow> [])"

definition finish_start :: "posthog_config \<Rightarrow> start_end \<Rightarrow> analytics \<Rightarrow> analytics" where
  "finish_start c e s =
     (case e of
        NotLoaded \<Rightarrow> s
      | InitThrew \<Rightarrow> tell [PhInit c] s
      | Started n \<Rightarrow> tell (PhInit c # map PhCapture (case n of None \<Rightarrow> held s | Some k \<Rightarrow> take k (held s))) s\<lparr>an_client := True\<rparr>)
     \<lparr>an_pending := None, an_starting := remove1 c (an_starting s)\<rparr>"

text \<open>\<open>identify\<close>, given the session's id if there is one (and not empty).\<close>

definition identify :: "string option \<Rightarrow> analytics \<Rightarrow> analytics" where
  "identify sid s =
     (case sid of
        Some i \<Rightarrow> if \<not> an_client s \<or> i = [] \<or> an_signedOut s then s else tell [PhIdentify i, PhRegister] s
      | None \<Rightarrow> s)"

definition track :: "analytics_event \<Rightarrow> analytics \<Rightarrow> analytics" where
  "track ev s =
     (if an_client s then tell [PhCapture ev] s
      else case an_pending s of
        Some p \<Rightarrow> if length p < PENDING_MAX then s\<lparr>an_pending := Some (p @ [ev])\<rparr> else s
      | None \<Rightarrow> s)"

definition resetAnalytics :: "analytics \<Rightarrow> analytics" where
  "resetAnalytics s = (if an_client s then tell [PhReset] (s\<lparr>an_signedOut := True\<rparr>) else s\<lparr>an_signedOut := True\<rparr>)"

datatype analytics_action =
    AStart "posthog_config option"
  | AStartEnds posthog_config start_end
  | ATrack analytics_event
  | AIdentify "string option"
  | AReset

text \<open>One step of the page: a call of the module's functions, or a waiting start that ends.\<close>

inductive analytics_step :: "analytics \<Rightarrow> analytics_action \<Rightarrow> analytics \<Rightarrow> bool" where
  Start: "analytics_step s (AStart on) (startAnalytics on s)"
| StartEnds: "c \<in> set (an_starting s) \<Longrightarrow> analytics_step s (AStartEnds c e) (finish_start c e s)"
| Track: "analytics_step s (ATrack ev) (track ev s)"
| Identify: "analytics_step s (AIdentify sid) (identify sid s)"
| Reset: "analytics_step s AReset (resetAnalytics s)"

inductive analytics_run :: "analytics_action list \<Rightarrow> analytics \<Rightarrow> bool" where
  Fresh: "analytics_run [] analytics0"
| Next: "analytics_run as s \<Longrightarrow> analytics_step s a s' \<Longrightarrow> analytics_run (as @ [a]) s'"

inductive_cases analytics_stepE: "analytics_step s a s'"

fun captured :: "posthog_call list \<Rightarrow> analytics_event list" where
  "captured [] = []"
| "captured (PhCapture ev # cs) = ev # captured cs"
| "captured (c # cs) = captured cs"

fun identified :: "posthog_call list \<Rightarrow> string list" where
  "identified [] = []"
| "identified (PhIdentify i # cs) = i # identified cs"
| "identified (c # cs) = identified cs"

fun tracked :: "analytics_action list \<Rightarrow> analytics_event list" where
  "tracked [] = []"
| "tracked (ATrack ev # as) = ev # tracked as"
| "tracked (a # as) = tracked as"

lemma captured_append [simp]: "captured (xs @ ys) = captured xs @ captured ys"
  by (induction xs rule: captured.induct) simp_all

lemma captured_map [simp]: "captured (map PhCapture es) = es"
  by (induction es) simp_all

lemma identified_append [simp]: "identified (xs @ ys) = identified xs @ identified ys"
  by (induction xs rule: identified.induct) simp_all

lemma identified_map [simp]: "identified (map PhCapture es) = []"
  by (induction es) simp_all

lemma tracked_append [simp]: "tracked (xs @ ys) = tracked xs @ tracked ys"
  by (induction xs rule: tracked.induct) simp_all

lemmas analytics_ops = startAnalytics_def finish_start_def identify_def track_def resetAnalytics_def tell_def held_def

text \<open>What holds of every run: until the client is on nothing was captured and what is held are the first events
  tracked; the events captured are events tracked, in order; the first call made on PostHog is its \<open>init\<close>.\<close>

definition analytics_ok :: "analytics_action list \<Rightarrow> analytics \<Rightarrow> bool" where
  "analytics_ok as s \<longleftrightarrow>
     (\<not> an_client s \<longrightarrow> captured (an_calls s) = [] \<and> identified (an_calls s) = []) \<and>
     (case an_pending s of Some p \<Rightarrow> \<not> an_client s \<and> p = take PENDING_MAX (tracked as) | None \<Rightarrow> True) \<and>
     subseq (captured (an_calls s)) (tracked as) \<and>
     (case an_calls s of [] \<Rightarrow> \<not> an_client s | c # _ \<Rightarrow> (\<exists>k. c = PhInit k \<and> AStart (Some k) \<in> set as)) \<and>
     (\<forall>k \<in> set (an_starting s). AStart (Some k) \<in> set as)"

lemma take_snoc_below: "length (take n xs) < n \<Longrightarrow> take n (xs @ [x]) = take n xs @ [x]"
  by (cases "length xs < n") simp_all

lemma take_snoc_full: "\<not> length (take n xs) < n \<Longrightarrow> take n (xs @ [x]) = take n xs"
  by (cases "length xs < n") simp_all

lemma subseq_held: "subseq (take k (take n xs)) xs"
  by (metis subseq_order.order_trans sublist_imp_subseq prefix_imp_sublist take_is_prefix)

lemma analytics_step_ok: "analytics_step s a s' \<Longrightarrow> analytics_ok as s \<Longrightarrow> analytics_ok (as @ [a]) s'"
proof (erule analytics_stepE, goal_cases)
  case (1 on)
  then show ?case
    by (auto simp: analytics_ok_def startAnalytics_def split: option.splits list.splits)
next
  case (2 c e)
  then show ?case
    by (cases e; cases "an_pending s"; cases "an_calls s")
      (auto simp: analytics_ok_def finish_start_def tell_def held_def subseq_held
        dest: set_remove1_subset [THEN subsetD] split: option.splits)
next
  case (3 ev)
  then show ?case
    by (cases "an_pending s"; cases "an_calls s"; cases "length (tracked as) < PENDING_MAX")
      (auto simp: analytics_ok_def track_def tell_def list_emb_append_mono split: if_splits)
next
  case (4 sid)
  then show ?case
    by (auto simp: analytics_ok_def identify_def tell_def split: option.splits list.splits)
next
  case 5
  then show ?case
    by (auto simp: analytics_ok_def resetAnalytics_def tell_def split: option.splits list.splits)
qed

lemma analytics_run_ok: "analytics_run as s \<Longrightarrow> analytics_ok as s"
  by (induction rule: analytics_run.induct)
    (simp add: analytics_ok_def analytics0_def, rule analytics_step_ok)

text \<open>After sign-out the user is not named again.\<close>

lemma signed_out_stays: "analytics_step s a s' \<Longrightarrow> an_signedOut s \<Longrightarrow> an_signedOut s' \<and> identified (an_calls s') = identified (an_calls s)"
  by (erule analytics_stepE) (auto simp: analytics_ops split: option.splits start_end.splits)

inductive_cases run_snocE: "analytics_run (as @ [a]) s"

lemma run_snoc: "analytics_run (as @ [a]) s' \<longleftrightarrow> (\<exists>s. analytics_run as s \<and> analytics_step s a s')"
  by (auto intro: analytics_run.Next elim: run_snocE)

lemma run_after_reset:
  "analytics_run (as @ AReset # bs) s \<Longrightarrow>
   \<exists>s0. analytics_run as s0 \<and> an_signedOut s \<and> identified (an_calls s) = identified (an_calls s0)"
proof (induction bs arbitrary: s rule: rev_induct)
  case Nil
  then obtain s0 where "analytics_run as s0" "analytics_step s0 AReset s" by (auto simp: run_snoc)
  then show ?case by (auto elim!: analytics_stepE simp: resetAnalytics_def tell_def)
next
  case (snoc b bs)
  from snoc.prems have "analytics_run ((as @ AReset # bs) @ [b]) s" by simp
  then obtain s1 where s1: "analytics_run (as @ AReset # bs) s1" "analytics_step s1 b s" by (auto simp only: run_snoc)
  from snoc.IH [OF s1(1)] obtain s0 where
    s0: "analytics_run as s0" "an_signedOut s1" "identified (an_calls s1) = identified (an_calls s0)" by blast
  from signed_out_stays [OF s1(2) s0(2)] s0 show ?case by auto
qed

text \<open>Once on, the client captures every event tracked.\<close>

lemma on_captures:
  "analytics_step s a s' \<Longrightarrow> an_client s \<Longrightarrow> an_pending s = None \<Longrightarrow>
   an_client s' \<and> an_pending s' = None \<and> captured (an_calls s') = captured (an_calls s) @ tracked [a]"
  by (erule analytics_stepE) (auto simp: analytics_ops split: option.splits start_end.splits)

fun settles :: "analytics_action \<Rightarrow> bool" where
  "settles (AStart None) = True"
| "settles (AStartEnds c e) = True"
| "settles a = False"

lemma holding:
  "analytics_run as s \<Longrightarrow> list_all (\<lambda>a. \<not> settles a) as \<Longrightarrow>
   \<not> an_client s \<and> an_pending s = Some (take PENDING_MAX (tracked as))"
proof (induction rule: analytics_run.induct)
  case (Next as s a s')
  then have "\<not> an_client s \<and> an_pending s = Some (take PENDING_MAX (tracked as))" "\<not> settles a" by auto
  with Next.hyps(2) show ?case
    by (elim analytics_stepE; cases "length (tracked as) < PENDING_MAX")
      (auto simp: analytics_ops split: option.splits)
qed (simp add: analytics0_def)

text \<open>if analytics starts, the events held until then are the first 20 tracked, and every event from then on is
  sent as it is tracked.\<close>

theorem analytics_complete:
  assumes "analytics_run (as @ AStartEnds c (Started None) # bs) s" and "list_all (\<lambda>a. \<not> settles a) as"
  shows "captured (an_calls s) = take PENDING_MAX (tracked as) @ tracked bs"
proof -
  have "captured (an_calls s) = take PENDING_MAX (tracked as) @ tracked bs \<and> an_client s \<and> an_pending s = None"
    using assms
  proof (induction bs arbitrary: s rule: rev_induct)
    case Nil
    then obtain s0 where s0: "analytics_run as s0" "analytics_step s0 (AStartEnds c (Started None)) s" by (auto simp: run_snoc)
    from holding [OF s0(1) assms(2)] analytics_run_ok [OF s0(1)] s0(2) show ?case
      by (auto elim!: analytics_stepE simp: finish_start_def tell_def held_def analytics_ok_def)
  next
    case (snoc b bs)
    from snoc.prems have "analytics_run ((as @ AStartEnds c (Started None) # bs) @ [b]) s" by simp
    then obtain s1 where s1: "analytics_run (as @ AStartEnds c (Started None) # bs) s1" "analytics_step s1 b s"
      by (auto simp only: run_snoc)
    from snoc.IH [OF s1(1) assms(2)] on_captures [OF s1(2)] show ?case by simp
  qed
  then show ?thesis by simp
qed

definition sample_config :: posthog_config where
  "sample_config = \<lparr>pc_key = ''phc'', pc_host = ''eu''\<rparr>"

definition sample_run :: "analytics_action list" where
  "sample_run = [AStart (Some sample_config), ATrack SignedIn, AStartEnds sample_config (Started None), ATrack InvitationAccepted]"

definition sample_end :: analytics where
  "sample_end = track InvitationAccepted (finish_start sample_config (Started None)
     (track SignedIn (startAnalytics (Some sample_config) analytics0)))"

lemma sample_run_ok: "analytics_run sample_run sample_end"
proof -
  have 1: "analytics_run ([] @ [AStart (Some sample_config)]) (startAnalytics (Some sample_config) analytics0)"
    by (rule analytics_run.Next [OF analytics_run.Fresh analytics_step.Start])
  then have "analytics_run (([] @ [AStart (Some sample_config)]) @ [ATrack SignedIn]) (track SignedIn (startAnalytics (Some sample_config) analytics0))"
    by (rule analytics_run.Next) (rule analytics_step.Track)
  then have "analytics_run ((([] @ [AStart (Some sample_config)]) @ [ATrack SignedIn]) @ [AStartEnds sample_config (Started None)])
      (finish_start sample_config (Started None) (track SignedIn (startAnalytics (Some sample_config) analytics0)))"
    by (rule analytics_run.Next) (rule analytics_step.StartEnds, simp add: analytics_ops analytics0_def PENDING_MAX_def)
  from analytics_run.Next [OF this analytics_step.Track [of _ InvitationAccepted]]
  show ?thesis unfolding sample_end_def sample_run_def by simp
qed

lemma analytics_complete_witness:
  "captured (an_calls sample_end) = [SignedIn, InvitationAccepted]"
  using analytics_complete [of "[AStart (Some sample_config), ATrack SignedIn]" sample_config "[ATrack InvitationAccepted]" sample_end]
    sample_run_ok by (simp add: sample_run_def PENDING_MAX_def)



end
