(* ===== verification/Cascader.thy ===== *)
theory Cascader
  imports JsUrl
begin

text \<open>
  The tree behind the cascading menus (\<open>components/reui/cascader/cascader-lib.tsx\<close>, types in
  \<open>cascader-types.tsx\<close>): nodes, the index over them, and every function on either. A node's icon, description and
  payload are not read here and left out. Lower-casing depends on the reader's locale and is the argument \<open>low\<close>.
\<close>

section \<open>Nodes and the index\<close>

text \<open>A list of nodes may hold \<open>null\<close> entries. A missing list is empty, a missing flag false.\<close>

datatype cnode = CNode
  (cn_value: string) (cn_label: "string option") (cn_children: "cnode option list") (cn_hasChildren: bool)
  (cn_count: "num option") (cn_disabled: bool) (cn_keywords: "string list")

record cindex =
  byValue :: "(string \<times> cnode) list"
  childrenOf :: "(string \<times> cnode list) list"
  parentOf :: "(string \<times> string option) list"
  depthOf :: "(string \<times> nat) list"
  ci_roots :: "cnode list"
  ci_all :: "cnode list"

definition CASCADER_ROOT_KEY :: string where
  "CASCADER_ROOT_KEY = CHR 0x00 # ''root''"

definition CASCADER_MORE_PREFIX :: string where
  "CASCADER_MORE_PREFIX = CHR 0x00 # ''more:''"

definition createCascaderMoreNode :: "string \<Rightarrow> nat \<Rightarrow> cnode" where
  "createCascaderMoreNode parentKey loadedCount =
     CNode (CASCADER_MORE_PREFIX @ parentKey) (Some []) [] False (Some (of_nat loadedCount)) False []"

definition isCascaderMoreNode :: "cnode \<Rightarrow> bool" where
  "isCascaderMoreNode n \<longleftrightarrow> starts_with (cn_value n) CASCADER_MORE_PREFIX"

definition getCascaderMoreParent :: "cnode \<Rightarrow> string option" where
  "getCascaderMoreParent n =
     (if isCascaderMoreNode n then Some (drop (length CASCADER_MORE_PREFIX) (cn_value n)) else None)"

lemma more_parent [simp]: "getCascaderMoreParent (createCascaderMoreNode k c) = Some k"
  by (simp add: getCascaderMoreParent_def isCascaderMoreNode_def createCascaderMoreNode_def)

text \<open>The children listed under a key, and the key a parent's children are listed under.\<close>

definition bucket :: "(string \<times> cnode list) list \<Rightarrow> string \<Rightarrow> cnode list" where
  "bucket m k = (case map_of m k of Some ns \<Rightarrow> ns | None \<Rightarrow> [])"

definition parent_key :: "string option \<Rightarrow> string" where
  "parent_key p = (case p of Some v \<Rightarrow> v | None \<Rightarrow> CASCADER_ROOT_KEY)"

definition push_child :: "string \<Rightarrow> cnode \<Rightarrow> (string \<times> cnode list) list \<Rightarrow> (string \<times> cnode list) list" where
  "push_child k n m = mp_set k (bucket m k @ [n]) m"

text \<open>\<open>parentOf.get(v) ?? null\<close>.\<close>

definition parent_in :: "(string \<times> string option) list \<Rightarrow> string \<Rightarrow> string option" where
  "parent_in m v = (case map_of m v of Some p \<Rightarrow> p | None \<Rightarrow> None)"

text \<open>Climbing to the root: \<open>while (cursor != null && !seen.has(cursor)) { seen.add(cursor); ...;
  cursor = parentOf.get(cursor) ?? null }\<close>, as the values met. The guard ends it on cyclic parents.\<close>

definition climb_set :: "(string \<times> string option) list \<Rightarrow> string option \<Rightarrow> string list \<Rightarrow> string set" where
  "climb_set m cursor seen = (set_option cursor \<union> fst ` set m \<union> (\<Union>p \<in> set m. set_option (snd p))) - set seen"

lemma finite_climb_set [simp]: "finite (climb_set m cursor seen)"
  by (simp add: climb_set_def)

lemma parent_in_set: "parent_in m c = Some p \<Longrightarrow> p \<in> (\<Union>p \<in> set m. set_option (snd p))"
  by (auto simp: parent_in_def split: option.splits dest!: map_of_SomeD intro!: bexI)

function climb :: "(string \<times> string option) list \<Rightarrow> string option \<Rightarrow> string list \<Rightarrow> string list" where
  "climb m None seen = []"
| "climb m (Some c) seen = (if c \<in> set seen then [] else c # climb m (parent_in m c) (c # seen))"
  by pat_completeness auto
termination
proof (relation "measure (\<lambda>(m, cursor, seen). card (climb_set m cursor seen))", simp, goal_cases)
  case (1 m c seen)
  have "climb_set m (parent_in m c) (c # seen) \<subset> climb_set m (Some c) seen"
    using 1 parent_in_set [of m c] by (auto simp: climb_set_def)
  then show ?case by (auto intro: psubset_card_mono)
qed

section \<open>Building the index\<close>

definition place :: "cnode \<Rightarrow> string option \<Rightarrow> nat \<Rightarrow> cindex \<Rightarrow> cindex" where
  "place n p d ix = ix\<lparr>byValue := mp_set (cn_value n) n (byValue ix), parentOf := mp_set (cn_value n) p (parentOf ix),
     depthOf := mp_set (cn_value n) d (depthOf ix), ci_all := ci_all ix @ [n],
     childrenOf := push_child (parent_key p) n (childrenOf ix)\<rparr>"

definition empty_index :: cindex where
  "empty_index = \<lparr>byValue = [], childrenOf = [], parentOf = [], depthOf = [], ci_roots = [], ci_all = []\<rparr>"

text \<open>The nested shape: depth first; a value already seen is skipped with everything below it.\<close>

fun index_walk :: "cnode option list \<Rightarrow> string option \<Rightarrow> nat \<Rightarrow> cindex \<Rightarrow> cindex" where
  "index_walk [] p d ix = ix"
| "index_walk (None # ns) p d ix = index_walk ns p d ix"
| "index_walk (Some (CNode v l cs hc ct ds ks) # ns) p d ix =
     (if mp_has (byValue ix) v then index_walk ns p d ix
      else index_walk ns p d (index_walk cs (Some v) (d + 1) (place (CNode v l cs hc ct ds ks) p d ix)))"

text \<open>The flat shape, in three passes: the nodes, their parents, their depths.\<close>

definition flat_nodes :: "cnode option list \<Rightarrow> cindex \<Rightarrow> cindex" where
  "flat_nodes = fold (\<lambda>e ix. case e of None \<Rightarrow> ix | Some n \<Rightarrow>
     if mp_has (byValue ix) (cn_value n) then ix
     else ix\<lparr>byValue := mp_set (cn_value n) n (byValue ix), ci_all := ci_all ix @ [n]\<rparr>)"

definition flat_parents :: "(cnode \<Rightarrow> string option) \<Rightarrow> cindex \<Rightarrow> cindex" where
  "flat_parents getParent ix = fold (\<lambda>n ix.
     let p = (case getParent n of Some r \<Rightarrow> if mp_has (byValue ix) r then Some r else None | None \<Rightarrow> None)
     in ix\<lparr>parentOf := mp_set (cn_value n) p (parentOf ix), childrenOf := push_child (parent_key p) n (childrenOf ix)\<rparr>)
     (ci_all ix) ix"

definition climb_depth :: "(string \<times> string option) list \<Rightarrow> string \<Rightarrow> nat" where
  "climb_depth m v = length (climb m (parent_in m v) [v])"

definition flat_depths :: "cindex \<Rightarrow> cindex" where
  "flat_depths ix = fold (\<lambda>n ix. ix\<lparr>depthOf := mp_set (cn_value n) (climb_depth (parentOf ix) (cn_value n)) (depthOf ix)\<rparr>)
     (ci_all ix) ix"

definition with_roots :: "cindex \<Rightarrow> cindex" where
  "with_roots ix = ix\<lparr>ci_roots := bucket (childrenOf ix) CASCADER_ROOT_KEY\<rparr>"

definition buildCascaderIndex :: "cnode option list \<Rightarrow> (cnode \<Rightarrow> string option) option \<Rightarrow> cindex" where
  "buildCascaderIndex items getParent = with_roots
     (case getParent of
        Some gp \<Rightarrow> flat_depths (flat_parents gp (flat_nodes items empty_index))
      | None \<Rightarrow> index_walk items None 0 empty_index)"

section \<open>Depth-first walks that visit a value once\<close>

text \<open>\<open>walk(node)\<close>: skip a visited value, else visit it and walk its children. The recursion's pending siblings are
  the list's tail.\<close>

definition dfs_set :: "(string \<times> cnode list) list \<Rightarrow> cnode list \<Rightarrow> string list \<Rightarrow> string set" where
  "dfs_set m stack seen = cn_value ` (set stack \<union> (\<Union>p \<in> set m. set (snd p))) - set seen"

lemma bucket_in: "n \<in> set (bucket m k) \<Longrightarrow> n \<in> (\<Union>p \<in> set m. set (snd p))"
proof (cases "map_of m k")
  case (Some ns)
  moreover assume "n \<in> set (bucket m k)"
  ultimately show ?thesis by (auto simp: bucket_def dest!: map_of_SomeD intro!: bexI [of _ "(k, ns)"])
qed (simp add: bucket_def)

function dfs :: "(string \<times> cnode list) list \<Rightarrow> cnode list \<Rightarrow> string list \<Rightarrow> cnode list" where
  "dfs m [] seen = []"
| "dfs m (n # ns) seen =
     (if cn_value n \<in> set seen then dfs m ns seen
      else n # dfs m (bucket m (cn_value n) @ ns) (cn_value n # seen))"
  by pat_completeness auto
termination
proof (relation "measures [\<lambda>(m, st, seen). card (dfs_set m st seen), \<lambda>(m, st, seen). length st]", simp, goal_cases)
  case (1 m n ns seen)
  have "dfs_set m ns seen \<subseteq> dfs_set m (n # ns) seen" by (auto simp: dfs_set_def)
  then have "card (dfs_set m ns seen) \<le> card (dfs_set m (n # ns) seen)"
    by (intro card_mono) (simp_all add: dfs_set_def)
  then show ?case by auto
next
  case (2 m n ns seen)
  have "dfs_set m (bucket m (cn_value n) @ ns) (cn_value n # seen) \<subset> dfs_set m (n # ns) seen"
    using 2 bucket_in [of _ m "cn_value n"] by (auto simp: dfs_set_def)
  then have "card (dfs_set m (bucket m (cn_value n) @ ns) (cn_value n # seen)) < card (dfs_set m (n # ns) seen)"
    by (intro psubset_card_mono) (simp_all add: dfs_set_def)
  then show ?case by simp
qed

section \<open>Merging loaded pages into an index\<close>

definition append_child :: "string \<Rightarrow> cnode \<Rightarrow> cindex \<Rightarrow> cindex" where
  "append_child k n ix = ix\<lparr>byValue := mp_set (cn_value n) n (byValue ix),
     parentOf := mp_set (cn_value n) (if k = CASCADER_ROOT_KEY then None else Some k) (parentOf ix),
     childrenOf := push_child k n (childrenOf ix)\<rparr>"

text \<open>A nullish entry throws here (\<open>node.value\<close>), unlike in the build: \<open>None\<close>.\<close>

fun merge_insert :: "string \<Rightarrow> cnode option list \<Rightarrow> cindex \<Rightarrow> cindex option" where
  "merge_insert k [] ix = Some ix"
| "merge_insert k (None # ns) ix = None"
| "merge_insert k (Some (CNode v l cs hc ct ds ks) # ns) ix =
     (if mp_has (byValue ix) v then merge_insert k ns ix
      else case merge_insert v cs (append_child k (CNode v l cs hc ct ds ks) ix) of
        Some ix' \<Rightarrow> merge_insert k ns ix'
      | None \<Rightarrow> None)"

fun merge_pages :: "(string \<times> cnode option list) list \<Rightarrow> cindex \<Rightarrow> cindex option" where
  "merge_pages [] ix = Some ix"
| "merge_pages ((k, ns) # ps) ix = (case merge_insert k ns ix of Some ix' \<Rightarrow> merge_pages ps ix' | None \<Rightarrow> None)"

definition missing_depths :: "cindex \<Rightarrow> cindex" where
  "missing_depths ix = fold (\<lambda>v ix. if mp_has (depthOf ix) v then ix
     else ix\<lparr>depthOf := mp_set v (climb_depth (parentOf ix) v) (depthOf ix)\<rparr>) (map fst (byValue ix)) ix"

text \<open>\<open>all\<close> in document order over the merged tree, then what hangs from a parent that never arrived.\<close>

definition all_in_order :: "cindex \<Rightarrow> cnode list" where
  "all_in_order ix =
     (let walked = dfs (childrenOf ix) (bucket (childrenOf ix) CASCADER_ROOT_KEY) []
      in walked @ map snd (filter (\<lambda>(v, n). v \<notin> cn_value ` set walked) (byValue ix)))"

definition add_detached :: "(string \<times> cnode) list \<Rightarrow> (string \<times> cnode) list \<Rightarrow> (string \<times> cnode) list" where
  "add_detached detached m = fold (\<lambda>(v, n) m. if mp_has m v then m else mp_set v n m) detached m"

definition mergeCascaderIndex ::
    "cindex \<Rightarrow> (string \<times> cnode option list) list \<Rightarrow> (string \<times> cnode) list option \<Rightarrow> cindex option" where
  "mergeCascaderIndex base pages detached =
     (let loose = (case detached of Some d \<Rightarrow> d | None \<Rightarrow> []) in
      if pages = [] \<and> loose = [] then Some base
      else map_option (\<lambda>ix. let ix' = with_roots (missing_depths ix)
             in ix'\<lparr>ci_all := all_in_order ix', byValue := add_detached loose (byValue ix')\<rparr>) (merge_pages pages base))"

section \<open>Reading the index\<close>

definition getCascaderChildren :: "cindex \<Rightarrow> string option \<Rightarrow> cnode list" where
  "getCascaderChildren ix parent = bucket (childrenOf ix) (parent_key parent)"

definition isCascaderBranch :: "cindex \<Rightarrow> cnode \<Rightarrow> bool" where
  "isCascaderBranch ix n \<longleftrightarrow> cn_hasChildren n \<or> bucket (childrenOf ix) (cn_value n) \<noteq> []"

definition getCascaderCount :: "cindex \<Rightarrow> cnode \<Rightarrow> num" where
  "getCascaderCount ix n =
     (case cn_count n of Some c \<Rightarrow> c | None \<Rightarrow> of_nat (length (bucket (childrenOf ix) (cn_value n))))"

definition flagged :: "cindex \<Rightarrow> string \<Rightarrow> bool" where
  "flagged ix v \<longleftrightarrow> (case map_of (byValue ix) v of Some n \<Rightarrow> cn_disabled n | None \<Rightarrow> False)"

definition ancestors :: "cindex \<Rightarrow> string \<Rightarrow> string list" where
  "ancestors ix v = climb (parentOf ix) (parent_in (parentOf ix) v) [v]"

definition isCascaderDisabled :: "cindex \<Rightarrow> cnode \<Rightarrow> bool" where
  "isCascaderDisabled ix n \<longleftrightarrow>
     cn_disabled n \<or> flagged ix (cn_value n) \<or> list_ex (flagged ix) (ancestors ix (cn_value n))"

datatype cselectable = SelectLeaf | SelectAny | SelectIf "cnode \<Rightarrow> bool"

definition isCascaderSelectable :: "cindex \<Rightarrow> cnode \<Rightarrow> cselectable \<Rightarrow> bool" where
  "isCascaderSelectable ix n selectable =
     (if isCascaderMoreNode n then False
      else if isCascaderDisabled ix n then False
      else case selectable of
        SelectIf P \<Rightarrow> P n
      | SelectAny \<Rightarrow> True
      | SelectLeaf \<Rightarrow> \<not> isCascaderBranch ix n)"

text \<open>The chain stops at a value without a node.\<close>

fun known_chain :: "cindex \<Rightarrow> string list \<Rightarrow> cnode list" where
  "known_chain ix [] = []"
| "known_chain ix (v # vs) = (case map_of (byValue ix) v of Some n \<Rightarrow> n # known_chain ix vs | None \<Rightarrow> [])"

definition getCascaderPath :: "cindex \<Rightarrow> string option \<Rightarrow> cnode list" where
  "getCascaderPath ix v = rev (known_chain ix (climb (parentOf ix) v []))"

section \<open>Search\<close>

definition normalizeCascaderQuery :: "(string \<Rightarrow> string) \<Rightarrow> string \<Rightarrow> string" where
  "normalizeCascaderQuery low query = low (trim query)"

definition matchesCascaderQuery :: "(string \<Rightarrow> string) \<Rightarrow> cnode \<Rightarrow> string \<Rightarrow> bool" where
  "matchesCascaderQuery low n q \<longleftrightarrow>
     q = [] \<or> has_sub (low (case cn_label n of Some l \<Rightarrow> l | None \<Rightarrow> [])) q \<or>
     list_ex (\<lambda>k. has_sub (low k) q) (cn_keywords n)"

definition filterCascaderLevel ::
    "(string \<Rightarrow> string) \<Rightarrow> (cnode \<Rightarrow> string \<Rightarrow> bool) \<Rightarrow> cnode list \<Rightarrow> string \<Rightarrow> cnode list" where
  "filterCascaderLevel low matches ns query =
     (let q = normalizeCascaderQuery low query in if q = [] then ns else filter (\<lambda>n. matches n q) ns)"

text \<open>\<open>isWithin\<close>: the walk up from a node with the answers remembered from earlier walks. The state is the remembered
  map and the trail of this walk; each value of the trail is first remembered as \<open>false\<close>, which also ends a cycle.\<close>

definition memo_set :: "(string \<times> string option) list \<Rightarrow> string option \<Rightarrow> (string \<times> bool) list \<Rightarrow> string set" where
  "memo_set m cursor memo = climb_set m cursor (map fst memo)"

function within_walk :: "(string \<times> string option) list \<Rightarrow> string \<Rightarrow> string option \<Rightarrow> string list \<Rightarrow> (string \<times> bool) list \<Rightarrow>
    bool \<times> string list \<times> (string \<times> bool) list" where
  "within_walk m w None trail memo = (False, trail, memo)"
| "within_walk m w (Some c) trail memo =
     (if c = w then (True, trail, memo)
      else case map_of memo c of
        Some b \<Rightarrow> (b, trail, memo)
      | None \<Rightarrow> within_walk m w (parent_in m c) (trail @ [c]) (mp_set c False memo))"
  by pat_completeness auto
termination
proof (relation "measure (\<lambda>(m, w, cursor, trail, memo). card (memo_set m cursor memo))", simp, goal_cases)
  case (1 m w c trail memo)
  then have c: "c \<notin> fst ` set memo" by (simp add: map_of_eq_None_iff)
  have "fst ` set (mp_set c False memo) = insert c (fst ` set memo)" by (induction memo) auto
  then have "memo_set m (parent_in m c) (mp_set c False memo) \<subset> memo_set m (Some c) memo"
    using c parent_in_set [of m c] by (auto simp: memo_set_def climb_set_def)
  then show ?case by (auto intro!: psubset_card_mono simp: memo_set_def)
qed

definition is_within :: "(string \<times> string option) list \<Rightarrow> string \<Rightarrow> cnode \<Rightarrow> (string \<times> bool) list \<Rightarrow> bool \<times> (string \<times> bool) list" where
  "is_within m w n memo =
     (case within_walk m w (parent_in m (cn_value n)) [] memo of
        (answer, trail, memo') \<Rightarrow> (answer, if answer then fold (\<lambda>v mm. mp_set v True mm) trail memo' else memo'))"

fun search_go :: "(string \<times> string option) list \<Rightarrow> string option \<Rightarrow> (cnode \<Rightarrow> bool) \<Rightarrow> nat \<Rightarrow> cnode list \<Rightarrow>
    (string \<times> bool) list \<Rightarrow> cnode list \<Rightarrow> cnode list" where
  "search_go m w P limit [] memo results = results"
| "search_go m w P limit (n # ns) memo results =
     (if limit \<le> length results then results
      else if \<not> P n then search_go m w P limit ns memo results
      else case w of
        None \<Rightarrow> search_go m w P limit ns memo (results @ [n])
      | Some v \<Rightarrow>
          (case is_within m v n memo of
             (answer, memo') \<Rightarrow> search_go m w P limit ns memo' (if answer then results @ [n] else results)))"

definition searchCascaderDeep ::
    "(string \<Rightarrow> string) \<Rightarrow> (cnode \<Rightarrow> string \<Rightarrow> bool) \<Rightarrow> cindex \<Rightarrow> string \<Rightarrow> string option \<Rightarrow> nat \<Rightarrow> cnode list" where
  "searchCascaderDeep low matches ix query w limit =
     (let q = normalizeCascaderQuery low query in
      if q = [] then [] else search_go (parentOf ix) w (\<lambda>n. matches n q) limit (ci_all ix) [] [])"

end
