(* ===== verification/CascaderTree.thy ===== *)
theory CascaderTree
  imports Cascader
begin

text \<open>
  The index over a nested tree is consistent: each value once, its node listed under its parent and nowhere else, one
  level deeper than it. Then climbing meets exactly the ancestors, a depth-first walk exactly the nodes below, and a
  search limited to a branch is the plain filter over the ancestors, whatever earlier walks remembered.
\<close>

section \<open>The invariant of the index\<close>

definition values_of :: "cindex \<Rightarrow> string set" where
  "values_of ix = cn_value ` set (ci_all ix)"

definition parent_of :: "cindex \<Rightarrow> string \<Rightarrow> string option" where
  "parent_of ix = parent_in (parentOf ix)"

definition depth_at :: "cindex \<Rightarrow> string \<Rightarrow> nat" where
  "depth_at ix v = (case map_of (depthOf ix) v of Some d \<Rightarrow> d | None \<Rightarrow> 0)"

definition consistent :: "cindex \<Rightarrow> bool" where
  "consistent ix \<longleftrightarrow>
     distinct (map cn_value (ci_all ix)) \<and>
     (\<forall>v n. map_of (byValue ix) v = Some n \<longleftrightarrow> n \<in> set (ci_all ix) \<and> cn_value n = v) \<and>
     (\<forall>v. map_of (parentOf ix) v \<noteq> None \<longrightarrow> v \<in> values_of ix) \<and>
     (\<forall>v. map_of (depthOf ix) v \<noteq> None \<longleftrightarrow> v \<in> values_of ix) \<and>
     (\<forall>v p. parent_of ix v = Some p \<longrightarrow> p \<in> values_of ix \<and> depth_at ix v = Suc (depth_at ix p)) \<and>
     (\<forall>v \<in> values_of ix. parent_of ix v = None \<longrightarrow> depth_at ix v = 0) \<and>
     (\<forall>k n. n \<in> set (bucket (childrenOf ix) k) \<longleftrightarrow>
        n \<in> set (ci_all ix) \<and> parent_key (parent_of ix (cn_value n)) = k) \<and>
     (\<forall>k. distinct (map cn_value (bucket (childrenOf ix) k)))"

lemma consistentD:
  assumes "consistent ix"
  shows consistent_distinct: "distinct (map cn_value (ci_all ix))"
    and consistent_get: "map_of (byValue ix) v = Some n \<longleftrightarrow> n \<in> set (ci_all ix) \<and> cn_value n = v"
    and consistent_parent_known: "map_of (parentOf ix) v \<noteq> None \<Longrightarrow> v \<in> values_of ix"
    and consistent_depth_known: "map_of (depthOf ix) v \<noteq> None \<longleftrightarrow> v \<in> values_of ix"
    and consistent_parent: "parent_of ix v = Some p \<Longrightarrow> p \<in> values_of ix \<and> depth_at ix v = Suc (depth_at ix p)"
    and consistent_root: "v \<in> values_of ix \<Longrightarrow> parent_of ix v = None \<Longrightarrow> depth_at ix v = 0"
    and consistent_kids: "n \<in> set (bucket (childrenOf ix) k) \<longleftrightarrow>
      n \<in> set (ci_all ix) \<and> parent_key (parent_of ix (cn_value n)) = k"
    and consistent_kids_distinct: "distinct (map cn_value (bucket (childrenOf ix) k))"
  using assms unfolding consistent_def by blast+

lemma consistent_has: "consistent ix \<Longrightarrow> mp_has (byValue ix) v \<longleftrightarrow> v \<in> values_of ix"
  using consistent_get [of ix v] by (auto simp: mp_has_def values_of_def image_iff)

lemma consistent_parent_in: "consistent ix \<Longrightarrow> parent_of ix v = Some p \<Longrightarrow> v \<in> values_of ix"
  using consistent_parent_known [of ix v] by (auto simp: parent_of_def parent_in_def split: option.splits)

lemma consistent_inj: "consistent ix \<Longrightarrow> n \<in> set (ci_all ix) \<Longrightarrow> m \<in> set (ci_all ix) \<Longrightarrow> cn_value n = cn_value m \<Longrightarrow> n = m"
  using consistent_distinct [of ix] by (auto simp: distinct_map inj_on_def)

lemma bucket_push: "bucket (push_child k n m) j = (if j = k then bucket m k @ [n] else bucket m j)"
  by (simp add: bucket_def push_child_def mp_store.get_put)

lemma consistent_empty: "consistent empty_index"
  by (simp add: consistent_def empty_index_def values_of_def bucket_def parent_of_def parent_in_def)

section \<open>Building keeps it\<close>

definition parent_ready :: "cindex \<Rightarrow> string option \<Rightarrow> nat \<Rightarrow> bool" where
  "parent_ready ix p d \<longleftrightarrow> (case p of Some q \<Rightarrow> q \<in> values_of ix \<and> d = Suc (depth_at ix q) | None \<Rightarrow> d = 0)"

lemma place_simps [simp]:
  "ci_all (place n p d ix) = ci_all ix @ [n]"
  "values_of (place n p d ix) = insert (cn_value n) (values_of ix)"
  "parent_of (place n p d ix) v = (if v = cn_value n then p else parent_of ix v)"
  "depth_at (place n p d ix) v = (if v = cn_value n then d else depth_at ix v)"
  "bucket (childrenOf (place n p d ix)) k = (if k = parent_key p then bucket (childrenOf ix) k @ [n] else bucket (childrenOf ix) k)"
  by (auto simp: place_def values_of_def parent_of_def parent_in_def depth_at_def mp_store.get_put bucket_push)

lemma consistent_place:
  assumes ix: "consistent ix" and new: "cn_value n \<notin> values_of ix" and ready: "parent_ready ix p d"
  shows "consistent (place n p d ix)"
proof -
  have none: "parent_of ix (cn_value n) = None" using consistent_parent_in [OF ix] new by (cases "parent_of ix (cn_value n)") auto
  have notin: "n \<notin> set (ci_all ix)" "cn_value n \<notin> cn_value ` set (ci_all ix)" using new by (auto simp: values_of_def)
  have q: "q \<noteq> cn_value n" if "parent_of ix v = Some q" for q v using consistent_parent [OF ix that] new by auto
  show ?thesis
    unfolding consistent_def
  proof (intro conjI allI ballI impI, goal_cases)
    case 1 show ?case using consistent_distinct [OF ix] notin by simp
  next
    case (2 v m) show ?case using consistent_get [OF ix, of v m] notin by (auto simp: place_def mp_store.get_put)
  next
    case (3 v) then show ?case using consistent_parent_known [OF ix, of v] by (auto simp: place_def mp_store.get_put values_of_def split: if_splits)
  next
    case (4 v) show ?case using consistent_depth_known [OF ix, of v] by (auto simp: place_def mp_store.get_put values_of_def)
  next
    case (5 v p') then show ?case using consistent_parent [OF ix, of v p'] ready new q
      by (auto simp: parent_ready_def split: if_splits option.splits)
  next
    case (6 v p') then show ?case using consistent_parent [OF ix, of v p'] ready new q
      by (auto simp: parent_ready_def split: if_splits option.splits)
  next
    case (7 v) then show ?case using consistent_root [OF ix, of v] ready by (auto simp: parent_ready_def split: if_splits)
  next
    case (8 k m)
    have kids: "m \<in> set (bucket (childrenOf ix) k) \<longleftrightarrow> m \<in> set (ci_all ix) \<and> parent_key (parent_of ix (cn_value m)) = k"
      by (rule consistent_kids [OF ix])
    show ?case
    proof (cases "m = n")
      case True
      with notin(1) kids show ?thesis by simp
    next
      case False
      have "m \<in> set (ci_all ix) \<Longrightarrow> cn_value m \<noteq> cn_value n" using notin(2) by (metis imageI)
      with False kids show ?thesis by (cases "m \<in> set (ci_all ix)") auto
    qed
  next
    case (9 k) show ?case using consistent_kids_distinct [OF ix, of k] consistent_kids [OF ix, of _ k] notin by auto
  qed
qed

lemma parent_ready_mono:
  "parent_ready ix p d \<Longrightarrow> values_of ix \<subseteq> values_of ix' \<Longrightarrow> (\<And>v. v \<in> values_of ix \<Longrightarrow> depth_at ix' v = depth_at ix v) \<Longrightarrow>
   parent_ready ix' p d"
  by (auto simp: parent_ready_def split: option.splits)

lemma index_walk_consistent:
  "consistent ix \<Longrightarrow> parent_ready ix p d \<Longrightarrow>
   consistent (index_walk ns p d ix) \<and> values_of ix \<subseteq> values_of (index_walk ns p d ix) \<and>
   (\<forall>v \<in> values_of ix. depth_at (index_walk ns p d ix) v = depth_at ix v)"
proof (induction ns p d ix rule: index_walk.induct)
  case (3 v l cs hc ct ds ks ns p d ix)
  let ?n = "CNode v l cs hc ct ds ks"
  show ?case
  proof (cases "mp_has (byValue ix) v")
    case True
    with 3 show ?thesis by simp
  next
    case False
    then have new: "cn_value ?n \<notin> values_of ix" using consistent_has [OF 3(4)] by simp
    let ?i1 = "place ?n p d ix"
    let ?i2 = "index_walk cs (Some v) (d + 1) ?i1"
    have 1: "consistent ?i1" by (rule consistent_place [OF 3(4) new 3(5)])
    have 2: "consistent ?i2 \<and> values_of ?i1 \<subseteq> values_of ?i2 \<and> (\<forall>u \<in> values_of ?i1. depth_at ?i2 u = depth_at ?i1 u)"
      using 3(2) [OF False 1] by (simp add: parent_ready_def)
    have keep: "depth_at ?i2 u = depth_at ix u" if "u \<in> values_of ix" for u
      using 2 that new by auto
    have "parent_ready ?i2 p d" by (rule parent_ready_mono [OF 3(5)]) (use 2 keep in auto)
    with 3(3) [OF False] 2 have "consistent (index_walk ns p d ?i2) \<and> values_of ?i2 \<subseteq> values_of (index_walk ns p d ?i2) \<and>
        (\<forall>u \<in> values_of ?i2. depth_at (index_walk ns p d ?i2) u = depth_at ?i2 u)" by blast
    with False 2 keep show ?thesis by auto
  qed
qed simp_all

lemma with_roots_simps [simp]:
  "byValue (with_roots ix) = byValue ix" "childrenOf (with_roots ix) = childrenOf ix" "parentOf (with_roots ix) = parentOf ix"
  "depthOf (with_roots ix) = depthOf ix" "ci_all (with_roots ix) = ci_all ix"
  by (simp_all add: with_roots_def)

lemma consistent_with_roots [simp]: "consistent (with_roots ix) \<longleftrightarrow> consistent ix"
  by (simp add: consistent_def values_of_def parent_of_def depth_at_def)

lemma build_consistent: "consistent (buildCascaderIndex items None)"
  using index_walk_consistent [OF consistent_empty, of None 0 items]
  by (simp add: buildCascaderIndex_def parent_ready_def)

section \<open>Climbing\<close>

text \<open>From a consistent index the guard of the climb never fires: it meets the ancestors, each once, nearest first.\<close>

abbreviation par :: "cindex \<Rightarrow> (string \<times> string) set" where
  "par ix \<equiv> {(v, p). parent_of ix v = Some p}"

lemma par_depth: "(v, a) \<in> (par ix)\<^sup>+ \<Longrightarrow> consistent ix \<Longrightarrow> depth_at ix a < depth_at ix v"
  by (induction rule: trancl_induct) (auto dest: consistent_parent)

lemma climb_guard:
  "consistent ix \<Longrightarrow> (\<And>s. s \<in> set seen \<Longrightarrow> depth_at ix c < depth_at ix s) \<Longrightarrow> climb (parentOf ix) (Some c) seen = climb (parentOf ix) (Some c) []"
proof (induction "depth_at ix c" arbitrary: c seen rule: less_induct)
  case less
  have notin: "c \<notin> set seen" using less.prems(2) by blast
  show ?case
  proof (cases "parent_in (parentOf ix) c")
    case None
    with notin show ?thesis by simp
  next
    case (Some p)
    then have d: "depth_at ix c = Suc (depth_at ix p)" using consistent_parent [OF less.prems(1), of c p] by (simp add: parent_of_def)
    have "climb (parentOf ix) (Some p) (c # seen) = climb (parentOf ix) (Some p) []"
    proof (rule less.hyps)
      fix s
      assume "s \<in> set (c # seen)"
      then show "depth_at ix p < depth_at ix s" using less.prems(2) [of s] d by auto
    qed (use d less.prems in auto)
    moreover have "climb (parentOf ix) (Some p) [c] = climb (parentOf ix) (Some p) []"
      by (rule less.hyps) (use d less.prems in auto)
    ultimately show ?thesis using Some notin by simp
  qed
qed

lemma climb_step:
  "consistent ix \<Longrightarrow> climb (parentOf ix) (Some c) [] = c # (case parent_of ix c of None \<Rightarrow> [] | Some p \<Rightarrow> climb (parentOf ix) (Some p) [])"
  using climb_guard [of ix "[c]"] consistent_parent [of ix c]
  by (auto simp: parent_of_def split: option.splits)

lemma ancestors_climb:
  "consistent ix \<Longrightarrow> ancestors ix v = (case parent_of ix v of None \<Rightarrow> [] | Some p \<Rightarrow> climb (parentOf ix) (Some p) [])"
  using climb_guard [of ix "[v]"] consistent_parent [of ix v]
  by (auto simp: ancestors_def parent_of_def split: option.splits)

lemma ancestors_step:
  "consistent ix \<Longrightarrow> ancestors ix v = (case parent_of ix v of None \<Rightarrow> [] | Some p \<Rightarrow> p # ancestors ix p)"
proof -
  assume ix: "consistent ix"
  show ?thesis
  proof (cases "parent_of ix v")
    case (Some p)
    then have "ancestors ix v = climb (parentOf ix) (Some p) []" by (simp only: ancestors_climb [OF ix] option.case)
    also have "\<dots> = p # ancestors ix p" by (subst climb_step [OF ix]) (simp only: ancestors_climb [OF ix])
    finally show ?thesis using Some by simp
  qed (simp add: ancestors_climb [OF ix])
qed

lemma ancestors_trancl: "consistent ix \<Longrightarrow> set (ancestors ix v) = {a. (v, a) \<in> (par ix)\<^sup>+}"
proof (induction "depth_at ix v" arbitrary: v rule: less_induct)
  case less
  show ?case
  proof (cases "parent_of ix v")
    case None
    then have "(v, a) \<notin> (par ix)\<^sup>+" for a by (auto dest!: tranclD)
    with None less.prems show ?thesis by (simp add: ancestors_step [of ix v])
  next
    case (Some p)
    then have d: "depth_at ix p < depth_at ix v" using consistent_parent [OF less.prems] by auto
    have "(v, a) \<in> (par ix)\<^sup>+ \<longleftrightarrow> (p, a) \<in> (par ix)\<^sup>*" for a
      using Some by (auto intro: rtrancl_into_trancl2 dest!: tranclD)
    then have "(v, a) \<in> (par ix)\<^sup>+ \<longleftrightarrow> a = p \<or> (p, a) \<in> (par ix)\<^sup>+" for a
      by (auto simp: rtrancl_eq_or_trancl)
    with less.hyps [OF d less.prems] Some less.prems show ?thesis by (auto simp: ancestors_step [of ix v])
  qed
qed

lemma distinct_ancestors: "consistent ix \<Longrightarrow> distinct (ancestors ix v)"
proof (induction "depth_at ix v" arbitrary: v rule: less_induct)
  case less
  show ?case
  proof (cases "parent_of ix v")
    case (Some p)
    have "p \<notin> set (ancestors ix p)" using ancestors_trancl [OF less.prems] par_depth [of p p ix] less.prems by auto
    with less.hyps [of p] consistent_parent [OF less.prems Some] less.prems Some show ?thesis by (simp add: ancestors_step [of ix v])
  qed (use less.prems in \<open>simp add: ancestors_step [of ix v]\<close>)
qed

section \<open>Depth-first walks\<close>

abbreviation below :: "(string \<times> cnode list) list \<Rightarrow> (cnode \<times> cnode) set" where
  "below m \<equiv> {(n, k). k \<in> set (bucket m (cn_value n))}"

lemma dfs_fresh: "distinct (map cn_value (dfs m st seen)) \<and> cn_value ` set (dfs m st seen) \<inter> set seen = {}"
  by (induction m st seen rule: dfs.induct) auto

lemma dfs_sound: "n \<in> set (dfs m st seen) \<Longrightarrow> \<exists>s \<in> set st. (s, n) \<in> (below m)\<^sup>*"
proof (induction m st seen rule: dfs.induct)
  case (2 m k ns seen)
  show ?case
  proof (cases "cn_value k \<in> set seen \<or> n = k")
    case False
    with 2 obtain s where s: "s \<in> set (bucket m (cn_value k) @ ns)" "(s, n) \<in> (below m)\<^sup>*" by auto
    show ?thesis
    proof (cases "s \<in> set ns")
      case False
      with s(1) have "(k, s) \<in> below m" by simp
      with s(2) have "(k, n) \<in> (below m)\<^sup>*" by (rule converse_rtrancl_into_rtrancl [rotated])
      then show ?thesis by auto
    qed (use s in auto)
  qed (use 2 in auto)
qed simp

lemma dfs_covers:
  "cn_value ` set st \<subseteq> set seen \<union> cn_value ` set (dfs m st seen) \<and>
   (\<forall>n \<in> set (dfs m st seen). cn_value ` set (bucket m (cn_value n)) \<subseteq> set seen \<union> cn_value ` set (dfs m st seen))"
  by (induction m st seen rule: dfs.induct) auto

lemma dfs_exact: "cn_value ` set (dfs m st []) = cn_value ` {n. \<exists>s \<in> set st. (s, n) \<in> (below m)\<^sup>*}"
proof
  show "cn_value ` set (dfs m st []) \<subseteq> cn_value ` {n. \<exists>s \<in> set st. (s, n) \<in> (below m)\<^sup>*}"
    using dfs_sound [of _ m st "[]"] by auto
  have "cn_value n \<in> cn_value ` set (dfs m st [])" if "(s, n) \<in> (below m)\<^sup>*" "s \<in> set st" for s n
    using that
  proof (induction rule: rtrancl_induct)
    case base
    then show ?case using dfs_covers [of st "[]" m] by auto
  next
    case (step y z)
    then obtain y' where y': "y' \<in> set (dfs m st [])" "cn_value y' = cn_value y" by auto
    then have "cn_value ` set (bucket m (cn_value y)) \<subseteq> cn_value ` set (dfs m st [])"
      using dfs_covers [of st "[]" m] by (metis Un_empty_left list.set(1))
    with step.hyps(2) show ?case by auto
  qed
  then show "cn_value ` {n. \<exists>s \<in> set st. (s, n) \<in> (below m)\<^sup>*} \<subseteq> cn_value ` set (dfs m st [])" by auto
qed

section \<open>A search under a branch\<close>

abbreviation step_up :: "(string \<times> string option) list \<Rightarrow> (string \<times> string) set" where
  "step_up m \<equiv> {(a, b). parent_in m a = Some b}"

definition memo_right :: "(string \<times> string option) list \<Rightarrow> string \<Rightarrow> string set \<Rightarrow> (string \<times> bool) list \<Rightarrow> bool" where
  "memo_right m w S memo \<longleftrightarrow>
     (\<forall>k b. map_of memo k = Some b \<longrightarrow> k \<noteq> w \<and> (if k \<in> S then \<not> b else b = ((k, w) \<in> (step_up m)\<^sup>*)))"

definition trail_right :: "(string \<times> string option) list \<Rightarrow> string \<Rightarrow> string option \<Rightarrow> string set \<Rightarrow> bool" where
  "trail_right m w cursor S \<longleftrightarrow> (\<forall>j \<in> S. j \<noteq> w \<and> (\<forall>b. parent_in m j = Some b \<longrightarrow> b \<in> S \<or> cursor = Some b) \<and>
     (\<forall>c. cursor = Some c \<longrightarrow> (j, c) \<in> (step_up m)\<^sup>*))"

lemma trail_escape:
  assumes "(k, w) \<in> (step_up m)\<^sup>*" "k \<in> S" "\<And>j. j \<in> S \<Longrightarrow> j \<noteq> w"
    and "\<And>j b. j \<in> S \<Longrightarrow> parent_in m j = Some b \<Longrightarrow> b \<in> S \<or> cursor = Some b"
  shows "\<exists>c. cursor = Some c \<and> (c, w) \<in> (step_up m)\<^sup>*"
  using assms(1,2)
proof (induction rule: converse_rtrancl_induct)
  case base
  then show ?case using assms(3) by blast
next
  case (step y z)
  then show ?case using assms(4) [of y z] by auto
qed

lemma trail_out: "trail_right m w cursor S \<Longrightarrow> k \<in> S \<Longrightarrow> (k, w) \<in> (step_up m)\<^sup>* \<Longrightarrow> \<exists>c. cursor = Some c \<and> (c, w) \<in> (step_up m)\<^sup>*"
  by (rule trail_escape [of k w m S cursor]) (simp_all add: trail_right_def)

lemma trail_closed:
  assumes "trail_right m w (Some c) S" "c \<in> S" "k \<in> S"
  shows "(k, w) \<notin> (step_up m)\<^sup>*"
proof
  assume "(k, w) \<in> (step_up m)\<^sup>*"
  then have "\<exists>c. None = Some c \<and> (c, w) \<in> (step_up m)\<^sup>*"
    by (rule trail_escape [of k w m S None]) (use assms in \<open>auto simp: trail_right_def\<close>)
  then show False by simp
qed

lemma within_walk_right:
  assumes "within_walk m w cursor trail memo = (answer, trail', memo')"
    and "trail_right m w cursor (set trail)" "memo_right m w (set trail) memo"
  shows "answer = (case cursor of Some c \<Rightarrow> (c, w) \<in> (step_up m)\<^sup>* | None \<Rightarrow> False) \<and>
    (\<forall>k \<in> set trail'. k \<noteq> w \<and> ((k, w) \<in> (step_up m)\<^sup>*) = answer) \<and> set trail \<subseteq> set trail' \<and> memo_right m w (set trail') memo'"
  using assms
proof (induction m w cursor trail memo rule: within_walk.induct)
  case (1 m w trail memo)
  have "(k, w) \<notin> (step_up m)\<^sup>*" if "k \<in> set trail" for k
    using trail_out [OF 1(2) that] by auto
  with 1 show ?case by (auto simp: trail_right_def)
next
  case (2 m w c trail memo)
  have near: "(c, w) \<in> (step_up m)\<^sup>* \<longleftrightarrow> (k, w) \<in> (step_up m)\<^sup>*" if "k \<in> set trail" for k
  proof
    assume "(k, w) \<in> (step_up m)\<^sup>*"
    from trail_out [OF 2(3) that this] show "(c, w) \<in> (step_up m)\<^sup>*" by simp
  next
    assume "(c, w) \<in> (step_up m)\<^sup>*"
    moreover have "(k, c) \<in> (step_up m)\<^sup>*" using that 2(3) by (simp add: trail_right_def)
    ultimately show "(k, w) \<in> (step_up m)\<^sup>*" by (rule rtrancl_trans [rotated])
  qed
  show ?case
  proof (cases "c = w")
    case True
    with 2(2-4) near show ?thesis by (auto simp: trail_right_def)
  next
    case cw: False
    show ?thesis
    proof (cases "map_of memo c")
      case (Some b)
      have res: "answer = b" "trail' = trail" "memo' = memo" using 2(2) cw Some by auto
      have "b = ((c, w) \<in> (step_up m)\<^sup>*)"
      proof (cases "c \<in> set trail")
        case True
        have "(c, w) \<notin> (step_up m)\<^sup>*"
          by (rule trail_closed [OF 2(3) True True])
        moreover have "\<not> b" using 2(4) [unfolded memo_right_def, rule_format, OF Some] True by simp
        ultimately show ?thesis by simp
      next
        case False
        with Some 2(4) show ?thesis by (auto simp: memo_right_def)
      qed
      with near 2(3,4) res show ?thesis by (auto simp: trail_right_def)
    next
      case None
      have w: "within_walk m w (parent_in m c) (trail @ [c]) (mp_set c False memo) = (answer, trail', memo')"
        using 2(2) cw None by simp
      have tr: "trail_right m w (parent_in m c) (set (trail @ [c]))"
        using 2(3) cw by (auto simp: trail_right_def intro: rtrancl_into_rtrancl)
      have mr: "memo_right m w (set (trail @ [c])) (mp_set c False memo)"
        using 2(4) cw by (auto simp: memo_right_def mp_store.get_put split: if_splits)
      have up: "(case parent_in m c of Some p \<Rightarrow> (p, w) \<in> (step_up m)\<^sup>* | None \<Rightarrow> False) = ((c, w) \<in> (step_up m)\<^sup>*)"
        using cw by (auto split: option.split elim: converse_rtranclE intro: converse_rtrancl_into_rtrancl)
      note ih = 2(1) [OF cw None w tr mr, unfolded up]
      from ih have "set trail \<subseteq> set trail'" by (elim conjE) (simp only: set_append Un_subset_iff)
      then show ?thesis using ih by (simp only: option.case) blast
    qed
  qed
qed

lemma is_within_right:
  assumes "is_within m w n memo = (answer, memo')" and "memo_right m w {} memo"
  shows "answer = ((cn_value n, w) \<in> (step_up m)\<^sup>+) \<and> memo_right m w {} memo'"
proof -
  obtain a t mm where walk: "within_walk m w (parent_in m (cn_value n)) [] memo = (a, t, mm)"
    by (cases "within_walk m w (parent_in m (cn_value n)) [] memo")
  from within_walk_right [OF walk] assms(2)
  have r: "a = (case parent_in m (cn_value n) of Some c \<Rightarrow> (c, w) \<in> (step_up m)\<^sup>* | None \<Rightarrow> False)"
    "\<forall>k \<in> set t. k \<noteq> w \<and> ((k, w) \<in> (step_up m)\<^sup>*) = a" "memo_right m w (set t) mm"
    by (simp_all add: trail_right_def)
  have up: "a = ((cn_value n, w) \<in> (step_up m)\<^sup>+)"
    unfolding r(1) by (auto split: option.split dest: tranclD intro: rtrancl_into_trancl2)
  have "map_of (fold (\<lambda>v mm. mp_set v True mm) t mm) k = (if k \<in> set t then Some True else map_of mm k)" for k
    by (induction t arbitrary: mm) (auto simp: mp_store.get_put)
  then have "memo_right m w {} (fold (\<lambda>v mm. mp_set v True mm) t mm)" if a
    using r(2,3) that by (auto simp: memo_right_def split: if_splits)
  moreover have "memo_right m w {} mm" if "\<not> a"
    using r(2,3) that by (auto simp: memo_right_def split: if_splits)
  moreover have "answer = a" "memo' = (if a then fold (\<lambda>v mm. mp_set v True mm) t mm else mm)"
    using assms(1) walk by (auto simp: is_within_def split: if_splits)
  ultimately show ?thesis using up by (cases a) auto
qed

definition inside :: "(string \<times> string option) list \<Rightarrow> string option \<Rightarrow> cnode \<Rightarrow> bool" where
  "inside m w n \<longleftrightarrow> (case w of None \<Rightarrow> True | Some v \<Rightarrow> (cn_value n, v) \<in> (step_up m)\<^sup>+)"

lemma search_go_right:
  "(case w of Some v \<Rightarrow> memo_right m v {} memo | None \<Rightarrow> True) \<Longrightarrow>
   search_go m w P limit ns memo results =
     results @ take (limit - length results) (filter (\<lambda>n. P n \<and> inside m w n) ns)"
proof (induction ns arbitrary: memo results)
  case (Cons n ns)
  show ?case
  proof (cases "limit \<le> length results")
    case False
    then have more: "limit - length results = Suc (limit - length (results @ [n]))" by simp
    show ?thesis
    proof (cases w)
      case None
      with Cons False more show ?thesis by (simp add: inside_def)
    next
      case (Some v)
      obtain a memo' where got: "is_within m v n memo = (a, memo')" by (cases "is_within m v n memo")
      from is_within_right [OF got] Cons.prems Some
      have "a = inside m w n" "memo_right m v {} memo'" by (simp_all add: inside_def)
      with Cons.IH [of memo'] Cons.IH [of memo] Cons.prems Some False more got show ?thesis by simp
    qed
  qed simp
qed simp

text \<open>C24: a search of a nested tree lists, up to its limit and in the tree's order, exactly the nodes that match the
  query and lie below the branch searched, although it remembers what earlier nodes' walks up the tree found.\<close>

theorem search_filters:
  "searchCascaderDeep low matches (buildCascaderIndex items None) query w limit =
     (let q = normalizeCascaderQuery low query; ix = buildCascaderIndex items None
      in if q = [] then []
         else take limit (filter (\<lambda>n. matches n q \<and>
           (case w of None \<Rightarrow> True | Some v \<Rightarrow> v \<in> set (ancestors ix (cn_value n)))) (ci_all ix)))"
proof -
  let ?ix = "buildCascaderIndex items None"
  have "inside (parentOf ?ix) w = (\<lambda>n. case w of None \<Rightarrow> True | Some v \<Rightarrow> v \<in> set (ancestors ?ix (cn_value n)))"
    using ancestors_trancl [OF build_consistent [of items]]
    by (auto simp: inside_def parent_of_def fun_eq_iff split: option.split)
  moreover have "(case w of Some v \<Rightarrow> memo_right (parentOf ?ix) v {} [] | None \<Rightarrow> True)"
    by (simp add: memo_right_def split: option.split)
  ultimately show ?thesis
    by (simp add: searchCascaderDeep_def Let_def search_go_right)
qed

end
