(* ===== verification/CascaderSelect.thy ===== *)
theory CascaderSelect
  imports CascaderTree
begin

text \<open>
  Selecting whole branches in a cascading menu (\<open>cascader-lib.tsx\<close>, cascade selection): a press selects or clears a
  value with everything loaded below it and then settles its ancestors, so that a branch is selected exactly when all
  its selectable children are. A JavaScript \<open>Set\<close> is the list of its members in insertion order.
\<close>

section \<open>Operations\<close>

definition set_add :: "'a \<Rightarrow> 'a list \<Rightarrow> 'a list" where
  "set_add x xs = (if x \<in> set xs then xs else xs @ [x])"

definition set_del :: "'a \<Rightarrow> 'a list \<Rightarrow> 'a list" where
  "set_del x xs = filter (\<lambda>y. y \<noteq> x) xs"

definition set_to :: "bool \<Rightarrow> 'a \<Rightarrow> 'a list \<Rightarrow> 'a list" where
  "set_to b x xs = (if b then set_add x xs else set_del x xs)"

lemma set_set_to [simp]: "y \<in> set (set_to b x xs) \<longleftrightarrow> (if y = x then b else y \<in> set xs)"
  by (auto simp: set_to_def set_add_def set_del_def)

lemma distinct_set_to [simp]: "distinct xs \<Longrightarrow> distinct (set_to b x xs)"
  by (auto simp: set_to_def set_add_def set_del_def)

definition collectCascaderSubtree :: "cindex \<Rightarrow> string \<Rightarrow> cnode list" where
  "collectCascaderSubtree ix v = (case map_of (byValue ix) v of None \<Rightarrow> [] | Some r \<Rightarrow> dfs (childrenOf ix) [r] [])"

definition press_subtree :: "(cnode \<Rightarrow> bool) \<Rightarrow> string \<Rightarrow> bool \<Rightarrow> cnode list \<Rightarrow> string list \<Rightarrow> string list" where
  "press_subtree P v sel ns = fold (\<lambda>n s. if cn_value n \<noteq> v \<and> \<not> P n then s else set_to sel (cn_value n) s) ns"

text \<open>One round of the climb: is the ancestor \<open>c\<close> full?\<close>

definition branch_full :: "cindex \<Rightarrow> (cnode \<Rightarrow> bool) \<Rightarrow> string list \<Rightarrow> string \<Rightarrow> bool" where
  "branch_full ix P s c \<longleftrightarrow>
     (let selectable = filter P (bucket (childrenOf ix) c)
      in selectable \<noteq> [] \<and> list_all (\<lambda>k. cn_value k \<in> set s) selectable \<and>
         (case map_of (byValue ix) c of Some p \<Rightarrow> P p | None \<Rightarrow> False))"

definition settle :: "cindex \<Rightarrow> (cnode \<Rightarrow> bool) \<Rightarrow> string list \<Rightarrow> string list \<Rightarrow> string list" where
  "settle ix P = fold (\<lambda>c s. set_to (branch_full ix P s c) c s)"

definition applyCascadeSelection ::
    "cindex \<Rightarrow> string list \<Rightarrow> string \<Rightarrow> bool \<Rightarrow> (cnode \<Rightarrow> bool) \<Rightarrow> string list" where
  "applyCascadeSelection ix selected v sel P =
     (let subtree = collectCascaderSubtree ix v; s = uniq selected;
          s1 = (if subtree = [] then set_to sel v s else s)
      in settle ix P (ancestors ix v) (press_subtree P v sel subtree s1))"

definition bump :: "string \<Rightarrow> (string \<times> nat) list \<Rightarrow> (string \<times> nat) list" where
  "bump v m = mp_set v ((case map_of m v of Some c \<Rightarrow> c | None \<Rightarrow> 0) + 1) m"

definition getCascaderSelectedDescendants :: "cindex \<Rightarrow> string list \<Rightarrow> (string \<times> nat) list" where
  "getCascaderSelectedDescendants ix selected = fold (\<lambda>v. fold bump (ancestors ix v)) selected []"

definition getCascaderIndeterminateFrom :: "(string \<times> nat) list \<Rightarrow> string list \<Rightarrow> string list" where
  "getCascaderIndeterminateFrom counts selected =
     map fst (filter (\<lambda>(v, c). 0 < c \<and> v \<notin> set selected) counts)"

definition getCascaderIndeterminate :: "cindex \<Rightarrow> string list \<Rightarrow> string list" where
  "getCascaderIndeterminate ix selected = getCascaderIndeterminateFrom (getCascaderSelectedDescendants ix selected) selected"

datatype checked_strategy = CheckAll | CheckParent | CheckChild

definition getCascaderCheckedValues :: "cindex \<Rightarrow> string list \<Rightarrow> checked_strategy \<Rightarrow> string list" where
  "getCascaderCheckedValues ix selected strategy =
     (case strategy of
        CheckAll \<Rightarrow> selected
      | CheckParent \<Rightarrow> filter (\<lambda>v. case parent_in (parentOf ix) v of None \<Rightarrow> True | Some p \<Rightarrow> p \<notin> set selected) selected
      | CheckChild \<Rightarrow> filter (\<lambda>v. list_all (\<lambda>k. cn_value k \<notin> set selected) (bucket (childrenOf ix) v)) selected)"

text \<open>\<open>firstByLabel\<close> and \<open>ambiguous\<close> of the loop; a missing label is a label of its own.\<close>

definition findAmbiguousCascaderLabels :: "cnode list \<Rightarrow> string list" where
  "findAmbiguousCascaderLabels ns = snd (fold (\<lambda>n (firsts, amb).
     case map_of firsts (cn_label n) of
       None \<Rightarrow> (mp_set (cn_label n) (cn_value n) firsts, amb)
     | Some f \<Rightarrow> (firsts, set_add f (set_add (cn_value n) amb))) ns ([], []))"

section \<open>The subtree\<close>

lemma below_par:
  assumes ix: "consistent ix" and root: "CASCADER_ROOT_KEY \<notin> values_of ix" and n: "n \<in> set (ci_all ix)"
  shows "k \<in> set (bucket (childrenOf ix) (cn_value n)) \<longleftrightarrow> k \<in> set (ci_all ix) \<and> (cn_value k, cn_value n) \<in> par ix"
proof -
  have "cn_value n \<noteq> CASCADER_ROOT_KEY" using root n unfolding values_of_def by (metis imageI)
  then show ?thesis using consistent_kids [OF ix, of k "cn_value n"] by (auto simp: parent_key_def split: option.splits)
qed

lemma below_rtrancl:
  assumes ix: "consistent ix" and root: "CASCADER_ROOT_KEY \<notin> values_of ix" and n: "n \<in> set (ci_all ix)"
  shows "(n, k) \<in> (below (childrenOf ix))\<^sup>* \<longleftrightarrow> k \<in> set (ci_all ix) \<and> (cn_value k, cn_value n) \<in> (par ix)\<^sup>*"
proof
  assume "(n, k) \<in> (below (childrenOf ix))\<^sup>*"
  then show "k \<in> set (ci_all ix) \<and> (cn_value k, cn_value n) \<in> (par ix)\<^sup>*"
  proof (induction rule: rtrancl_induct)
    case base
    then show ?case using n by simp
  next
    case (step y z)
    then have "z \<in> set (ci_all ix)" "(cn_value z, cn_value y) \<in> par ix" using below_par [OF ix root, of y z] by auto
    with step.IH show ?case by (auto intro: converse_rtrancl_into_rtrancl)
  qed
next
  assume k: "k \<in> set (ci_all ix) \<and> (cn_value k, cn_value n) \<in> (par ix)\<^sup>*"
  have "\<And>k. k \<in> set (ci_all ix) \<Longrightarrow> cn_value k = v \<Longrightarrow> (n, k) \<in> (below (childrenOf ix))\<^sup>*"
    if "(v, cn_value n) \<in> (par ix)\<^sup>*" for v
    using that
  proof (induction rule: converse_rtrancl_induct)
    case base
    then show ?case using consistent_inj [OF ix _ n] by auto
  next
    case (step y z)
    then have "z \<in> values_of ix" using consistent_parent [OF ix, of y z] by simp
    then obtain m where m: "m \<in> set (ci_all ix)" "cn_value m = z" by (auto simp: values_of_def)
    have "k \<in> set (bucket (childrenOf ix) (cn_value m))" using below_par [OF ix root m(1), of k] step m by auto
    with step.IH [OF m] show ?case by (auto intro: rtrancl_into_rtrancl)
  qed
  with k show "(n, k) \<in> (below (childrenOf ix))\<^sup>*" by blast
qed

text \<open>The subtree of a known value is the nodes it is an ancestor of, and itself, once each.\<close>

lemma subtree_exact:
  assumes ix: "consistent ix" and root: "CASCADER_ROOT_KEY \<notin> values_of ix"
  shows "set (collectCascaderSubtree ix v) = {n \<in> set (ci_all ix). (cn_value n, v) \<in> (par ix)\<^sup>* \<and> v \<in> values_of ix}"
    and "distinct (map cn_value (collectCascaderSubtree ix v))"
proof -
  show "distinct (map cn_value (collectCascaderSubtree ix v))"
    unfolding collectCascaderSubtree_def using dfs_fresh by (cases "map_of (byValue ix) v") (simp_all only: option.case list.map distinct.simps)
  show "set (collectCascaderSubtree ix v) = {n \<in> set (ci_all ix). (cn_value n, v) \<in> (par ix)\<^sup>* \<and> v \<in> values_of ix}"
  proof (cases "map_of (byValue ix) v")
    case None
    then have "v \<notin> values_of ix" using consistent_has [OF ix, of v] by (simp add: mp_has_def)
    with None show ?thesis by (simp add: collectCascaderSubtree_def)
  next
    case (Some r)
    then have r: "r \<in> set (ci_all ix)" "cn_value r = v" using consistent_get [OF ix] by auto
    then have v: "v \<in> values_of ix" by (auto simp: values_of_def)
    have reach: "(r, n) \<in> (below (childrenOf ix))\<^sup>* \<longleftrightarrow> n \<in> set (ci_all ix) \<and> (cn_value n, v) \<in> (par ix)\<^sup>*" for n
      using below_rtrancl [OF ix root r(1), of n] r(2) by simp
    have sound: "n \<in> set (ci_all ix) \<and> (cn_value n, v) \<in> (par ix)\<^sup>*" if "n \<in> set (dfs (childrenOf ix) [r] [])" for n
      using dfs_sound [OF that] reach by simp
    have eq: "cn_value ` set (dfs (childrenOf ix) [r] []) = cn_value ` {n. (r, n) \<in> (below (childrenOf ix))\<^sup>*}"
      by (subst dfs_exact) simp
    have "n \<in> set (dfs (childrenOf ix) [r] [])" if "n \<in> set (ci_all ix)" "(cn_value n, v) \<in> (par ix)\<^sup>*" for n
    proof -
      have "cn_value n \<in> cn_value ` set (dfs (childrenOf ix) [r] [])" unfolding eq using that reach by blast
      then obtain n' where "n' \<in> set (dfs (childrenOf ix) [r] [])" "cn_value n' = cn_value n" by (metis imageE)
      with sound consistent_inj [OF ix _ that(1)] show ?thesis by blast
    qed
    with sound v Some show ?thesis by (auto simp: collectCascaderSubtree_def)
  qed
qed

section \<open>What a press changes\<close>

lemma press_subtree_set:
  "x \<in> set (press_subtree P v sel ns s) \<longleftrightarrow>
     (if \<exists>n \<in> set ns. cn_value n = x \<and> (x = v \<or> P n) then sel else x \<in> set s)"
  by (induction ns arbitrary: s) (auto simp: press_subtree_def)

lemma settle_other: "x \<notin> set cs \<Longrightarrow> x \<in> set (settle ix P cs s) \<longleftrightarrow> x \<in> set s"
  by (induction cs arbitrary: s) (auto simp: settle_def)

text \<open>A branch is in the selection exactly when all its selectable children are, if it has some and may be
  selected itself.\<close>

definition branches_settled :: "cindex \<Rightarrow> (cnode \<Rightarrow> bool) \<Rightarrow> string set \<Rightarrow> bool" where
  "branches_settled ix P S \<longleftrightarrow>
     (\<forall>n \<in> set (ci_all ix). P n \<longrightarrow> filter P (bucket (childrenOf ix) (cn_value n)) \<noteq> [] \<longrightarrow>
        (cn_value n \<in> S \<longleftrightarrow> (\<forall>k \<in> set (bucket (childrenOf ix) (cn_value n)). P k \<longrightarrow> cn_value k \<in> S)))"

text \<open>Settling a chain of ancestors, nearest first: each is full exactly for the selection that results, since no later
  step touches its children.\<close>

lemma settle_full:
  assumes ix: "consistent ix" and root: "CASCADER_ROOT_KEY \<notin> values_of ix"
  shows "c \<in> set (ancestors ix v) \<Longrightarrow>
    c \<in> set (settle ix P (ancestors ix v) s) \<longleftrightarrow> branch_full ix P (settle ix P (ancestors ix v) s) c"
proof (induction "depth_at ix v" arbitrary: v s rule: less_induct)
  case less
  then obtain p where p: "parent_of ix v = Some p" by (cases "parent_of ix v") (auto simp: ancestors_step [OF ix, of v])
  have anc: "ancestors ix v = p # ancestors ix p" using p by (simp add: ancestors_step [OF ix, of v])
  let ?s = "set_to (branch_full ix P s p) p s"
  have step: "settle ix P (ancestors ix v) s = settle ix P (ancestors ix p) ?s" unfolding anc by (simp add: settle_def)
  show ?case
  proof (cases "c \<in> set (ancestors ix p)")
    case True
    with less.hyps [of p ?s] consistent_parent [OF ix p] step show ?thesis by simp
  next
    case False
    with less.prems anc have c: "c = p" by simp
    have kid: "cn_value k \<notin> set (p # ancestors ix p)" if k: "k \<in> set (bucket (childrenOf ix) p)" for k
    proof -
      have "p \<in> values_of ix" using consistent_parent [OF ix p] by simp
      then obtain n where n: "n \<in> set (ci_all ix)" "cn_value n = p" by (auto simp: values_of_def)
      have "(cn_value k, p) \<in> par ix" using below_par [OF ix root n(1), of k] k n(2) by simp
      then have d: "depth_at ix (cn_value k) = Suc (depth_at ix p)" using consistent_parent [OF ix] by simp
      have "depth_at ix a \<le> depth_at ix p" if "a \<in> set (p # ancestors ix p)" for a
        using that ancestors_trancl [OF ix, of p] par_depth [of p a ix] ix by auto
      with d show ?thesis by (metis Suc_n_not_le_n)
    qed
    have "branch_full ix P (settle ix P (ancestors ix p) ?s) p = branch_full ix P s p"
    proof -
      have same: "cn_value k \<in> set (settle ix P (ancestors ix p) ?s) \<longleftrightarrow> cn_value k \<in> set s"
        if "k \<in> set (bucket (childrenOf ix) p)" for k
        using kid [OF that] by (simp add: settle_other)
      have "list_all (\<lambda>k. cn_value k \<in> set (settle ix P (ancestors ix p) ?s)) (filter P (bucket (childrenOf ix) p)) =
          list_all (\<lambda>k. cn_value k \<in> set s) (filter P (bucket (childrenOf ix) p))"
        by (rule list.pred_cong [OF refl]) (rule same, simp)
      then show ?thesis unfolding branch_full_def Let_def by (simp only:)
    qed
    moreover have "p \<in> set (settle ix P (ancestors ix p) ?s) \<longleftrightarrow> branch_full ix P s p"
      using False c by (simp add: settle_other)
    ultimately show ?thesis using step c by simp
  qed
qed

definition pressed :: "cindex \<Rightarrow> (cnode \<Rightarrow> bool) \<Rightarrow> string \<Rightarrow> string \<Rightarrow> bool" where
  "pressed ix P v x \<longleftrightarrow> x = v \<or> list_ex (\<lambda>n. cn_value n = x \<and> P n \<and> v \<in> set (ancestors ix x)) (ci_all ix)"

lemma par_rtrancl: "consistent ix \<Longrightarrow> (x, v) \<in> (par ix)\<^sup>* \<longleftrightarrow> x = v \<or> v \<in> set (ancestors ix x)"
  by (auto simp: ancestors_trancl rtrancl_eq_or_trancl)

lemma ancestor_known: "consistent ix \<Longrightarrow> a \<in> set (ancestors ix x) \<Longrightarrow> a \<in> values_of ix"
  by (auto simp: ancestors_trancl dest!: tranclD2 consistent_parent)

lemma not_own_ancestor: "consistent ix \<Longrightarrow> v \<notin> set (ancestors ix v)"
  using par_depth [of v v ix] by (auto simp: ancestors_trancl)

lemma ancestors_antisym: "consistent ix \<Longrightarrow> a \<in> set (ancestors ix b) \<Longrightarrow> b \<notin> set (ancestors ix a)"
  using par_depth [of a b ix] par_depth [of b a ix] by (auto simp: ancestors_trancl)

lemma selection_set:
  assumes ix: "consistent ix" and root: "CASCADER_ROOT_KEY \<notin> values_of ix" and x: "x \<notin> set (ancestors ix v)"
  shows "x \<in> set (applyCascadeSelection ix selected v sel P) \<longleftrightarrow> (if pressed ix P v x then sel else x \<in> set selected)"
proof -
  let ?t = "collectCascaderSubtree ix v"
  have empty: "?t = [] \<longleftrightarrow> v \<notin> values_of ix"
  proof -
    have "?t = [] \<longleftrightarrow> set ?t = {}" by simp
    also have "\<dots> \<longleftrightarrow> v \<notin> values_of ix" unfolding subtree_exact(1) [OF ix root] by (auto simp: values_of_def)
    finally show ?thesis .
  qed
  have down: "(\<exists>n \<in> set ?t. cn_value n = x \<and> (x = v \<or> P n)) \<longleftrightarrow> v \<in> values_of ix \<and> pressed ix P v x"
    unfolding subtree_exact(1) [OF ix root] pressed_def list_ex_iff
    using par_rtrancl [OF ix, of x v] ancestor_known [OF ix, of v x] by (auto simp: values_of_def)
  have "pressed ix P v x \<Longrightarrow> x \<noteq> v \<Longrightarrow> v \<in> values_of ix"
    using ancestor_known [OF ix, of v x] by (auto simp: pressed_def list_ex_iff)
  then show ?thesis
    unfolding applyCascadeSelection_def Let_def settle_other [OF x] press_subtree_set down using empty
    by (cases "v \<in> values_of ix") (auto simp: pressed_def)
qed

lemma selection_settled:
  assumes ix: "consistent ix" and root: "CASCADER_ROOT_KEY \<notin> values_of ix" and before: "branches_settled ix P (set selected)"
  shows "branches_settled ix P (set (applyCascadeSelection ix selected v sel P))"
  unfolding branches_settled_def
proof (intro ballI impI)
  let ?S = "set (applyCascadeSelection ix selected v sel P)"
  fix n
  assume n: "n \<in> set (ci_all ix)" and P: "P n" and kids: "filter P (bucket (childrenOf ix) (cn_value n)) \<noteq> []"
  let ?x = "cn_value n" and ?ks = "bucket (childrenOf ix) (cn_value n)"
  have kid: "k \<in> set (ci_all ix)" "ancestors ix (cn_value k) = ?x # ancestors ix ?x" if "k \<in> set ?ks" for k
    using below_par [OF ix root n, of k] that by (auto simp: ancestors_step [OF ix, of "cn_value k"])
  show "?x \<in> ?S \<longleftrightarrow> (\<forall>k \<in> set ?ks. P k \<longrightarrow> cn_value k \<in> ?S)"
  proof (cases "?x \<in> set (ancestors ix v)")
    case True
    let ?T = "settle ix P (ancestors ix v) (press_subtree P v sel (collectCascaderSubtree ix v)
      (if collectCascaderSubtree ix v = [] then set_to sel v (uniq selected) else uniq selected))"
    have T: "?S = set ?T" by (simp add: applyCascadeSelection_def Let_def)
    have get: "map_of (byValue ix) ?x = Some n" using consistent_get [OF ix] n by simp
    have "?x \<in> set ?T \<longleftrightarrow> branch_full ix P ?T ?x" by (rule settle_full [OF ix root True])
    also have "\<dots> \<longleftrightarrow> (\<forall>k \<in> set ?ks. P k \<longrightarrow> cn_value k \<in> set ?T)"
      unfolding branch_full_def Let_def get option.case list_all_iff using P kids by (simp only: set_filter) blast
    finally show ?thesis unfolding T .
  next
    case up: False
    have kidup: "cn_value k \<notin> set (ancestors ix v)" if k: "k \<in> set ?ks" for k
    proof
      assume "cn_value k \<in> set (ancestors ix v)"
      then have "(v, cn_value k) \<in> (par ix)\<^sup>+" using ancestors_trancl [OF ix] by auto
      moreover have "(cn_value k, ?x) \<in> par ix" using below_par [OF ix root n, of k] k by blast
      ultimately have "(v, ?x) \<in> (par ix)\<^sup>+" by (rule trancl.trancl_into_trancl)
      with up show False using ancestors_trancl [OF ix] by auto
    qed
    show ?thesis
    proof (cases "?x = v \<or> v \<in> set (ancestors ix ?x)")
      case True
      have "pressed ix P v ?x" using True n P by (auto simp: pressed_def list_ex_iff)
      then have x: "?x \<in> ?S \<longleftrightarrow> sel" using selection_set [OF ix root up] by simp
      have k: "cn_value k \<in> ?S \<longleftrightarrow> sel" if "k \<in> set ?ks" "P k" for k
      proof -
        have "pressed ix P v (cn_value k)" using True kid [OF that(1)] that(2) by (auto simp: pressed_def list_ex_iff)
        then show ?thesis using selection_set [OF ix root kidup [OF that(1)]] by simp
      qed
      from kids obtain k where "k \<in> set ?ks" "P k" by (auto simp: filter_empty_conv)
      with x k show ?thesis by blast
    next
      case False
      then have "\<not> pressed ix P v ?x" by (auto simp: pressed_def list_ex_iff)
      then have x: "?x \<in> ?S \<longleftrightarrow> ?x \<in> set selected" using selection_set [OF ix root up] by simp
      have k: "cn_value k \<in> ?S \<longleftrightarrow> cn_value k \<in> set selected" if k: "k \<in> set ?ks" for k
      proof -
        have "cn_value k \<noteq> v" using up kid(2) [OF k] by auto
        with False have "\<not> pressed ix P v (cn_value k)" using kid(2) [OF k] by (auto simp: pressed_def list_ex_iff)
        then show ?thesis using selection_set [OF ix root kidup [OF k]] by simp
      qed
      have "?x \<in> set selected \<longleftrightarrow> (\<forall>k \<in> set ?ks. P k \<longrightarrow> cn_value k \<in> set selected)"
        using before n P kids unfolding branches_settled_def by blast
      with x k show ?thesis by blast
    qed
  qed
qed

text \<open>C23: pressing a value of a nested tree (\<open>select\<close> or clear) leaves every branch selected exactly when all its
  selectable children are, if that held before; the value and every selectable node below it are selected exactly
  when the press selects; and nothing but these and the ancestors changes.\<close>

theorem cascade_selection:
  assumes "ix = buildCascaderIndex items None" and "CASCADER_ROOT_KEY \<notin> values_of ix"
    and "branches_settled ix P (set selected)"
  shows "branches_settled ix P (set (applyCascadeSelection ix selected v sel P)) \<and>
    (\<forall>x. x \<notin> set (ancestors ix v) \<longrightarrow>
       (x \<in> set (applyCascadeSelection ix selected v sel P) \<longleftrightarrow> (if pressed ix P v x then sel else x \<in> set selected)))"
proof -
  have "consistent ix" unfolding assms(1) by (rule build_consistent)
  then show ?thesis using selection_settled [OF _ assms(2,3)] selection_set [OF _ assms(2)] by blast
qed

definition sample_items :: "cnode option list" where
  "sample_items = [Some (CNode ''a'' (Some ''A'') [Some (CNode ''b'' (Some ''B'') [] False None False []),
     Some (CNode ''c'' (Some ''C'') [] False None False [])] False None False [])]"

lemmas cascade_eval = applyCascadeSelection_def collectCascaderSubtree_def press_subtree_def settle_def branch_full_def
  set_to_def set_add_def set_del_def ancestors_def parent_in_def bucket_def buildCascaderIndex_def with_roots_def
  place_def push_child_def empty_index_def parent_key_def mp_has_def

lemma cascade_selection_witness:
  "set (applyCascadeSelection (buildCascaderIndex sample_items None) [''b''] ''c'' True (\<lambda>_. True)) = {''a'', ''b'', ''c''} \<and>
   branches_settled (buildCascaderIndex sample_items None) (\<lambda>_. True) {''a'', ''b'', ''c''}"
proof -
  have ix: "CASCADER_ROOT_KEY \<notin> values_of (buildCascaderIndex sample_items None)"
    "branches_settled (buildCascaderIndex sample_items None) (\<lambda>_. True) (set [''b''])"
    by (simp_all add: sample_items_def cascade_eval values_of_def CASCADER_ROOT_KEY_def branches_settled_def)
  have s: "set (applyCascadeSelection (buildCascaderIndex sample_items None) [''b''] ''c'' True (\<lambda>_. True)) = {''a'', ''b'', ''c''}"
    by (simp add: sample_items_def cascade_eval CASCADER_ROOT_KEY_def) blast
  from cascade_selection [OF refl ix, of "''c''" True] s show ?thesis by simp
qed

section \<open>Counts and partly selected branches\<close>

definition times :: "('a \<Rightarrow> bool) \<Rightarrow> 'a list \<Rightarrow> nat option" where
  "times Q xs = (let k = length (filter Q xs) in if k = 0 then None else Some k)"

lemma bump_all:
  "distinct vs \<Longrightarrow> map_of (fold bump vs m) c =
     (if c \<in> set vs then Some ((case map_of m c of Some k \<Rightarrow> k | None \<Rightarrow> 0) + 1) else map_of m c)"
  by (induction vs arbitrary: m) (auto simp: bump_def mp_store.get_put split: option.splits)

lemma counts_exact:
  assumes "consistent ix"
  shows "map_of (getCascaderSelectedDescendants ix selected) c = times (\<lambda>v. c \<in> set (ancestors ix v)) selected"
proof (induction selected rule: rev_induct)
  case (snoc v vs)
  then show ?case using bump_all [OF distinct_ancestors [OF assms]]
    by (simp add: getCascaderSelectedDescendants_def times_def Let_def)
qed (simp add: getCascaderSelectedDescendants_def times_def)

lemma counts_distinct: "distinct (map fst (getCascaderSelectedDescendants ix selected))"
proof -
  have "distinct (map fst m) \<Longrightarrow> distinct (map fst (fold bump vs m))" for vs m
    by (induction vs arbitrary: m) (simp_all add: bump_def distinct_mp_set)
  then have "distinct (map fst m) \<Longrightarrow> distinct (map fst (fold (\<lambda>v. fold bump (ancestors ix v)) vs m))" for vs m
    by (induction vs arbitrary: m) simp_all
  then show ?thesis by (simp add: getCascaderSelectedDescendants_def)
qed

lemma keys_where: "distinct (map fst m) \<Longrightarrow> x \<in> set (map fst (filter (\<lambda>(v, c). Q v c) m)) \<longleftrightarrow> (\<exists>c. map_of m x = Some c \<and> Q x c)"
proof -
  assume d: "distinct (map fst m)"
  have "x \<in> set (map fst (filter (\<lambda>(v, c). Q v c) m)) \<longleftrightarrow> (\<exists>c. (x, c) \<in> set m \<and> Q x c)" by force
  with d show ?thesis by (simp add: map_of_eq_Some_iff)
qed

text \<open>A branch is drawn partly selected exactly when it is not selected and something below it is.\<close>

theorem indeterminate_exact:
  assumes "consistent ix"
  shows "x \<in> set (getCascaderIndeterminate ix selected) \<longleftrightarrow> x \<notin> set selected \<and> (\<exists>v \<in> set selected. x \<in> set (ancestors ix v))"
proof -
  let ?m = "getCascaderSelectedDescendants ix selected"
  have "x \<in> set (getCascaderIndeterminate ix selected) \<longleftrightarrow> (\<exists>c. map_of ?m x = Some c \<and> 0 < c \<and> x \<notin> set selected)"
    unfolding getCascaderIndeterminate_def getCascaderIndeterminateFrom_def by (rule keys_where [OF counts_distinct])
  then show ?thesis unfolding counts_exact [OF assms] times_def Let_def by (auto simp: filter_empty_conv)
qed

end
