(* ===== verification/CascaderRows.thy ===== *)
theory CascaderRows
  imports CascaderSelect JsJson
begin

text \<open>
  What a cascading menu draws (\<open>cascader-lib.tsx\<close>): the visible rows of tree mode, a shortened path, where the
  Tab key lands, the reading direction; and the development checks of the nodes handed in. The rows' walk follows the
  index, which flat input can make cyclic, so it carries fuel: \<open>None\<close> is a walk that has not ended.
\<close>

section \<open>Rows of tree mode\<close>

record flat_row =
  fl_node :: cnode
  fl_depth :: nat
  fl_branch :: bool
  fl_expanded :: bool
  fl_setSize :: nat
  fl_posInSet :: nat

definition more_row :: "string \<Rightarrow> cnode list \<Rightarrow> nat \<Rightarrow> nat \<Rightarrow> flat_row" where
  "more_row k ns d sz = \<lparr>fl_node = createCascaderMoreNode k (length ns), fl_depth = d, fl_branch = False,
     fl_expanded = False, fl_setSize = sz, fl_posInSet = sz\<rparr>"

fun flatten_walk :: "nat \<Rightarrow> cindex \<Rightarrow> string list \<Rightarrow> string list \<Rightarrow> cnode list \<Rightarrow> string \<Rightarrow> nat \<Rightarrow> flat_row list option" where
  "flatten_walk 0 ix expanded sentinels ns k d = None"
| "flatten_walk (Suc f) ix expanded sentinels ns k d =
     (let sz = length ns + (if k \<in> set sentinels then 1 else 0) in
      case map_try (\<lambda>(i, n).
          let branch = isCascaderBranch ix n; open' = branch \<and> cn_value n \<in> set expanded;
              row = \<lparr>fl_node = n, fl_depth = d, fl_branch = branch, fl_expanded = open', fl_setSize = sz, fl_posInSet = Suc i\<rparr>
          in if open' then map_option (Cons row) (flatten_walk f ix expanded sentinels (bucket (childrenOf ix) (cn_value n)) (cn_value n) (d + 1))
             else Some [row]) (indexed ns) of
        None \<Rightarrow> None
      | Some rss \<Rightarrow> Some (concat rss @ (if k \<in> set sentinels then [more_row k ns d sz] else [])))"

definition deepest :: "cindex \<Rightarrow> nat" where
  "deepest ix = fold (\<lambda>n. max (depth_at ix (cn_value n))) (ci_all ix) 0"

definition flattenCascaderTree :: "nat \<Rightarrow> cindex \<Rightarrow> string list \<Rightarrow> string list \<Rightarrow> flat_row list option" where
  "flattenCascaderTree fuel ix expanded sentinels = flatten_walk fuel ix expanded sentinels (ci_roots ix) CASCADER_ROOT_KEY 0"

section \<open>A shortened path\<close>

datatype collapse = Middle | FromStart | NoCollapse
datatype 'n crumb = SegNode 'n | SegEllipsis "'n list"

text \<open>The defaults, three names and the middle, are the callers' arguments here.\<close>

definition collapseCascaderPath :: "'n list \<Rightarrow> int \<Rightarrow> collapse \<Rightarrow> 'n crumb list" where
  "collapseCascaderPath path maxSegments how =
     (if how = NoCollapse \<or> maxSegments \<le> 0 \<or> int (length path) \<le> maxSegments then map SegNode path
      else let keep = nat maxSegments in
        if how = FromStart then
          SegEllipsis (take (length path - keep) path) # map SegNode (drop (length path - keep) path)
        else let tailCount = keep - 1; hidden = drop 1 (take (length path - tailCount) path) in
          if hidden = [] then map SegNode path
          else map SegNode (take 1 path) @ [SegEllipsis hidden] @ map SegNode (drop (length path - tailCount) path))"

section \<open>The keyboard and the reading direction\<close>

text \<open>\<open>stops\<close> are the panel's stops in document order; \<open>precedes a b\<close> and \<open>follows a b\<close> are
  \<open>compareDocumentPosition\<close>'s answers for \<open>b\<close> seen from \<open>a\<close>.\<close>

definition getCascaderTabTarget ::
    "('e \<Rightarrow> 'e \<Rightarrow> bool) \<Rightarrow> ('e \<Rightarrow> 'e \<Rightarrow> bool) \<Rightarrow> 'e list \<Rightarrow> 'e option \<Rightarrow> bool \<Rightarrow> 'e option" where
  "getCascaderTabTarget precedes follows stops focus backwards =
     (case focus of
        None \<Rightarrow> None
      | Some e \<Rightarrow>
          if stops = [] then None
          else case find (\<lambda>i. stops ! i = e) [0..<length stops] of
            Some i \<Rightarrow> if backwards then (if i = 0 then None else nth_opt stops (i - 1)) else nth_opt stops (i + 1)
          | None \<Rightarrow> if backwards then find (precedes e) (rev stops) else find (follows e) stops)"

text \<open>\<open>explicit\<close>: the \<open>dir\<close> attribute of the nearest element that has one; \<open>computed\<close>: the style's direction.\<close>

definition isCascaderRtl :: "string option \<Rightarrow> string option \<Rightarrow> string \<Rightarrow> bool" where
  "isCascaderRtl explicit computed provided =
     (if provided = ''rtl'' then True
      else case map_option lower explicit of
        Some e \<Rightarrow> if e = ''rtl'' then True else if e = ''ltr'' then False else computed = Some ''rtl''
      | None \<Rightarrow> computed = Some ''rtl'')"

section \<open>Development checks\<close>

text \<open>A warning is printed once per key and never in production.\<close>

definition warnCascaderOnce :: "bool \<Rightarrow> string \<Rightarrow> string \<Rightarrow> string list \<Rightarrow> string option \<times> string list" where
  "warnCascaderOnce production key message warned =
     (if production \<or> key \<in> set warned then (None, warned)
      else (Some (''[Cascader] '' @ message), warned @ [key]))"

fun issue_visit :: "cnode option list \<Rightarrow> string list \<times> string list \<times> cnode list \<Rightarrow> string list \<times> string list \<times> cnode list" where
  "issue_visit [] st = st"
| "issue_visit (None # ns) st = issue_visit ns st"
| "issue_visit (Some (CNode v l cs hc ct ds ks) # ns) (seen, dups, flat) =
     issue_visit ns (issue_visit cs
       (if v \<in> set seen then (seen, if v \<in> set dups then dups else dups @ [v], flat @ [CNode v l cs hc ct ds ks])
        else (seen @ [v], dups, flat @ [CNode v l cs hc ct ds ks])))"

definition issue_parents :: "(cnode \<Rightarrow> string option) \<Rightarrow> string list \<Rightarrow> cnode list \<Rightarrow> (string \<times> string option) list" where
  "issue_parents getParent seen flat = fold (\<lambda>n m.
     if mp_has m (cn_value n) then m
     else mp_set (cn_value n) (case getParent n of Some r \<Rightarrow> if r \<in> set seen then Some r else None | None \<Rightarrow> None) m) flat []"

text \<open>The walk up ends at a value already walked, which is a cycle, or at a root.\<close>

definition meets_cycle :: "(string \<times> string option) list \<Rightarrow> string \<Rightarrow> bool" where
  "meets_cycle m v =
     (let up = climb m (parent_in m v) [v] in parent_in m (last (v # up)) \<noteq> None)"

definition findCascaderDataIssues :: "cnode option list \<Rightarrow> (cnode \<Rightarrow> string option) option \<Rightarrow> string list \<times> string list" where
  "findCascaderDataIssues items getParent =
     (case issue_visit items ([], [], []) of
        (seen, dups, flat) \<Rightarrow>
          (dups, case getParent of
             None \<Rightarrow> []
           | Some gp \<Rightarrow> let m = issue_parents gp seen flat
               in map cn_value (filter (\<lambda>n. meets_cycle m (cn_value n)) flat)))"

section \<open>Facts\<close>

fun segment_nodes :: "'n crumb \<Rightarrow> 'n list" where
  "segment_nodes (SegNode n) = [n]"
| "segment_nodes (SegEllipsis ns) = ns"

lemma segment_nodes_map [simp]: "concat (map segment_nodes (map SegNode ns)) = ns"
  and segment_nodes_comp [simp]: "concat (map (segment_nodes \<circ> SegNode) ns) = ns"
  by (induction ns) simp_all

text \<open>A shortened path still holds every node, in order; it shows at most the names asked for and one ellipsis, which
  hides something.\<close>

definition ellipses :: "'n crumb list \<Rightarrow> 'n list list" where
  "ellipses ss = [ns. SegEllipsis ns \<leftarrow> ss]"

lemma ellipses_simps [simp]:
  "ellipses [] = []" "ellipses (SegNode n # ss) = ellipses ss" "ellipses (SegEllipsis ns # ss) = ns # ellipses ss"
  "ellipses (ss @ ts) = ellipses ss @ ellipses ts" "ellipses (map SegNode path) = []"
  by (induction path) (simp_all add: ellipses_def)

lemma collapse_whole:
  "concat (map segment_nodes (collapseCascaderPath path k how)) = path \<and>
   (how \<noteq> NoCollapse \<and> 0 < k \<longrightarrow> int (length (collapseCascaderPath path k how)) \<le> k + 1) \<and>
   length (ellipses (collapseCascaderPath path k how)) \<le> 1 \<and> [] \<notin> set (ellipses (collapseCascaderPath path k how))"
proof (cases "how = NoCollapse \<or> k \<le> 0 \<or> int (length path) \<le> k")
  case True
  then show ?thesis by (auto simp: collapseCascaderPath_def)
next
  case False
  then obtain n where k: "k = int n" "0 < n" "n < length path" by (cases k) auto
  show ?thesis
  proof (cases "how = FromStart")
    case True
    have "path \<noteq> []" using k by auto
    with True False k show ?thesis by (simp add: collapseCascaderPath_def)
  next
    case mid: False
    let ?cut = "length path - (n - 1)"
    have cut: "1 < ?cut" "?cut \<le> length path" using k by auto
    have hidden: "drop 1 (take ?cut path) \<noteq> []" using cut by simp
    have e: "collapseCascaderPath path k how = map SegNode (take 1 path) @ [SegEllipsis (drop 1 (take ?cut path))] @ map SegNode (drop ?cut path)"
      using False mid k hidden by (simp add: collapseCascaderPath_def Let_def)
    have "path = take 1 path @ drop 1 (take ?cut path) @ drop ?cut path"
      using cut(1) by (metis append.assoc append_take_drop_id min.absorb1 less_imp_le take_take)
    moreover have "length (take 1 path) = 1" "length (drop ?cut path) = n - 1" using k by auto
    ultimately show ?thesis unfolding e using hidden k by simp
  qed
qed

text \<open>The walk from a level of depth \<open>d\<close> ends with \<open>deepest + 2 - d\<close> fuel, and lists the nodes below the level
  whose ancestors from that depth on are all expanded.\<close>

definition shown_below :: "cindex \<Rightarrow> string list \<Rightarrow> cnode list \<Rightarrow> nat \<Rightarrow> cnode set" where
  "shown_below ix expanded ns d = {m \<in> set (ci_all ix). \<exists>n \<in> set ns. (m = n \<or> cn_value n \<in> set (ancestors ix (cn_value m))) \<and>
     (\<forall>a \<in> set (ancestors ix (cn_value m)). d \<le> depth_at ix a \<longrightarrow> a \<in> set expanded)}"

definition row_ok :: "cindex \<Rightarrow> flat_row \<Rightarrow> bool" where
  "row_ok ix r \<longleftrightarrow> fl_depth r = depth_at ix (cn_value (fl_node r)) \<and> 1 \<le> fl_posInSet r \<and> fl_posInSet r \<le> fl_setSize r"

lemma map_try_total: "(\<And>x. x \<in> set xs \<Longrightarrow> f x = Some (g x)) \<Longrightarrow> map_try f xs = Some (map g xs)"
  by (induction xs) simp_all

lemma fold_max: "(m :: nat) \<le> fold (\<lambda>n. max (g n)) ns m \<and> (\<forall>n \<in> set ns. g n \<le> fold (\<lambda>n. max (g n)) ns m)"
proof (induction ns arbitrary: m)
  case (Cons n ns)
  from Cons [of "max (g n) m"] show ?case by simp
qed simp

lemma deepest_ge: "n \<in> set (ci_all ix) \<Longrightarrow> depth_at ix (cn_value n) \<le> deepest ix"
  unfolding deepest_def using fold_max [of 0 "\<lambda>n. depth_at ix (cn_value n)" "ci_all ix"] by blast

lemma ancestor_depth: "consistent ix \<Longrightarrow> a \<in> set (ancestors ix v) \<Longrightarrow> depth_at ix a < depth_at ix v"
  using par_depth [of v a ix] by (simp add: ancestors_trancl)

lemma ancestor_unique:
  "consistent ix \<Longrightarrow> a \<in> set (ancestors ix v) \<Longrightarrow> b \<in> set (ancestors ix v) \<Longrightarrow> depth_at ix a = depth_at ix b \<Longrightarrow> a = b"
proof (induction "depth_at ix v" arbitrary: v rule: less_induct)
  case less
  then obtain p where p: "parent_of ix v = Some p" by (cases "parent_of ix v") (auto simp: ancestors_step [OF less.prems(1), of v])
  have anc: "ancestors ix v = p # ancestors ix p" using p by (simp add: ancestors_step [OF less.prems(1), of v])
  have lower: "depth_at ix c < depth_at ix p" if "c \<in> set (ancestors ix p)" for c using ancestor_depth [OF less.prems(1) that] .
  show ?case
  proof (cases "a \<in> set (ancestors ix p) \<and> b \<in> set (ancestors ix p)")
    case True
    then show ?thesis using less.hyps [of p] consistent_parent [OF less.prems(1) p] less.prems(1,4) by auto
  next
    case False
    then show ?thesis using less.prems(2-4) anc lower [of a] lower [of b] by auto
  qed
qed

lemma ancestor_child:
  assumes ix: "consistent ix" and root: "CASCADER_ROOT_KEY \<notin> values_of ix" and n: "n \<in> set (ci_all ix)"
  shows "m \<in> set (ci_all ix) \<Longrightarrow> cn_value n \<in> set (ancestors ix (cn_value m)) \<longleftrightarrow>
    (\<exists>c \<in> set (bucket (childrenOf ix) (cn_value n)). m = c \<or> cn_value c \<in> set (ancestors ix (cn_value m)))"
proof
  assume m: "m \<in> set (ci_all ix)" and "cn_value n \<in> set (ancestors ix (cn_value m))"
  then have "(cn_value m, cn_value n) \<in> (par ix)\<^sup>+" using ancestors_trancl [OF ix] by auto
  then obtain v where v: "(cn_value m, v) \<in> (par ix)\<^sup>*" "(v, cn_value n) \<in> par ix" by (auto dest: tranclD2)
  then have "v \<in> values_of ix" using consistent_parent_in [OF ix, of v] by auto
  then obtain c where c: "c \<in> set (ci_all ix)" "cn_value c = v" by (auto simp: values_of_def)
  then have "c \<in> set (bucket (childrenOf ix) (cn_value n))" using below_par [OF ix root n, of c] v(2) by simp
  moreover have "m = c \<or> cn_value c \<in> set (ancestors ix (cn_value m))"
    using v(1) c m consistent_inj [OF ix m c(1)] by (auto simp: par_rtrancl [OF ix])
  ultimately show "\<exists>c \<in> set (bucket (childrenOf ix) (cn_value n)). m = c \<or> cn_value c \<in> set (ancestors ix (cn_value m))" by blast
next
  assume "m \<in> set (ci_all ix)" and "\<exists>c \<in> set (bucket (childrenOf ix) (cn_value n)). m = c \<or> cn_value c \<in> set (ancestors ix (cn_value m))"
  then obtain c where "(cn_value c, cn_value n) \<in> par ix" "(cn_value m, cn_value c) \<in> (par ix)\<^sup>*"
    using below_par [OF ix root n] by (auto simp: par_rtrancl [OF ix])
  then show "cn_value n \<in> set (ancestors ix (cn_value m))"
    using ancestors_trancl [OF ix] rtrancl_into_trancl1 [of "cn_value m" "cn_value c" "par ix"] by auto
qed

lemma shown_step:
  assumes ix: "consistent ix" and root: "CASCADER_ROOT_KEY \<notin> values_of ix" and n: "n \<in> set (ci_all ix)" "depth_at ix (cn_value n) = d"
  shows "shown_below ix expanded [n] d =
    insert n (if cn_value n \<in> set expanded then shown_below ix expanded (bucket (childrenOf ix) (cn_value n)) (Suc d) else {})"
proof (intro set_eqI)
  fix m
  let ?open = "\<lambda>d. \<forall>a \<in> set (ancestors ix (cn_value m)). d \<le> depth_at ix a \<longrightarrow> a \<in> set expanded"
  have self: "?open d" if "m = n" using that n(2) ancestor_depth [OF ix] by fastforce
  have more: "?open d \<longleftrightarrow> cn_value n \<in> set expanded \<and> ?open (Suc d)" if "cn_value n \<in> set (ancestors ix (cn_value m))"
    using that n(2) ancestor_unique [OF ix _ that] by (metis Suc_leD Suc_leI le_neq_implies_less order_refl)
  show "m \<in> shown_below ix expanded [n] d \<longleftrightarrow>
    m \<in> insert n (if cn_value n \<in> set expanded then shown_below ix expanded (bucket (childrenOf ix) (cn_value n)) (Suc d) else {})"
  proof (cases "m \<in> set (ci_all ix)")
    case True
    have "m \<in> shown_below ix expanded [n] d \<longleftrightarrow> m = n \<or> cn_value n \<in> set (ancestors ix (cn_value m)) \<and> ?open d"
      using True self unfolding shown_below_def by auto
    also have "\<dots> \<longleftrightarrow> m = n \<or> cn_value n \<in> set expanded \<and> cn_value n \<in> set (ancestors ix (cn_value m)) \<and> ?open (Suc d)"
      using more by blast
    also have "\<dots> \<longleftrightarrow> m = n \<or> cn_value n \<in> set expanded \<and> m \<in> shown_below ix expanded (bucket (childrenOf ix) (cn_value n)) (Suc d)"
      unfolding ancestor_child [OF ix root n(1) True] shown_below_def using True by blast
    finally show ?thesis by simp
  qed (use n in \<open>auto simp: shown_below_def\<close>)
qed

lemma shown_union: "shown_below ix expanded ns d = (\<Union>n \<in> set ns. shown_below ix expanded [n] d)"
  by (auto simp: shown_below_def)

lemma flatten_walk_rows:
  assumes ix: "consistent ix" and root: "CASCADER_ROOT_KEY \<notin> values_of ix"
  shows "deepest ix + 2 \<le> f + d \<Longrightarrow> (\<forall>n \<in> set ns. n \<in> set (ci_all ix) \<and> depth_at ix (cn_value n) = d) \<Longrightarrow> d \<le> deepest ix + 1 \<Longrightarrow>
    \<exists>rows. flatten_walk f ix expanded [] ns k d = Some rows \<and> fl_node ` set rows = shown_below ix expanded ns d \<and> list_all (row_ok ix) rows"
proof (induction f arbitrary: ns k d)
  case 0
  then show ?case by simp
next
  case (Suc f)
  let ?kids = "\<lambda>n. bucket (childrenOf ix) (cn_value n)"
  let ?open = "\<lambda>n. isCascaderBranch ix n \<and> cn_value n \<in> set expanded"
  let ?row = "\<lambda>i n. \<lparr>fl_node = n, fl_depth = d, fl_branch = isCascaderBranch ix n, fl_expanded = ?open n,
    fl_setSize = length ns, fl_posInSet = Suc i\<rparr>"
  let ?F = "\<lambda>(i, n). if ?open n then map_option (Cons (?row i n)) (flatten_walk f ix expanded [] (?kids n) (cn_value n) (d + 1)) else Some [?row i n]"
  have node: "\<exists>rs. ?F (i, n) = Some rs \<and> fl_node ` set rs = shown_below ix expanded [n] d \<and> list_all (row_ok ix) rs"
    if "(i, n) \<in> set (indexed ns)" for i n
  proof -
    have i: "i < length ns" and n: "n \<in> set (ci_all ix)" "depth_at ix (cn_value n) = d"
      using that Suc.prems(2) by (auto simp: in_set_indexed)
    have r: "row_ok ix (?row i n)" using i n by (simp add: row_ok_def)
    note step = shown_step [OF ix root n, of expanded]
    show ?thesis
    proof (cases "?open n")
      case False
      have "shown_below ix expanded [n] d = {n}"
        using step False by (auto simp: isCascaderBranch_def shown_below_def)
      with False r show ?thesis by auto
    next
      case True
      have kids: "\<forall>c \<in> set (?kids n). c \<in> set (ci_all ix) \<and> depth_at ix (cn_value c) = d + 1"
        using below_par [OF ix root n(1)] consistent_parent [OF ix] n(2) by fastforce
      have bound: "deepest ix + 2 \<le> f + (d + 1)" "d + 1 \<le> deepest ix + 1"
        using Suc.prems(1) deepest_ge [OF n(1)] n(2) by auto
      from Suc.IH [OF bound(1) kids bound(2), of "cn_value n"] obtain rs where
        rs: "flatten_walk f ix expanded [] (?kids n) (cn_value n) (d + 1) = Some rs"
          "fl_node ` set rs = shown_below ix expanded (?kids n) (d + 1)" "list_all (row_ok ix) rs" by blast
      have "?F (i, n) = Some (?row i n # rs)" using True rs(1) by simp
      moreover have "fl_node ` set (?row i n # rs) = shown_below ix expanded [n] d" using rs(2) step True by simp
      moreover have "list_all (row_ok ix) (?row i n # rs)" using r rs(3) by simp
      ultimately show ?thesis by blast
    qed
  qed
  define G where "G = (\<lambda>x. the (?F x))"
  have G: "?F x = Some (G x)" "fl_node ` set (G x) = shown_below ix expanded [snd x] d" "list_all (row_ok ix) (G x)"
    if "x \<in> set (indexed ns)" for x
    using node [of "fst x" "snd x"] that unfolding G_def by auto
  have "map_try ?F (indexed ns) = Some (map G (indexed ns))" by (rule map_try_total) (rule G(1))
  then have walk: "flatten_walk (Suc f) ix expanded [] ns k d = Some (concat (map G (indexed ns)))"
    by (simp add: Let_def)
  have "fl_node ` set (concat (map G (indexed ns))) = (\<Union>x \<in> set (indexed ns). fl_node ` set (G x))" by auto
  also have "\<dots> = (\<Union>x \<in> set (indexed ns). shown_below ix expanded [snd x] d)" using G(2) by simp
  also have "\<dots> = (\<Union>n \<in> snd ` set (indexed ns). shown_below ix expanded [n] d)" by auto
  also have "snd ` set (indexed ns) = set ns" by (metis map_snd_indexed set_map)
  also have "(\<Union>n \<in> set ns. shown_below ix expanded [n] d) = shown_below ix expanded ns d" by (rule shown_union [symmetric])
  finally have "fl_node ` set (concat (map G (indexed ns))) = shown_below ix expanded ns d" .
  moreover have "list_all (row_ok ix) (concat (map G (indexed ns)))" using G(3) by (auto simp: list_all_iff)
  ultimately show ?case using walk by blast
qed

lemma under_a_root:
  "consistent ix \<Longrightarrow> m \<in> set (ci_all ix) \<Longrightarrow>
   \<exists>n \<in> set (bucket (childrenOf ix) CASCADER_ROOT_KEY). m = n \<or> cn_value n \<in> set (ancestors ix (cn_value m))"
proof (induction "depth_at ix (cn_value m)" arbitrary: m rule: less_induct)
  case less
  show ?case
  proof (cases "parent_of ix (cn_value m)")
    case None
    then show ?thesis using consistent_kids [OF less.prems(1), of m CASCADER_ROOT_KEY] less.prems(2) by (auto simp: parent_key_def)
  next
    case (Some p)
    then obtain q where q: "q \<in> set (ci_all ix)" "cn_value q = p" "depth_at ix p < depth_at ix (cn_value m)"
      using consistent_parent [OF less.prems(1) Some] by (auto simp: values_of_def)
    have "ancestors ix (cn_value m) = p # ancestors ix p" using Some by (simp add: ancestors_step [OF less.prems(1), of "cn_value m"])
    with less.hyps [of q] q less.prems(1) show ?thesis by auto
  qed
qed

lemma root_level:
  assumes ix: "consistent ix" and root: "CASCADER_ROOT_KEY \<notin> values_of ix" and n: "n \<in> set (bucket (childrenOf ix) CASCADER_ROOT_KEY)"
  shows "n \<in> set (ci_all ix) \<and> depth_at ix (cn_value n) = 0"
proof -
  have k: "n \<in> set (ci_all ix)" "parent_key (parent_of ix (cn_value n)) = CASCADER_ROOT_KEY" using consistent_kids [OF ix] n by auto
  have "parent_of ix (cn_value n) = None"
    using k(2) root consistent_parent [OF ix, of "cn_value n"] by (cases "parent_of ix (cn_value n)") (auto simp: parent_key_def)
  with consistent_root [OF ix, of "cn_value n"] k(1) show ?thesis by (simp add: values_of_def)
qed

lemma shown_at_roots:
  assumes "consistent ix"
  shows "shown_below ix expanded (bucket (childrenOf ix) CASCADER_ROOT_KEY) 0 =
    {m \<in> set (ci_all ix). set (ancestors ix (cn_value m)) \<subseteq> set expanded}"
  using under_a_root [OF assms] by (auto simp: shown_below_def)

text \<open>C25: tree mode's rows of a nested tree are drawn with \<open>deepest + 2\<close> levels of the walk, however nodes are marked,
  and show exactly the nodes whose ancestors are all expanded, each at its depth and at a position within its level.\<close>

theorem flatten_shows:
  assumes "ix = buildCascaderIndex items None" and "CASCADER_ROOT_KEY \<notin> values_of ix"
  shows "\<exists>rows. flattenCascaderTree (deepest ix + 2) ix expanded [] = Some rows \<and> list_all (row_ok ix) rows \<and>
    fl_node ` set rows = {m \<in> set (ci_all ix). set (ancestors ix (cn_value m)) \<subseteq> set expanded}"
proof -
  have ix: "consistent ix" unfolding assms(1) by (rule build_consistent)
  have rs: "ci_roots ix = bucket (childrenOf ix) CASCADER_ROOT_KEY"
    by (simp add: assms(1) buildCascaderIndex_def with_roots_def)
  have level: "\<forall>n \<in> set (bucket (childrenOf ix) CASCADER_ROOT_KEY). n \<in> set (ci_all ix) \<and> depth_at ix (cn_value n) = 0"
    using root_level [OF ix assms(2)] by blast
  from flatten_walk_rows [OF ix assms(2) _ level, of "deepest ix + 2" expanded CASCADER_ROOT_KEY]
  show ?thesis unfolding flattenCascaderTree_def rs shown_at_roots [OF ix] by (simp del: flatten_walk.simps) blast
qed

lemma flatten_shows_witness:
  "\<exists>rows. flattenCascaderTree 3 (buildCascaderIndex sample_items None) [''a''] [] = Some rows \<and>
     fl_node ` set rows = set (ci_all (buildCascaderIndex sample_items None))"
proof -
  have ix: "CASCADER_ROOT_KEY \<notin> values_of (buildCascaderIndex sample_items None)"
    by (simp add: sample_items_def cascade_eval values_of_def CASCADER_ROOT_KEY_def)
  have d: "deepest (buildCascaderIndex sample_items None) + 2 = 3"
    by (simp add: sample_items_def cascade_eval deepest_def depth_at_def)
  have "{m \<in> set (ci_all (buildCascaderIndex sample_items None)).
      set (ancestors (buildCascaderIndex sample_items None) (cn_value m)) \<subseteq> set [''a'']} = set (ci_all (buildCascaderIndex sample_items None))"
    by (auto simp: sample_items_def cascade_eval CASCADER_ROOT_KEY_def)
  with flatten_shows [OF refl ix, of "[''a'']", unfolded d] show ?thesis by auto
qed

end
