(* ===== verification/FilterSchema.thy ===== *)
theory FilterSchema
  imports CascaderRows
begin

text \<open>
  The fields a filter may be built on (\<open>components/reui/filters/filters-lib.tsx\<close>, types in \<open>filters-types.tsx\<close>): the
  tree of fields, its signature, the flat index looked up by joined paths, which fields may be picked, matching a typed
  query, the rule of exclusive options, and the schema's checks. Render functions are only tested for presence.
\<close>

section \<open>Fields\<close>

record foption =
  fo_value :: string
  fo_label :: string
  fo_keywords :: "string list"
  fo_exclusive :: bool

record foperator =
  op_value :: string
  op_hidden :: bool

datatype editor_ref = EditorNamed string | EditorFn
datatype operators_ref = OperatorList "foperator list" | OperatorFn

record field_info =
  ff_id :: string
  ff_label :: string
  ff_keywords :: "string list option"
  ff_count :: "num option"
  ff_selectable :: bool
  ff_disabled :: bool
  ff_type :: "string option"
  ff_defaultOperator :: "string option"
  ff_column :: "string option"
  ff_icon :: bool
  ff_renderValue :: bool
  ff_loadOptions :: bool
  ff_resolveValues :: bool
  ff_editor :: "editor_ref option"
  ff_options :: "foption list option"
  ff_operators :: "operators_ref option"

datatype ffield = FField (ff_info: field_info) (ff_fields: "ffield list option")

definition kids_of :: "ffield \<Rightarrow> ffield list" where
  "kids_of f = (case ff_fields f of Some fs \<Rightarrow> fs | None \<Rightarrow> [])"

definition fid :: "ffield \<Rightarrow> string" where
  "fid f = ff_id (ff_info f)"

section \<open>Paths\<close>

definition FILTER_ROOT_KEY :: string where
  "FILTER_ROOT_KEY = CHR 0x00 # ''root''"

definition PATH_SEPARATOR :: string where
  "PATH_SEPARATOR = [CHR 0x00]"

definition joinFilterPath :: "string list \<Rightarrow> string" where
  "joinFilterPath path = join PATH_SEPARATOR path"

definition splitFilterPath :: "string \<Rightarrow> string list" where
  "splitFilterPath key = (if key = [] then [] else split PATH_SEPARATOR key)"

definition parentFilterKey :: "string list \<Rightarrow> string" where
  "parentFilterKey path = (if length path \<le> 1 then FILTER_ROOT_KEY else joinFilterPath (butlast path))"

section \<open>The signature\<close>

definition or_empty :: "string option \<Rightarrow> string" where
  "or_empty s = (case s of Some t \<Rightarrow> t | None \<Rightarrow> [])"

definition flag :: "bool \<Rightarrow> string" where
  "flag b = (if b then ''1'' else ''0'')"

definition option_signature :: "foption \<Rightarrow> string" where
  "option_signature opt = fo_value opt @ ''~'' @ fo_label opt @ (if fo_exclusive opt then ''~x'' else [])"

definition field_signature :: "nat \<Rightarrow> field_info \<Rightarrow> string" where
  "field_signature depth f =
     nat_str depth @ '':'' @ ff_id f @ ''|'' @ ff_label f @ ''|'' @ or_empty (ff_type f) @ ''|'' @
     or_empty (ff_defaultOperator f) @ ''|'' @ or_empty (ff_column f) @ ''|'' @
     flag (ff_selectable f) @ flag (ff_disabled f) @ flag (ff_icon f) @ flag (ff_renderValue f) @
     flag (ff_loadOptions f) @ flag (ff_resolveValues f) @ ''|'' @
     (case ff_editor f of Some (EditorNamed e) \<Rightarrow> e | Some EditorFn \<Rightarrow> ''fn'' | None \<Rightarrow> []) @ ''|'' @
     (case ff_keywords f of Some ks \<Rightarrow> join '','' ks | None \<Rightarrow> []) @ ''|'' @
     (case ff_count f of Some c \<Rightarrow> num_str c | None \<Rightarrow> []) @ ''|'' @
     (case ff_options f of Some os \<Rightarrow> join '','' (map option_signature os) | None \<Rightarrow> []) @ ''|'' @
     (case ff_operators f of Some (OperatorList ops) \<Rightarrow> join '','' (map op_value ops) | Some OperatorFn \<Rightarrow> ''fn'' | None \<Rightarrow> [])"

fun signature_parts :: "ffield list \<Rightarrow> nat \<Rightarrow> string list" where
  "signature_parts [] depth = []"
| "signature_parts (FField f None # fs) depth = field_signature depth f # signature_parts fs depth"
| "signature_parts (FField f (Some ks) # fs) depth =
     field_signature depth f # signature_parts ks (depth + 1) @ signature_parts fs depth"

definition computeFilterSchemaSignature :: "ffield list \<Rightarrow> string" where
  "computeFilterSchemaSignature schema = join [CHR 0x0A] (signature_parts schema 0)"

section \<open>The index\<close>

record findex =
  fi_byPath :: "(string \<times> ffield) list"
  fi_childrenOf :: "(string \<times> ffield list) list"
  fi_parentOf :: "(string \<times> string) list"
  fi_all :: "(ffield \<times> string list) list"
  fi_roots :: "ffield list"
  fi_signature :: string

definition EMPTY_INDEX :: findex where
  "EMPTY_INDEX = \<lparr>fi_byPath = [], fi_childrenOf = [], fi_parentOf = [], fi_all = [], fi_roots = [], fi_signature = []\<rparr>"

definition enter_field :: "ffield \<Rightarrow> string list \<Rightarrow> string \<Rightarrow> string \<Rightarrow> findex \<Rightarrow> findex" where
  "enter_field f path key parentKey ix = ix\<lparr>fi_byPath := mp_set key f (fi_byPath ix),
     fi_parentOf := mp_set key (if parentKey = FILTER_ROOT_KEY then [] else parentKey) (fi_parentOf ix),
     fi_all := fi_all ix @ [(f, path)]\<rparr>"

text \<open>One level: \<open>seen\<close> ids and \<open>accepted\<close> fields so far; at the level's end its accepted fields are stored.\<close>

function field_walk :: "ffield list \<Rightarrow> string list \<Rightarrow> string \<Rightarrow> string list \<Rightarrow> ffield list \<Rightarrow> findex \<Rightarrow> findex" where
  "field_walk [] parentPath parentKey seen accepted ix =
     ix\<lparr>fi_childrenOf := mp_set parentKey accepted (fi_childrenOf ix),
        fi_roots := (if parentKey = FILTER_ROOT_KEY then fi_roots ix @ accepted else fi_roots ix)\<rparr>"
| "field_walk (f # fs) parentPath parentKey seen accepted ix =
     (if fid f \<in> set seen then field_walk fs parentPath parentKey seen accepted ix
      else let path = parentPath @ [fid f]; key = joinFilterPath path in
        if mp_has (fi_byPath ix) key then field_walk fs parentPath parentKey (seen @ [fid f]) accepted ix
        else let ix1 = enter_field f path key parentKey ix;
                 ix2 = (if kids_of f = [] then ix1 else field_walk (kids_of f) path key [] [] ix1)
             in field_walk fs parentPath parentKey (seen @ [fid f]) (accepted @ [f]) ix2)"
  by pat_completeness auto
termination
proof (relation "measure (\<lambda>(fs, _). size_list size fs)", simp_all, goal_cases)
  case (1 f fs)
  have "size_list size (kids_of f) < size f" by (cases f; cases "ff_fields f") (auto simp: kids_of_def)
  then show ?case by simp
qed

definition buildFilterIndex :: "ffield list \<Rightarrow> findex option \<Rightarrow> string option \<Rightarrow> findex" where
  "buildFilterIndex schema previous precomputed =
     (let signature = (case precomputed of Some s \<Rightarrow> s | None \<Rightarrow> computeFilterSchemaSignature schema) in
      case previous of
        Some p \<Rightarrow> if fi_signature p = signature then p
          else if schema = [] then EMPTY_INDEX\<lparr>fi_signature := signature\<rparr>
          else (field_walk schema [] FILTER_ROOT_KEY [] [] EMPTY_INDEX)\<lparr>fi_signature := signature\<rparr>
      | None \<Rightarrow> if schema = [] then EMPTY_INDEX\<lparr>fi_signature := signature\<rparr>
          else (field_walk schema [] FILTER_ROOT_KEY [] [] EMPTY_INDEX)\<lparr>fi_signature := signature\<rparr>)"

definition getFilterField :: "findex \<Rightarrow> string list \<Rightarrow> ffield option" where
  "getFilterField ix path = map_of (fi_byPath ix) (joinFilterPath path)"

text \<open>The chain stops at the first prefix without a field.\<close>

fun chain_from :: "findex \<Rightarrow> string list list \<Rightarrow> ffield list" where
  "chain_from ix [] = []"
| "chain_from ix (p # ps) = (case getFilterField ix p of Some f \<Rightarrow> f # chain_from ix ps | None \<Rightarrow> [])"

definition getFilterFieldChain :: "findex \<Rightarrow> string list \<Rightarrow> ffield list" where
  "getFilterFieldChain ix path = chain_from ix (map (\<lambda>i. take i path) [1..<length path + 1])"

definition getFilterChildren :: "findex \<Rightarrow> string list \<Rightarrow> ffield list" where
  "getFilterChildren ix path =
     (case map_of (fi_childrenOf ix) (if path = [] then FILTER_ROOT_KEY else joinFilterPath path) of
        Some fs \<Rightarrow> fs | None \<Rightarrow> [])"

section \<open>Reading fields\<close>

definition isFilterBranch :: "ffield \<Rightarrow> bool" where
  "isFilterBranch f \<longleftrightarrow> kids_of f \<noteq> []"

definition isFilterFieldSelectable :: "ffield \<Rightarrow> bool" where
  "isFilterFieldSelectable f =
     (if ff_disabled (ff_info f) then False
      else if isFilterBranch f then ff_selectable (ff_info f) else True)"

definition isFilterFieldPickable :: "ffield \<Rightarrow> bool" where
  "isFilterFieldPickable f = (if ff_disabled (ff_info f) then False else \<not> isFilterBranch f)"

definition getFilterFieldCount :: "ffield \<Rightarrow> num" where
  "getFilterFieldCount f = (case ff_count (ff_info f) of Some c \<Rightarrow> c | None \<Rightarrow> of_nat (length (kids_of f)))"

definition formatFilterPath :: "findex \<Rightarrow> string list \<Rightarrow> string \<Rightarrow> string" where
  "formatFilterPath ix path separator =
     (let chain = getFilterFieldChain ix path in
      if chain = [] then join separator path else join separator (map (\<lambda>f. ff_label (ff_info f)) chain))"

datatype path_crumb = FieldSegment ffield | FieldEllipsis "ffield list"

text \<open>The positions of the chain are collapsed, then read back as fields.\<close>

definition collapseFilterPath :: "ffield list \<Rightarrow> int option \<Rightarrow> collapse option \<Rightarrow> path_crumb list" where
  "collapseFilterPath chain maxSegments how =
     map (\<lambda>s. case s of SegNode i \<Rightarrow> FieldSegment (chain ! i) | SegEllipsis is \<Rightarrow> FieldEllipsis (map (\<lambda>i. chain ! i) is))
       (collapseCascaderPath [0..<length chain] (case maxSegments of Some k \<Rightarrow> k | None \<Rightarrow> 3)
          (case how of Some h \<Rightarrow> h | None \<Rightarrow> NoCollapse))"

datatype combinator_slot = SlotWhere | SlotToggle | SlotEcho

definition filterCombinatorSlot :: "nat \<Rightarrow> combinator_slot" where
  "filterCombinatorSlot i = (if i = 0 then SlotWhere else if i = 1 then SlotToggle else SlotEcho)"

section \<open>Matching\<close>

definition normalizeFilterQuery :: "(string \<Rightarrow> string) \<Rightarrow> string \<Rightarrow> string" where
  "normalizeFilterQuery low query = low (trim query)"

definition matchesFilterQuery :: "(string \<Rightarrow> string) \<Rightarrow> ffield \<Rightarrow> string \<Rightarrow> bool" where
  "matchesFilterQuery low f q =
     (if q = [] then True
      else if has_sub (low (ff_label (ff_info f))) q then True
      else case ff_keywords (ff_info f) of Some ks \<Rightarrow> list_ex (\<lambda>k. has_sub (low k) q) ks | None \<Rightarrow> False)"

definition filterFilterLevel :: "(string \<Rightarrow> string) \<Rightarrow> ffield list \<Rightarrow> string \<Rightarrow> ffield list" where
  "filterFilterLevel low fs q = (if q = [] then fs else filter (\<lambda>f. matchesFilterQuery low f q) fs)"

fun deep_results :: "(string \<Rightarrow> string) \<Rightarrow> string \<Rightarrow> nat \<Rightarrow> (ffield \<times> string list) list \<Rightarrow> (ffield \<times> string list) list \<Rightarrow> (ffield \<times> string list) list" where
  "deep_results low q limit [] results = results"
| "deep_results low q limit (e # es) results =
     (if limit \<le> length results then results
      else if \<not> isFilterFieldSelectable (fst e) then deep_results low q limit es results
      else if matchesFilterQuery low (fst e) q then deep_results low q limit es (results @ [e])
      else deep_results low q limit es results)"

definition searchFilterDeep :: "(string \<Rightarrow> string) \<Rightarrow> findex \<Rightarrow> string \<Rightarrow> nat \<Rightarrow> (ffield \<times> string list) list" where
  "searchFilterDeep low ix q limit = (if q = [] then [] else deep_results low q limit (fi_all ix) [])"

definition filterFilterOptions :: "(string \<Rightarrow> string) \<Rightarrow> foption list \<Rightarrow> string \<Rightarrow> foption list" where
  "filterFilterOptions low opts q =
     (if q = [] then opts
      else filter (\<lambda>opt. has_sub (low (fo_label opt)) q \<or> list_ex (\<lambda>k. has_sub (low k) q) (fo_keywords opt)) opts)"

section \<open>Exclusive options\<close>

definition last_exclusive :: "(string \<Rightarrow> bool) \<Rightarrow> string list \<Rightarrow> string option" where
  "last_exclusive isExclusive = (\<lambda>added. fold (\<lambda>v a. if isExclusive v then Some v else a) added None)"

definition applyFilterExclusiveSelection :: "string list \<Rightarrow> string list \<Rightarrow> (string \<Rightarrow> bool) \<Rightarrow> string list" where
  "applyFilterExclusiveSelection next' previous isExclusive =
     (let added = filter (\<lambda>v. v \<notin> set previous) next' in
      if added = [] then next'
      else case last_exclusive isExclusive added of
        Some v \<Rightarrow> [v]
      | None \<Rightarrow> filter (\<lambda>v. \<not> isExclusive v) next')"

section \<open>Schema checks\<close>

definition warnFilterOnce :: "bool \<Rightarrow> string \<Rightarrow> string \<Rightarrow> string list \<Rightarrow> string option \<times> string list" where
  "warnFilterOnce production key message warned =
     (if production \<or> key \<in> set warned then (None, warned) else (Some (''[filters] '' @ message), warned @ [key]))"

record schema_issues =
  si_duplicatePaths :: "string list"
  si_emptyIds :: "string list"
  si_emptyBranches :: "string list"
  si_unknownDefaultOperators :: "string list"

definition field_issues :: "(ffield \<Rightarrow> foperator list) \<Rightarrow> string list \<Rightarrow> string list \<Rightarrow> ffield \<Rightarrow> schema_issues \<Rightarrow> schema_issues" where
  "field_issues operators path seen f r =
     (let label = join ''.'' (path @ [fid f]);
          r1 = (if fid f = [] then r\<lparr>si_emptyIds := si_emptyIds r @ [label]\<rparr>
                else if fid f \<in> set seen then r\<lparr>si_duplicatePaths := si_duplicatePaths r @ [label]\<rparr> else r);
          r2 = (if ff_selectable (ff_info f) \<and> ff_fields f = Some [] then r1\<lparr>si_emptyBranches := si_emptyBranches r1 @ [label]\<rparr> else r1)
      in case ff_defaultOperator (ff_info f) of
           Some d \<Rightarrow> if d \<noteq> [] \<and> \<not> list_ex (\<lambda>opr. op_value opr = d) (operators f)
             then r2\<lparr>si_unknownDefaultOperators := si_unknownDefaultOperators r2 @ [label @ '' -> '' @ d]\<rparr> else r2
         | None \<Rightarrow> r2)"

function schema_walk :: "(ffield \<Rightarrow> foperator list) \<Rightarrow> ffield list \<Rightarrow> string list \<Rightarrow> string list \<Rightarrow> schema_issues \<Rightarrow> schema_issues" where
  "schema_walk operators [] path seen r = r"
| "schema_walk operators (f # fs) path seen r =
     schema_walk operators fs path (fid f # seen)
       (schema_walk operators (kids_of f) (path @ [fid f]) [] (field_issues operators path seen f r))"
  by pat_completeness auto
termination
proof (relation "measure (\<lambda>(_, fs, _). size_list size fs)", simp_all, goal_cases)
  case (1 f fs)
  have "size_list size (kids_of f) < size f" by (cases f; cases "ff_fields f") (auto simp: kids_of_def)
  then show ?case by simp
qed

definition findFilterSchemaIssues :: "ffield list \<Rightarrow> (ffield \<Rightarrow> foperator list) \<Rightarrow> schema_issues" where
  "findFilterSchemaIssues schema operators =
     schema_walk operators schema [] [] \<lparr>si_duplicatePaths = [], si_emptyIds = [], si_emptyBranches = [], si_unknownDefaultOperators = []\<rparr>"

section \<open>Facts\<close>

lemma deep_results_filter:
  "deep_results low q limit es results =
     results @ take (limit - length results) (filter (\<lambda>e. isFilterFieldSelectable (fst e) \<and> matchesFilterQuery low (fst e) q) es)"
proof (induction es arbitrary: results)
  case (Cons e es)
  show ?case
  proof (cases "limit \<le> length results")
    case False
    then have "limit - length results = Suc (limit - length (results @ [e]))" by simp
    with Cons False show ?thesis by simp
  qed simp
qed simp

lemma last_exclusive_in: "last_exclusive P xs = Some v \<Longrightarrow> v \<in> set xs \<and> P v"
proof -
  have "fold (\<lambda>v a. if P v then Some v else a) xs a = Some v \<Longrightarrow> a = Some v \<or> v \<in> set xs \<and> P v" for a
    by (induction xs arbitrary: a) (auto split: if_splits)
  then show "last_exclusive P xs = Some v \<Longrightarrow> v \<in> set xs \<and> P v" by (auto simp: last_exclusive_def)
qed

text \<open>\<open>alone\<close>: an exclusive value is the only pick.\<close>

definition alone :: "(string \<Rightarrow> bool) \<Rightarrow> string list \<Rightarrow> bool" where
  "alone P xs \<longleftrightarrow> (list_ex P xs \<longrightarrow> length xs = 1)"

text \<open>after any change of an option list's picks an exclusive option is the only pick, if it was before; a pick that
  adds values and none of them exclusive keeps all of the others that are not.\<close>

theorem exclusive_alone:
  assumes "alone P previous" and "distinct next'"
  shows "alone P (applyFilterExclusiveSelection next' previous P) \<and>
    set (applyFilterExclusiveSelection next' previous P) \<subseteq> set next' \<and>
    (\<not> list_ex P next' \<longrightarrow> applyFilterExclusiveSelection next' previous P = next')"
proof -
  let ?added = "filter (\<lambda>v. v \<notin> set previous) next'"
  show ?thesis
  proof (cases "?added = []")
    case True
    then have sub: "set next' \<subseteq> set previous" by (auto simp: filter_empty_conv)
    have "length next' = 1" if "list_ex P next'"
    proof -
      from that sub obtain e where e: "e \<in> set next'" "P e" by (auto simp: list_ex_iff)
      with sub have "list_ex P previous" by (auto simp: list_ex_iff)
      with assms(1) have "length previous = 1" by (simp add: alone_def)
      then obtain x where "previous = [x]" by (cases previous) auto
      with sub e assms(2) show ?thesis
        by (metis One_nat_def distinct_card card_1_singleton_iff empty_iff insert_iff list.set(1) list.simps(15) subset_singletonD)
    qed
    with True show ?thesis by (simp add: applyFilterExclusiveSelection_def alone_def)
  next
    case False
    show ?thesis
    proof (cases "last_exclusive P ?added")
      case None
      have "filter (\<lambda>v. \<not> P v) next' = next'" if "\<not> list_ex P next'"
        using that by (auto simp: list_ex_iff intro: filter_True)
      with None False show ?thesis
        by (auto simp: applyFilterExclusiveSelection_def alone_def list_ex_iff)
    next
      case (Some v)
      with False last_exclusive_in [OF Some] show ?thesis
        by (auto simp: applyFilterExclusiveSelection_def alone_def list_ex_iff)
    qed
  qed
qed

lemma exclusive_alone_witness:
  "alone (\<lambda>v. v = ''none'') (applyFilterExclusiveSelection [''a'', ''none''] [''a''] (\<lambda>v. v = ''none'')) \<and>
   applyFilterExclusiveSelection [''a'', ''none''] [''a''] (\<lambda>v. v = ''none'') = [''none'']"
  using exclusive_alone [of "\<lambda>v. v = ''none''" "[''a'']" "[''a'', ''none'']"]
  by (simp add: alone_def applyFilterExclusiveSelection_def last_exclusive_def)

section \<open>The index is the tree\<close>

definition nul_free :: "string \<Rightarrow> bool" where
  "nul_free s \<longleftrightarrow> CHR 0x00 \<notin> set s"

lemma split_go_one: "c \<notin> set x \<Longrightarrow> split_go [c] acc x = [rev acc @ x]"
  by (induction x arbitrary: acc) (auto simp: starts_with_def)

lemma split_go_sep: "c \<notin> set x \<Longrightarrow> split_go [c] acc (x @ c # r) = (rev acc @ x) # split_go [c] [] r"
  by (induction x arbitrary: acc) (auto simp: starts_with_def)

lemma split_join: "xs \<noteq> [] \<Longrightarrow> list_all nul_free xs \<Longrightarrow> split PATH_SEPARATOR (joinFilterPath xs) = xs"
proof (induction xs)
  case (Cons x xs)
  show ?case
  proof (cases xs)
    case Nil
    with Cons show ?thesis by (simp add: split_def joinFilterPath_def PATH_SEPARATOR_def split_go_one nul_free_def)
  next
    case (Cons y ys)
    then have "joinFilterPath (x # xs) = x @ CHR 0x00 # joinFilterPath xs"
      by (simp add: joinFilterPath_def PATH_SEPARATOR_def)
    with Cons.IH Cons.prems Cons show ?thesis
      by (simp add: split_def PATH_SEPARATOR_def split_go_sep nul_free_def)
  qed
qed simp

text \<open>A path of ids without the separator is read back from its key.\<close>

lemma split_path: "list_all nul_free path \<Longrightarrow> path \<noteq> [[]] \<Longrightarrow> splitFilterPath (joinFilterPath path) = path"
proof (cases "joinFilterPath path = []")
  case True
  assume p: "list_all nul_free path" "path \<noteq> [[]]"
  show ?thesis
  proof (cases path)
    case (Cons x xs)
    then have "xs = [] \<and> x = []" using True by (cases xs) (simp_all add: joinFilterPath_def PATH_SEPARATOR_def)
    with Cons p show ?thesis by simp
  qed (simp add: joinFilterPath_def splitFilterPath_def)
next
  case False
  assume "list_all nul_free path" "path \<noteq> [[]]"
  with False split_join [of path] show ?thesis by (cases "path = []") (auto simp: splitFilterPath_def joinFilterPath_def)
qed

lemma join_path_inj: "xs \<noteq> [] \<Longrightarrow> ys \<noteq> [] \<Longrightarrow> list_all nul_free xs \<Longrightarrow> list_all nul_free ys \<Longrightarrow>
    joinFilterPath xs = joinFilterPath ys \<longleftrightarrow> xs = ys"
  using split_join by metis

text \<open>The specification: a path names, level by level, the first field of its id.\<close>

fun resolve :: "ffield list \<Rightarrow> string list \<Rightarrow> ffield option" where
  "resolve fs [] = None"
| "resolve fs [i] = find (\<lambda>f. fid f = i) fs"
| "resolve fs (i # j # is) = (case find (\<lambda>f. fid f = i) fs of Some f \<Rightarrow> resolve (kids_of f) (j # is) | None \<Rightarrow> None)"

fun ids_nul_free :: "ffield \<Rightarrow> bool" where
  "ids_nul_free (FField f None) = nul_free (ff_id f)"
| "ids_nul_free (FField f (Some ks)) = (nul_free (ff_id f) \<and> list_all ids_nul_free ks)"

lemma ids_nul_free_kids: "ids_nul_free f \<Longrightarrow> nul_free (fid f) \<and> list_all ids_nul_free (kids_of f)"
  by (cases f; cases "ff_fields f") (auto simp: fid_def kids_of_def)

lemma resolve_Cons:
  "resolve (f # fs) (i # r) =
     (if fid f = i then (if r = [] then Some f else resolve (kids_of f) r) else resolve fs (i # r))"
  by (cases r) simp_all

lemma resolve_Nil [simp]: "resolve [] r = None"
  by (cases "([] :: ffield list, r)" rule: resolve.cases) auto

abbreviation at_path :: "findex \<Rightarrow> string list \<Rightarrow> ffield option" where
  "at_path ix q \<equiv> map_of (fi_byPath ix) (joinFilterPath q)"

definition fresh_level :: "string list \<Rightarrow> string list \<Rightarrow> findex \<Rightarrow> bool" where
  "fresh_level pp seen ix \<longleftrightarrow>
     (\<forall>i r. list_all nul_free (pp @ i # r) \<longrightarrow> i \<notin> set seen \<longrightarrow> at_path ix (pp @ i # r) = None)"

definition level_path :: "string list \<Rightarrow> string list \<Rightarrow> string list \<Rightarrow> bool" where
  "level_path pp seen q \<longleftrightarrow> (\<exists>i r. q = pp @ i # r \<and> i \<notin> set seen)"

definition good_path :: "string list \<Rightarrow> bool" where
  "good_path q \<longleftrightarrow> q \<noteq> [] \<and> list_all nul_free q"

definition walked :: "ffield list \<Rightarrow> string list \<Rightarrow> string list \<Rightarrow> findex \<Rightarrow> findex \<Rightarrow> bool" where
  "walked fs pp seen ix ix' \<longleftrightarrow>
     (\<forall>q. good_path q \<longrightarrow> at_path ix' q = (if level_path pp seen q then resolve fs (drop (length pp) q) else at_path ix q))"

lemma fresh_level_at: "fresh_level pp seen ix \<Longrightarrow> good_path q \<Longrightarrow> level_path pp seen q \<Longrightarrow> at_path ix q = None"
  by (auto simp: fresh_level_def level_path_def good_path_def)

lemma level_path_snoc:
  "level_path pp seen q \<longleftrightarrow> q = pp @ [i] \<and> i \<notin> set seen \<or> level_path (pp @ [i]) [] q \<and> i \<notin> set seen \<or> level_path pp (seen @ [i]) q"
proof
  assume "level_path pp seen q"
  then obtain j r where j: "q = pp @ j # r" "j \<notin> set seen" by (auto simp: level_path_def)
  show "q = pp @ [i] \<and> i \<notin> set seen \<or> level_path (pp @ [i]) [] q \<and> i \<notin> set seen \<or> level_path pp (seen @ [i]) q"
    using j by (cases "j = i"; cases r) (auto simp: level_path_def)
qed (auto simp: level_path_def)

lemma level_path_apart: "level_path pp (seen @ [i]) q \<Longrightarrow> q \<noteq> pp @ [i] \<and> \<not> level_path (pp @ [i]) [] q"
  by (auto simp: level_path_def)

lemma field_walk_at:
  "list_all ids_nul_free fs \<Longrightarrow> list_all nul_free pp \<Longrightarrow> fresh_level pp seen ix \<Longrightarrow>
   walked fs pp seen ix (field_walk fs pp pk seen accepted ix)"
proof (induction fs pp pk seen accepted ix rule: field_walk.induct)
  case (1 pp pk seen accepted ix)
  then show ?case using fresh_level_at [OF 1(3)] by (auto simp: walked_def)
next
  case (2 f fs pp pk seen accepted ix)
  let ?i = "fid f"
  have f: "nul_free ?i" "list_all ids_nul_free (kids_of f)" "list_all ids_nul_free fs" using 2(5) ids_nul_free_kids by auto
  show ?case
  proof (cases "?i \<in> set seen")
    case True
    have "resolve (f # fs) (drop (length pp) q) = resolve fs (drop (length pp) q)" if "level_path pp seen q" for q
      using that True by (auto simp: level_path_def resolve_Cons)
    with 2(1) [OF True f(3) 2(6,7)] True show ?thesis by (simp add: walked_def)
  next
    case new: False
    let ?path = "pp @ [?i]"
    let ?key = "joinFilterPath ?path"
    have good: "good_path ?path" using f(1) 2(6) by (simp add: good_path_def)
    have no: "\<not> mp_has (fi_byPath ix) ?key"
      using fresh_level_at [OF 2(7) good] new by (auto simp: mp_has_def level_path_def)
    define ix1 where "ix1 = enter_field f ?path ?key pk ix"
    define ix2 where "ix2 = (if kids_of f = [] then ix1 else field_walk (kids_of f) ?path ?key [] [] ix1)"
    have at1: "at_path ix1 q = (if q = ?path then Some f else at_path ix q)" if "good_path q" for q
      using that good join_path_inj [of ?path q] by (auto simp: ix1_def enter_field_def mp_store.get_put good_path_def)
    have fresh1: "fresh_level ?path [] ix1"
      unfolding fresh_level_def
    proof (intro allI impI)
      fix j r
      assume n: "list_all nul_free (?path @ j # r)"
      then have "good_path (?path @ j # r)" "level_path pp seen (?path @ j # r)" using new by (auto simp: good_path_def level_path_def)
      with fresh_level_at [OF 2(7)] at1 show "at_path ix1 (?path @ j # r) = None" by simp
    qed
    have at2: "at_path ix2 q = (if level_path ?path [] q then resolve (kids_of f) (drop (length ?path) q) else at_path ix1 q)" if q: "good_path q" for q
    proof (cases "kids_of f = []")
      case True
          with True fresh_level_at [OF fresh1 q] show ?thesis by (simp add: ix2_def)
    next
      case False
      have "walked (kids_of f) ?path [] ix1 (field_walk (kids_of f) ?path ?key [] [] ix1)"
        by (rule 2(3) [OF new refl refl no ix1_def False f(2) _ fresh1]) (use 2(6) f(1) in simp)
      with q False show ?thesis by (simp add: walked_def ix2_def)
    qed
    have fresh2: "fresh_level pp (seen @ [?i]) ix2"
      unfolding fresh_level_def
    proof (intro allI impI)
      fix j r
      assume n: "list_all nul_free (pp @ j # r)" and j: "j \<notin> set (seen @ [?i])"
      then have q: "good_path (pp @ j # r)" "level_path pp (seen @ [?i]) (pp @ j # r)" "level_path pp seen (pp @ j # r)"
        by (auto simp: good_path_def level_path_def)
      with level_path_apart [OF q(2)] at2 at1 fresh_level_at [OF 2(7) q(1,3)] show "at_path ix2 (pp @ j # r) = None" by simp
    qed
    have "walked fs pp (seen @ [?i]) ix2 (field_walk fs pp pk (seen @ [?i]) (accepted @ [f]) ix2)"
      by (rule 2(4) [OF new refl refl no ix1_def ix2_def f(3) 2(6) fresh2])
    moreover have "field_walk (f # fs) pp pk seen accepted ix = field_walk fs pp pk (seen @ [?i]) (accepted @ [f]) ix2"
      using new no by (simp add: Let_def ix1_def ix2_def)
    moreover have "(if level_path pp (seen @ [?i]) q then resolve fs (drop (length pp) q) else at_path ix2 q) =
        (if level_path pp seen q then resolve (f # fs) (drop (length pp) q) else at_path ix q)" if q: "good_path q" for q
    proof (cases "level_path pp (seen @ [?i]) q")
      case True
      then obtain j r where "q = pp @ j # r" "j \<noteq> ?i" by (auto simp: level_path_def)
      then have "resolve (f # fs) (drop (length pp) q) = resolve fs (drop (length pp) q)" by (simp add: resolve_Cons)
      with True level_path_snoc [of pp seen q ?i] show ?thesis by simp
    next
      case False
      have "resolve (f # fs) (drop (length pp) q) = resolve (kids_of f) (drop (length ?path) q)" if "level_path ?path [] q"
        using that by (auto simp: level_path_def resolve_Cons)
      moreover have "resolve (f # fs) (drop (length pp) ?path) = Some f" by simp
      ultimately show ?thesis using False level_path_snoc [of pp seen q ?i] at2 [OF q] at1 [OF q] new
        by (auto simp: level_path_def)
    qed
    ultimately show ?thesis by (simp add: walked_def)
  qed
qed

text \<open>C26: the flat index looks a path up exactly as the tree of fields does level by level, the first of two siblings with
  one id counting, if neither ids nor path hold the separator.\<close>

theorem index_resolves:
  assumes "list_all ids_nul_free schema" and "list_all nul_free path" and "path \<noteq> []"
  shows "getFilterField (buildFilterIndex schema None precomputed) path = resolve schema path"
proof (cases "schema = []")
  case True
  with True show ?thesis by (simp add: buildFilterIndex_def getFilterField_def EMPTY_INDEX_def Let_def)
next
  case False
  have "walked schema [] [] EMPTY_INDEX (field_walk schema [] FILTER_ROOT_KEY [] [] EMPTY_INDEX)"
    by (rule field_walk_at [OF assms(1)]) (simp_all add: fresh_level_def EMPTY_INDEX_def)
  moreover have "level_path [] [] path" using assms(3) by (cases path) (auto simp: level_path_def)
  ultimately show ?thesis using False assms(2,3)
    by (simp add: walked_def good_path_def buildFilterIndex_def getFilterField_def Let_def)
qed

definition sample_field :: "string \<Rightarrow> ffield list option \<Rightarrow> ffield" where
  "sample_field i fs = FField \<lparr>ff_id = i, ff_label = i, ff_keywords = None, ff_count = None, ff_selectable = False,
     ff_disabled = False, ff_type = None, ff_defaultOperator = None, ff_column = None, ff_icon = False,
     ff_renderValue = False, ff_loadOptions = False, ff_resolveValues = False, ff_editor = None, ff_options = None,
     ff_operators = None\<rparr> fs"

lemma index_resolves_witness:
  "getFilterField (buildFilterIndex [sample_field ''name'' (Some [sample_field ''first'' None])] None None) [''name'', ''first''] =
   Some (sample_field ''first'' None)"
  using index_resolves [of "[sample_field ''name'' (Some [sample_field ''first'' None])]" "[''name'', ''first'']" None]
  by (simp add: sample_field_def nul_free_def fid_def kids_of_def)

end
