(* ===== verification/Connection.thy ===== *)
theory Connection
  imports JsNum
begin

text \<open>
  The state of a project's three sources (webhook, agent upload, SDK) from what ingest recorded of them,
  and when the console stops asking (\<open>features/connection/connection-model.ts\<close>), with the contract's
  records. \<open>now\<close> is the clock in milliseconds. The facts: a source in Error has a refusal that is newer than
  everything accepted; a refusal that did not verify never turns a source that works into an error; and a
  console that stops asking has nothing left that time alone could change.
\<close>

section \<open>The contract's records\<close>

datatype reason =
    TokenMissing | KeyMismatch | SignatureInvalid | GrantMissing | BodyChanged | PlanInactive | PlanCap | TooLarge

record connection_source =
  so_lastAcceptedAt :: "string option"
  so_lastRejectedAt :: "string option"
  so_reason :: "reason option"
  so_usedKey :: "string option"
  so_expectedKey :: "string option"

record project_livekit =
  lk_url :: string
  lk_apiKey :: string

record connection_urls =
  cu_observability :: "string option"
  cu_webhook :: "string option"

record first_call =
  fc_id :: string
  fc_startedAt :: "string option"

record project_connection =
  pc_livekit :: project_livekit
  pc_urls :: connection_urls
  pc_webhook :: connection_source
  pc_agent :: connection_source
  pc_sdk :: connection_source
  pc_firstCall :: "first_call option"

section \<open>A source's state\<close>

datatype source_kind = Webhook | Agent | Sdk

record refusal =
  rf_at :: string
  rf_reason :: "reason option"

datatype step_state =
    Waiting
  | Connected string "refusal option"
  | Broken string "reason option"

definition RECENT_MS :: num where
  "RECENT_MS = 600000"

definition VERIFIED :: "reason list" where
  "VERIFIED = [GrantMissing, BodyChanged, PlanInactive, PlanCap]"

definition verified :: "reason option \<Rightarrow> bool" where
  "verified r = (case r of None \<Rightarrow> False | Some x \<Rightarrow> x \<in> set VERIFIED)"

definition time_of :: "string option \<Rightarrow> jsnum option" where
  "time_of stamp = map_option (\<lambda>t. case date_parse t of Some ms \<Rightarrow> Num ms | None \<Rightarrow> NaN) stamp"

definition js_since :: "num \<Rightarrow> jsnum \<Rightarrow> jsnum" where
  "js_since now t = (case t of Num x \<Rightarrow> Num (now - x) | _ \<Rightarrow> NaN)"

definition sourceState :: "connection_source \<Rightarrow> num \<Rightarrow> step_state" where
  "sourceState s now =
     (case (time_of (so_lastAcceptedAt s), time_of (so_lastRejectedAt s)) of
        (None, None) \<Rightarrow> Waiting
      | (None, Some bad) \<Rightarrow> Broken (the (so_lastRejectedAt s)) (so_reason s)
      | (Some ok, None) \<Rightarrow> Connected (the (so_lastAcceptedAt s)) None
      | (Some ok, Some bad) \<Rightarrow>
          if js_le bad ok then Connected (the (so_lastAcceptedAt s)) None
          else if \<not> verified (so_reason s) \<or> js_le (js_since now ok) (Num RECENT_MS)
          then Connected (the (so_lastAcceptedAt s))
                 (Some \<lparr>rf_at = the (so_lastRejectedAt s), rf_reason = so_reason s\<rparr>)
          else Broken (the (so_lastRejectedAt s)) (so_reason s))"

fun is_error :: "step_state \<Rightarrow> bool" where
  "is_error (Broken _ _) = True"
| "is_error _ = False"

fun is_connected :: "step_state \<Rightarrow> bool" where
  "is_connected (Connected _ _) = True"
| "is_connected _ = False"

fun is_warning :: "step_state \<Rightarrow> bool" where
  "is_warning (Connected _ (Some _)) = True"
| "is_warning _ = False"

definition sources :: "project_connection \<Rightarrow> connection_source list" where
  "sources c = [pc_webhook c, pc_agent c, pc_sdk c]"

definition anyError :: "project_connection \<Rightarrow> num \<Rightarrow> bool" where
  "anyError c now \<longleftrightarrow> list_ex (\<lambda>s. is_error (sourceState s now)) (sources c)"

definition anyWarning :: "project_connection \<Rightarrow> num \<Rightarrow> bool" where
  "anyWarning c now \<longleftrightarrow> list_ex (\<lambda>s. is_warning (sourceState s now)) (sources c)"

definition keepPolling :: "project_connection option \<Rightarrow> num \<Rightarrow> bool" where
  "keepPolling c now =
     (case c of None \<Rightarrow> True | Some p \<Rightarrow> pc_firstCall p = None \<or> anyError p now \<or> anyWarning p now)"

section \<open>What to do about a refusal\<close>

record fix_text =
  fx_title :: string
  fx_fix :: string
  fx_keys :: "(string option \<times> string option) option"
  fx_capacity :: bool

definition Fix :: "string \<Rightarrow> string \<Rightarrow> fix_text" where
  "Fix t f = \<lparr>fx_title = t, fx_fix = f, fx_keys = None, fx_capacity = False\<rparr>"

definition apostrophe :: string where
  "apostrophe = [CHR 0x27]"

definition fixText :: "source_kind \<Rightarrow> connection_source \<Rightarrow> fix_text" where
  "fixText src s =
     (case so_reason s of
        Some TokenMissing \<Rightarrow>
          (case src of
             Sdk \<Rightarrow> Fix ''The SDK batch carried no LiveKit token''
               (''The SDK signs with the agent'' @ apostrophe @ ''s LIVEKIT_API_KEY and LIVEKIT_API_SECRET. Check that both are set where the agent calls attach().'')
           | Agent \<Rightarrow> Fix ''The upload carried no LiveKit token''
               (''Check that LIVEKIT_API_KEY and LIVEKIT_API_SECRET are set in the agent'' @ apostrophe @ ''s environment.'')
           | Webhook \<Rightarrow> Fix ''The webhook carried no LiveKit token''
               ''Add the webhook URL in LiveKit, so LiveKit signs each webhook it sends.'')
      | Some KeyMismatch \<Rightarrow>
          (Fix ''The token named another API key''
             (case src of
                Sdk \<Rightarrow> ''Use this project'' @ apostrophe @ ''s LiveKit API key in the agent, or set VOICEGATEWAY_URL to the Agent upload URL of the project that key belongs to.''
              | _ \<Rightarrow> ''Use this project'' @ apostrophe @ ''s LiveKit API key, or point the agent and webhook at the URLs of the project that key belongs to.''))
            \<lparr>fx_keys := Some (so_usedKey s, so_expectedKey s)\<rparr>
      | Some SignatureInvalid \<Rightarrow>
          Fix ''The token did not verify''
            (''The secret is wrong, the token expired, or it is not a LiveKit token. '' @
             (case src of
                Sdk \<Rightarrow> ''The SDK signs with the agent'' @ apostrophe @ ''s LIVEKIT_API_SECRET; set it to this project'' @ apostrophe @ ''s LiveKit secret.''
              | Agent \<Rightarrow> ''Set LIVEKIT_API_SECRET in the agent to this project'' @ apostrophe @ ''s LiveKit secret.''
              | Webhook \<Rightarrow> ''The secret VoiceGateway stores for this project must match the LiveKit project that signs the webhook.''))
      | Some GrantMissing \<Rightarrow>
          (case src of
             Sdk \<Rightarrow> Fix ''The SDK token lacks the observability grant''
               ''Upgrade the voicegateway Python package, which adds the grant to every batch it signs.''
           | _ \<Rightarrow> Fix ''The upload token lacks the observability grant''
               ''Upgrade the agent to Python livekit-agents 1.8.6 or later, or Node @livekit/agents 1.8.0 or later.'')
      | Some BodyChanged \<Rightarrow>
          Fix ''The webhook body was changed on the way''
            ''Something between LiveKit and VoiceGateway, such as a proxy, rewrote the body. Send it unmodified.''
      | Some PlanInactive \<Rightarrow>
          (Fix ''Telemetry ingestion paused''
             (''This workspace'' @ apostrophe @ ''s plan is not active. Existing data stays readable and your voice calls continue.''))
            \<lparr>fx_capacity := True\<rparr>
      | Some PlanCap \<Rightarrow>
          (Fix ''Telemetry ingestion paused''
             (''This workspace'' @ apostrophe @ ''s allowance is used. Existing data stays readable and your voice calls continue.''))
            \<lparr>fx_capacity := True\<rparr>
      | Some TooLarge \<Rightarrow>
          (case src of
             Sdk \<Rightarrow> Fix ''The request was too large''
               ''An SDK batch holds at most 1,000 events and 1 MiB. Open an issue with the voicegateway package version.''
           | Agent \<Rightarrow> Fix ''The request was too large''
               (''The session report, recording included, is over the size limit. Open an issue with the agent'' @ apostrophe @ ''s livekit-agents version.'')
           | Webhook \<Rightarrow> Fix ''The request was too large''
               ''LiveKit webhooks are small, so check that no proxy between LiveKit and VoiceGateway adds to the body.'')
      | None \<Rightarrow> Fix ''The last request was refused'' ''No reason was recorded.'')"

section \<open>Properties\<close>

lemma time_of_None [simp]: "time_of x = None \<longleftrightarrow> x = None" "time_of None = None"
  unfolding time_of_def by simp_all

text \<open>The states over two known instants: the rule the comment on the function states.\<close>

definition state_rule :: "num option \<Rightarrow> num option \<Rightarrow> bool \<Rightarrow> num \<Rightarrow> step_state \<Rightarrow> bool" where
  "state_rule ok bad v now st \<longleftrightarrow>
     (st = Waiting \<longleftrightarrow> ok = None \<and> bad = None) \<and>
     (is_error st \<longleftrightarrow> (case bad of None \<Rightarrow> False | Some b \<Rightarrow>
         (case ok of None \<Rightarrow> True | Some a \<Rightarrow> a < b \<and> v \<and> a < now - RECENT_MS))) \<and>
     (is_warning st \<longleftrightarrow> (case (ok, bad) of (Some a, Some b) \<Rightarrow> a < b \<and> (\<not> v \<or> now - RECENT_MS \<le> a) | _ \<Rightarrow> False))"

fun readable :: "string option \<Rightarrow> bool" where
  "readable None = True"
| "readable (Some t) = (date_parse t \<noteq> None)"

definition dated :: "connection_source \<Rightarrow> bool" where
  "dated s \<longleftrightarrow> readable (so_lastAcceptedAt s) \<and> readable (so_lastRejectedAt s)"

text \<open>With instants the console can read, a source is waiting exactly when nothing was accepted or refused,
  in error exactly when something was refused and either nothing was ever accepted, or the refusal verified and
  the older accepted request is more than ten minutes old; and it shows a warning exactly when a newer refusal
  is not an error.\<close>

lemma sourceState_rule:
  assumes "dated s"
  shows "state_rule (Option.bind (so_lastAcceptedAt s) date_parse) (Option.bind (so_lastRejectedAt s) date_parse)
    (verified (so_reason s)) now (sourceState s now)"
proof (cases "so_lastAcceptedAt s")
  case None
  then show ?thesis using assms
    by (cases "so_lastRejectedAt s") (auto simp: state_rule_def sourceState_def time_of_def dated_def)
next
  case (Some a)
  with assms obtain x where x: "date_parse a = Some x" by (auto simp: dated_def)
  show ?thesis
  proof (cases "so_lastRejectedAt s")
    case None
    with Some x show ?thesis by (simp add: state_rule_def sourceState_def time_of_def)
  next
    case (Some b)
    with assms obtain y where y: "date_parse b = Some y" by (auto simp: dated_def)
    from x y Some \<open>so_lastAcceptedAt s = Some a\<close> show ?thesis
      by (auto simp: state_rule_def sourceState_def time_of_def js_since_def)
  qed
qed

definition sample_source :: connection_source where
  "sample_source = \<lparr>so_lastAcceptedAt = Some ''2025-01-01T00:00:00Z'', so_lastRejectedAt = Some ''2025-01-01T00:05:00Z'',
     so_reason = Some PlanCap, so_usedKey = None, so_expectedKey = None\<rparr>"

theorem sourceState_rule_witness:
  "state_rule (Option.bind (so_lastAcceptedAt sample_source) date_parse)
     (Option.bind (so_lastRejectedAt sample_source) date_parse) True (1735691400000)
     (sourceState sample_source 1735691400000) \<and> is_error (sourceState sample_source 1735691400000)"
proof -
  have d: "dated sample_source" by code_simp
  have v: "verified (so_reason sample_source) = True" by code_simp
  have "is_error (sourceState sample_source 1735691400000)" by code_simp
  with sourceState_rule [OF d, of 1735691400000] show ?thesis unfolding v by blast
qed

text \<open>a refusal that did not verify, which anyone who knows the public address can cause, never puts a source
  that was ever accepted in error, at any time.\<close>

theorem unverified_never_error:
  assumes "so_lastAcceptedAt s \<noteq> None" "\<not> verified (so_reason s)"
  shows "is_connected (sourceState s now) \<and> \<not> is_error (sourceState s now)"
  using assms by (auto simp: sourceState_def time_of_def split: option.splits)

theorem unverified_never_error_witness:
  "is_connected (sourceState (sample_source\<lparr>so_reason := Some KeyMismatch\<rparr>) 1735691400000)"
  using unverified_never_error [of "sample_source\<lparr>so_reason := Some KeyMismatch\<rparr>" 1735691400000]
  by (simp add: sample_source_def verified_def VERIFIED_def)

lemma settled_state:
  assumes "\<not> is_error (sourceState s now)" "\<not> is_warning (sourceState s now)"
  shows "sourceState s later = sourceState s now"
proof (cases "time_of (so_lastAcceptedAt s)")
  case None
  with assms show ?thesis
    by (cases "time_of (so_lastRejectedAt s)") (simp_all add: sourceState_def del: time_of_None)
next
  case (Some a)
  then show ?thesis
  proof (cases "time_of (so_lastRejectedAt s)")
    case (Some b)
    with assms \<open>time_of (so_lastAcceptedAt s) = Some a\<close> show ?thesis
      by (cases "js_le b a") (simp_all add: sourceState_def split: if_splits)
  qed (simp add: sourceState_def)
qed

text \<open>C15: polling stops only once the first call is stored and no source is in error or shows a warning; and then
  no later reading of the same answer would start it again, since no source's state depends on the clock.\<close>

theorem polling_stops_for_good:
  assumes "\<not> keepPolling (Some p) now"
  shows "pc_firstCall p \<noteq> None \<and> \<not> anyError p now \<and> \<not> keepPolling (Some p) later \<and>
    map (\<lambda>s. sourceState s later) (sources p) = map (\<lambda>s. sourceState s now) (sources p)"
proof -
  from assms have n: "pc_firstCall p \<noteq> None" "\<not> anyError p now" "\<not> anyWarning p now"
    by (simp_all add: keepPolling_def)
  then have same: "s \<in> set (sources p) \<Longrightarrow> sourceState s later = sourceState s now" for s
    by (intro settled_state) (auto simp: anyError_def anyWarning_def list_ex_iff)
  then have "\<not> anyError p later" "\<not> anyWarning p later"
    using n by (auto simp: anyError_def anyWarning_def list_ex_iff)
  with n same show ?thesis by (simp add: keepPolling_def)
qed

definition sample_connection :: project_connection where
  "sample_connection = \<lparr>pc_livekit = \<lparr>lk_url = ''wss://a.livekit.cloud'', lk_apiKey = ''APIx''\<rparr>,
     pc_urls = \<lparr>cu_observability = None, cu_webhook = None\<rparr>,
     pc_webhook = sample_source\<lparr>so_lastAcceptedAt := None, so_lastRejectedAt := None, so_reason := None\<rparr>,
     pc_agent = sample_source\<lparr>so_lastRejectedAt := None, so_reason := None\<rparr>,
     pc_sdk = sample_source\<lparr>so_lastAcceptedAt := None, so_lastRejectedAt := None, so_reason := None\<rparr>,
     pc_firstCall = Some \<lparr>fc_id = ''1'', fc_startedAt = None\<rparr>\<rparr>"

theorem polling_stops_for_good_witness:
  "\<not> keepPolling (Some sample_connection) 1735691400000 \<and> \<not> keepPolling (Some sample_connection) 1999999999999"
proof -
  have "\<not> keepPolling (Some sample_connection) 1735691400000" by code_simp
  with polling_stops_for_good [OF this, of 1999999999999] show ?thesis by blast
qed

end
