(* ===== verification/Api.thy ===== *)
theory Api
  imports JsUrl JsJson CallSummary Connection Scope
begin

text \<open>
  Reads of the API (\<open>lib/api.ts\<close>, over the generated client's \<open>request\<close> in
  \<open>lib/api-types/client/client.gen.ts\<close> with its two interceptors): what every answer becomes, when a read is
  retried, how pages are asked for, the search for the call of a room, and when reads are repeated. Every
  failure is an \<open>ApiError\<close>: status 0 when no API answered.
\<close>

section \<open>Answers\<close>

record response =
  re_status :: nat
  re_statusText :: string
  re_header :: "string \<Rightarrow> string option"
  re_body :: string

definition re_ok :: "response \<Rightarrow> bool" where
  "re_ok r \<longleftrightarrow> 200 \<le> re_status r \<and> re_status r < 300"

text \<open>What \<open>fetch\<close> did: answered, or rejected with an \<open>Error\<close>'s message (\<open>None\<close>: not an \<open>Error\<close>).\<close>

datatype fetched = Answered response | Rejected "string option"

record api_error =
  ae_status :: nat
  ae_code :: string
  ae_message :: string

text \<open>What a \<open>try\<close> block may catch on the way: an \<open>ApiError\<close>, an \<open>Error\<close> with its message, or a body read as
  JSON or as text.\<close>

datatype thrown = ThrownApi api_error | ThrownError string | ThrownJson json | ThrownText string | ThrownOther

datatype answer_data = JsonAnswer json | TextAnswer string | RawAnswer

definition noApi :: "string \<Rightarrow> api_error" where
  "noApi path = \<lparr>ae_status = 0, ae_code = ''no_api'', ae_message = ''No VoiceGateway API answered at '' @ path @ ''.''\<rparr>"

definition accessDenied :: "api_error option \<Rightarrow> bool" where
  "accessDenied e = (case e of Some a \<Rightarrow> ae_status a \<in> {401, 403, 404} | None \<Rightarrow> False)"

text \<open>The response interceptor: \<open>None\<close> lets the response through.\<close>

definition check_type :: "string \<Rightarrow> response \<Rightarrow> api_error option" where
  "check_type path r =
     (if re_status r \<noteq> 204 \<and> \<not> (case re_header r ''Content-Type'' of Some t \<Rightarrow> has_sub t ''json'' | None \<Rightarrow> False)
      then Some (noApi path) else None)"

datatype parse_as = AsJson | AsText | AsBlob | AsFormData | AsStream

definition getParseAs :: "string option \<Rightarrow> parse_as option" where
  "getParseAs contentType =
     (case contentType of
        None \<Rightarrow> Some AsStream
      | Some [] \<Rightarrow> Some AsStream
      | Some t \<Rightarrow>
          (let clean = trim (takeWhile (\<lambda>c. c \<noteq> CHR '';'') t)
           in if clean = [] then None
              else if starts_with clean ''application/json'' \<or> ends_with clean ''+json'' then Some AsJson
              else if clean = ''multipart/form-data'' then Some AsFormData
              else if list_ex (starts_with clean) [''application/'', ''audio/'', ''image/'', ''video/''] then Some AsBlob
              else if starts_with clean ''text/'' then Some AsText
              else None))"

text \<open>The data of an accepted answer, or what reading it throws.\<close>

definition read_ok :: "response \<Rightarrow> thrown + answer_data" where
  "read_ok r =
     (let pa = (case getParseAs (re_header r ''Content-Type'') of Some p \<Rightarrow> p | None \<Rightarrow> AsJson)
      in if re_status r = 204 \<or> re_header r ''Content-Length'' = Some ''0''
         then Inr (case pa of AsJson \<Rightarrow> JsonAnswer (JObj []) | AsText \<Rightarrow> TextAnswer (re_body r) | _ \<Rightarrow> RawAnswer)
         else (case pa of
                 AsJson \<Rightarrow>
                   if re_body r = [] then Inr (JsonAnswer (JObj []))
                   else (case json_parse (re_body r) of
                           Some v \<Rightarrow> Inr (JsonAnswer v)
                         | None \<Rightarrow> Inl (ThrownError ''Unexpected token in JSON''))
               | AsText \<Rightarrow> Inr (TextAnswer (re_body r))
               | _ \<Rightarrow> Inr RawAnswer))"

definition thrown_body :: "string \<Rightarrow> thrown" where
  "thrown_body t = (case json_parse t of Some v \<Rightarrow> if v = JNull then ThrownText t else ThrownJson v | None \<Rightarrow> ThrownText t)"

text \<open>\<open>typeof body?.code === 'string'\<close> on whatever was thrown.\<close>

definition text_prop :: "thrown \<Rightarrow> string \<Rightarrow> string option" where
  "text_prop e k =
     (case e of
        ThrownJson v \<Rightarrow> (case prop_of v k of Some (Some (JStr t)) \<Rightarrow> Some t | _ \<Rightarrow> None)
      | ThrownError m \<Rightarrow> if k = ''message'' then Some m else None
      | _ \<Rightarrow> None)"

text \<open>The error interceptor.\<close>

definition to_api_error :: "string \<Rightarrow> response option \<Rightarrow> thrown \<Rightarrow> api_error" where
  "to_api_error path resp e =
     (case e of
        ThrownApi a \<Rightarrow> a
      | _ \<Rightarrow>
          (case resp of
             None \<Rightarrow> \<lparr>ae_status = 0, ae_code = ''network'',
                       ae_message = (case e of ThrownError m \<Rightarrow> m | _ \<Rightarrow> ''No answer from the API'')\<rparr>
           | Some r \<Rightarrow>
               (case (if re_ok r then None else text_prop e ''code'') of
                  None \<Rightarrow> noApi path
                | Some c \<Rightarrow> \<lparr>ae_status = re_status r, ae_code = c,
                              ae_message = (case text_prop e ''message'' of Some m \<Rightarrow> m | None \<Rightarrow> re_statusText r)\<rparr>)))"

definition api_request :: "string \<Rightarrow> fetched \<Rightarrow> api_error + answer_data" where
  "api_request path f =
     (case f of
        Rejected m \<Rightarrow> Inl (to_api_error path None (case m of Some t \<Rightarrow> ThrownError t | None \<Rightarrow> ThrownOther))
      | Answered r \<Rightarrow>
          (case check_type path r of
             Some e \<Rightarrow> Inl (to_api_error path (Some r) (ThrownApi e))
           | None \<Rightarrow>
               if re_ok r
               then (case read_ok r of
                       Inl t \<Rightarrow> Inl (to_api_error path (Some r) t)
                     | Inr d \<Rightarrow> Inr d)
               else Inl (to_api_error path (Some r) (thrown_body (re_body r)))))"

text \<open>\<open>shouldRetry(failures, error)\<close>: \<open>None\<close> is an error that is not an \<open>ApiError\<close>.\<close>

definition shouldRetry :: "nat \<Rightarrow> api_error option \<Rightarrow> bool" where
  "shouldRetry failures e \<longleftrightarrow>
     \<not> (case e of Some a \<Rightarrow> ae_status a = 0 \<or> (400 \<le> ae_status a \<and> ae_status a < 500) | None \<Rightarrow> False) \<and> failures < 1"

section \<open>Pages\<close>

type_synonym next_page = "string \<times> string"

text \<open>The query string of one page: \<open>(cursor, snapshot)\<close> of the page before it, if any.\<close>

definition page_params :: "params \<Rightarrow> next_page option \<Rightarrow> nat \<Rightarrow> params" where
  "page_params filters nxt limit =
     (let q = up_set ''limit'' (nat_str limit) filters
      in (case nxt of
            None \<Rightarrow> q
          | Some (cursor, snapshot) \<Rightarrow> up_set ''snapshot'' snapshot (up_set ''cursor'' cursor q)))"

definition first_page_params :: "params \<Rightarrow> params" where
  "first_page_params filters = up_set ''limit'' ''1'' filters"

definition recent_params :: "params" where
  "recent_params = page_params [(''sort'', ''startedAt''), (''order'', ''desc'')] None 100"

definition latest_matching_params :: "params \<Rightarrow> params" where
  "latest_matching_params filters = first_page_params (up_set ''order'' ''desc'' (up_set ''sort'' ''startedAt'' filters))"

definition getNextPageParam :: "call_page \<Rightarrow> next_page option" where
  "getNextPageParam p =
     (case pg_nextCursor (cp_page p) of
        Some (c # cs) \<Rightarrow> Some (c # cs, pg_snapshot (cp_page p))
      | _ \<Rightarrow> None)"

definition MAX_ROOM_PAGES :: nat where
  "MAX_ROOM_PAGES = 20"

text \<open>The search through the pages of a room's calls, over what the API answers to a query string: \<open>n\<close> more
  pages may be read. The result counts the reads made.\<close>

fun room_search :: "(params \<Rightarrow> api_error + call_page) \<Rightarrow> params \<Rightarrow> string \<Rightarrow> string \<Rightarrow> nat \<Rightarrow> next_page option \<Rightarrow>
    (api_error + string option)" where
  "room_search api filters name sid 0 nxt =
     Inl \<lparr>ae_status = 0, ae_code = ''search_cut_short'',
       ae_message = ''More than '' @ nat_str (MAX_ROOM_PAGES * 100) @ '' calls use room '' @ name @
         ''; the search stopped before finding this room'' @ apostrophe @ ''s call.''\<rparr>"
| "room_search api filters name sid (Suc n) nxt =
     (case api (page_params filters nxt 100) of
        Inl e \<Rightarrow> Inl e
      | Inr p \<Rightarrow>
          (case find (\<lambda>c. cs_roomSid c = Some sid) (cp_items p) of
             Some c \<Rightarrow> Inr (Some (cs_id c))
           | None \<Rightarrow>
               (case getNextPageParam p of
                  None \<Rightarrow> Inr None
                | Some nx \<Rightarrow> room_search api filters name sid n (Some nx))))"

definition callInRoom :: "(params \<Rightarrow> api_error + call_page) \<Rightarrow> string \<Rightarrow> string \<Rightarrow> api_error + string option" where
  "callInRoom api name sid =
     room_search api [(''room'', name), (''sort'', ''startedAt''), (''order'', ''desc'')] name sid MAX_ROOM_PAGES None"

section \<open>Repeated reads\<close>

definition CONNECTION_POLL_MS :: nat where
  "CONNECTION_POLL_MS = 5000"

text \<open>\<open>false\<close> is \<open>None\<close>.\<close>

definition connection_refetch :: "project_connection option \<Rightarrow> num \<Rightarrow> nat option" where
  "connection_refetch c updatedAt = (if keepPolling c updatedAt then Some CONNECTION_POLL_MS else None)"

datatype run_state = Requested | Running | Ended

definition capacity_refetch :: "run_state option option \<Rightarrow> nat option" where
  "capacity_refetch d = (case d of Some (Some st) \<Rightarrow> if st \<noteq> Ended then Some 2000 else None | _ \<Rightarrow> None)"

datatype delivery_state = Pending | Retrying | Delivered | FailedDelivery | Cancelled

text \<open>The state of each channel's last delivery, if it has one.\<close>

definition alert_refetch :: "delivery_state option list option \<Rightarrow> nat option" where
  "alert_refetch channels =
     (case channels of
        Some ds \<Rightarrow> if list_ex (\<lambda>d. d = Some Pending \<or> d = Some Retrying) ds then Some 3000 else None
      | None \<Rightarrow> None)"

section \<open>The query cache\<close>

text \<open>\<open>lib/query-client.ts\<close>: a denied read of one of these keys drops what was read before.\<close>

definition DENIED_KEYS :: "string list" where
  "DENIED_KEYS = [''media-server'', ''agents'', ''workers'', ''resources'', ''settings'', ''calls'', ''call'', ''call-metadata'', ''call-tags'']"

record 'd query_state =
  qs_data :: "'d option"
  qs_updatedAt :: num
  qs_error :: "api_error option"

definition on_query_error :: "string \<Rightarrow> api_error option \<Rightarrow> 'd query_state \<Rightarrow> 'd query_state" where
  "on_query_error key0 e q =
     (if accessDenied e \<and> key0 \<in> set DENIED_KEYS then q\<lparr>qs_data := None, qs_updatedAt := 0\<rparr> else q)"

text \<open>\<open>lib/hosted.ts\<close>\<close>

datatype install = Hosted | SelfHosted | UnknownInstall

definition installOf :: "bool \<Rightarrow> api_error option \<Rightarrow> install" where
  "installOf has_data e =
     (case e of
        Some a \<Rightarrow> if ae_status a = 404 then SelfHosted else if has_data then Hosted else UnknownInstall
      | None \<Rightarrow> if has_data then Hosted else UnknownInstall)"

section \<open>Properties\<close>

text \<open>An answer that refuses in the contract's form, and what an outcome may be.\<close>

definition refused_with :: "fetched \<Rightarrow> api_error \<Rightarrow> bool" where
  "refused_with f e \<longleftrightarrow>
     (case f of
        Rejected _ \<Rightarrow> False
      | Answered r \<Rightarrow>
          \<not> re_ok r \<and> check_type [] r = None \<and> re_status r = ae_status e \<and>
          (case json_parse (re_body r) of
             Some v \<Rightarrow> prop_of v ''code'' = Some (Some (JStr (ae_code e)))
           | None \<Rightarrow> False))"

definition sound_outcome :: "fetched \<Rightarrow> api_error + answer_data \<Rightarrow> bool" where
  "sound_outcome f res \<longleftrightarrow>
     (case res of
        Inl e \<Rightarrow> refused_with f e \<or> (ae_status e = 0 \<and> ae_code e \<in> {''network'', ''no_api''})
      | Inr d \<Rightarrow>
          (case f of
             Rejected _ \<Rightarrow> False
           | Answered r \<Rightarrow> re_ok r \<and>
               (re_status r = 204 \<or> (\<exists>t. re_header r ''Content-Type'' = Some t \<and> has_sub t ''json''))))"

lemma check_type_path: "check_type path r = None \<longleftrightarrow> check_type [] r = None"
  by (simp add: check_type_def)

lemma text_prop_code: "text_prop (thrown_body t) ''code'' = Some c \<Longrightarrow>
    \<exists>v. json_parse t = Some v \<and> prop_of v ''code'' = Some (Some (JStr c))"
  by (auto simp: text_prop_def thrown_body_def split: option.splits if_splits json.splits)

text \<open>C19: every request ends with data or with an \<open>ApiError\<close>. The error has a status other than 0 exactly when an
  API that speaks JSON refused with the contract's code, and then it carries that answer's status and code; data
  comes only from an answer that was accepted and, unless it is a 204, is JSON by its type.\<close>

theorem request_outcome: "sound_outcome f (api_request path f)"
proof (cases f)
  case (Rejected m)
  then show ?thesis
    by (cases m) (simp_all add: sound_outcome_def api_request_def to_api_error_def)
next
  case (Answered r)
  show ?thesis
  proof (cases "check_type path r")
    case (Some e)
    then have "e = noApi path" by (simp add: check_type_def split: if_splits)
    with Some Answered show ?thesis by (simp add: sound_outcome_def api_request_def to_api_error_def noApi_def)
  next
    case None
    note type_ok = this
    show ?thesis
    proof (cases "re_ok r")
      case True
      have h: "re_status r = 204 \<or> (\<exists>t. re_header r ''Content-Type'' = Some t \<and> has_sub t ''json'')"
        using None by (auto simp: check_type_def split: if_splits option.splits)
      show ?thesis
      proof (cases "read_ok r")
        case (Inl t)
        then have "\<exists>m. t = ThrownError m"
          by (auto simp: read_ok_def Let_def split: if_splits option.splits parse_as.splits)
        with True Answered None Inl show ?thesis
          by (auto simp: sound_outcome_def api_request_def to_api_error_def noApi_def)
      next
        case (Inr d)
        with True Answered None h show ?thesis by (simp add: sound_outcome_def api_request_def)
      qed
    next
      case False
      let ?e = "thrown_body (re_body r)"
      have t: "api_request path f = Inl (to_api_error path (Some r) ?e)"
        using Answered None False by (simp add: api_request_def)
      have x: "to_api_error path (Some r) ?e = (case text_prop ?e ''code'' of
            None \<Rightarrow> noApi path
          | Some c \<Rightarrow> \<lparr>ae_status = re_status r, ae_code = c,
                        ae_message = (case text_prop ?e ''message'' of Some m \<Rightarrow> m | None \<Rightarrow> re_statusText r)\<rparr>)"
        using False by (simp add: to_api_error_def thrown_body_def split: option.split)
      show ?thesis
      proof (cases "text_prop ?e ''code''")
        case None
        then show ?thesis unfolding t x by (simp add: sound_outcome_def noApi_def)
      next
        case (Some c)
        from text_prop_code [OF this] obtain v where "json_parse (re_body r) = Some v" "prop_of v ''code'' = Some (Some (JStr c))"
          by blast
        with Some Answered False type_ok check_type_path [of path r] show ?thesis
          unfolding t x by (simp add: sound_outcome_def refused_with_def)
      qed
    qed
  qed
qed

section \<open>The search of a room's calls\<close>

text \<open>Pages read one after the other, each with the cursor of the one before.\<close>

fun linked_pages :: "(params \<Rightarrow> api_error + call_page) \<Rightarrow> params \<Rightarrow> next_page option \<Rightarrow> call_page list \<Rightarrow> bool" where
  "linked_pages api filters nxt [] = True"
| "linked_pages api filters nxt (p # ps) =
     (api (page_params filters nxt 100) = Inr p \<and>
      (ps = [] \<or> getNextPageParam p \<noteq> None \<and> linked_pages api filters (getNextPageParam p) ps))"

definition none_of_room :: "string \<Rightarrow> call_page list \<Rightarrow> bool" where
  "none_of_room sid ps \<longleftrightarrow> list_all (\<lambda>p. list_all (\<lambda>c. cs_roomSid c \<noteq> Some sid) (cp_items p)) ps"

definition search_result :: "(params \<Rightarrow> api_error + call_page) \<Rightarrow> params \<Rightarrow> string \<Rightarrow> nat \<Rightarrow> next_page option \<Rightarrow>
    api_error + string option \<Rightarrow> bool" where
  "search_result api filters sid n nxt res \<longleftrightarrow>
     (case res of
        Inl e \<Rightarrow> (\<exists>q. api q = Inl e) \<or>
          (\<exists>ps. length ps = n \<and> linked_pages api filters nxt ps \<and> none_of_room sid ps \<and>
            (ps = [] \<or> getNextPageParam (last ps) \<noteq> None))
      | Inr (Some i) \<Rightarrow>
          (\<exists>ps c. length ps \<le> n \<and> linked_pages api filters nxt ps \<and> c \<in> set (concat (map cp_items ps)) \<and>
            cs_roomSid c = Some sid \<and> cs_id c = i)
      | Inr None \<Rightarrow>
          (\<exists>ps. ps \<noteq> [] \<and> length ps \<le> n \<and> linked_pages api filters nxt ps \<and> none_of_room sid ps \<and>
            getNextPageParam (last ps) = None))"

text \<open>A page without the call, and one that has a next, comes before the pages of the rest of the search.\<close>

lemma search_result_step:
  assumes read: "api (page_params filters nxt 100) = Inr p" and nx: "getNextPageParam p = Some nx"
    and none: "list_all (\<lambda>c. cs_roomSid c \<noteq> Some sid) (cp_items p)"
    and rest: "search_result api filters sid n (Some nx) res"
  shows "search_result api filters sid (Suc n) nxt res"
proof -
  have more: "linked_pages api filters (Some nx) ps \<Longrightarrow> linked_pages api filters nxt (p # ps)" for ps
    using read nx by simp
  have no: "none_of_room sid ps \<Longrightarrow> none_of_room sid (p # ps)" for ps using none by (simp add: none_of_room_def)
  show ?thesis
  proof (cases res)
    case (Inl e)
    with rest consider "\<exists>q. api q = Inl e" | ps where "length ps = n" "linked_pages api filters (Some nx) ps"
      "none_of_room sid ps" "ps = [] \<or> getNextPageParam (last ps) \<noteq> None" by (auto simp: search_result_def)
    then show ?thesis
    proof cases
      case 2
      then have "length (p # ps) = Suc n \<and> linked_pages api filters nxt (p # ps) \<and> none_of_room sid (p # ps) \<and>
          (p # ps = [] \<or> getNextPageParam (last (p # ps)) \<noteq> None)" using more no nx by auto
      then show ?thesis unfolding search_result_def Inl sum.case by blast
    qed (simp add: search_result_def Inl)
  next
    case (Inr found)
    show ?thesis
    proof (cases found)
      case None
      with rest Inr obtain ps where "ps \<noteq> []" "length ps \<le> n" "linked_pages api filters (Some nx) ps" "none_of_room sid ps"
        "getNextPageParam (last ps) = None" by (auto simp: search_result_def)
      then have "p # ps \<noteq> [] \<and> length (p # ps) \<le> Suc n \<and> linked_pages api filters nxt (p # ps) \<and> none_of_room sid (p # ps) \<and>
          getNextPageParam (last (p # ps)) = None" using more no by auto
      then show ?thesis unfolding search_result_def Inr None sum.case option.case by blast
    next
      case (Some i)
      with rest Inr obtain ps c where "length ps \<le> n" "linked_pages api filters (Some nx) ps"
        "c \<in> set (concat (map cp_items ps))" "cs_roomSid c = Some sid" "cs_id c = i" by (auto simp: search_result_def)
      then have "length (p # ps) \<le> Suc n \<and> linked_pages api filters nxt (p # ps) \<and>
          c \<in> set (concat (map cp_items (p # ps))) \<and> cs_roomSid c = Some sid \<and> cs_id c = i" using more by auto
      then show ?thesis unfolding search_result_def Inr Some sum.case option.case by blast
    qed
  qed
qed

lemma room_search_result: "search_result api filters sid n nxt (room_search api filters name sid n nxt)"
proof (induction n arbitrary: nxt)
  case 0
  have "length ([] :: call_page list) = 0 \<and> linked_pages api filters nxt [] \<and> none_of_room sid []"
    by (simp add: none_of_room_def)
  then show ?case unfolding search_result_def by auto
next
  case (Suc n)
  show ?case
  proof (cases "api (page_params filters nxt 100)")
    case (Inl e)
    then show ?thesis by (auto simp: search_result_def)
  next
    case (Inr p)
    note read = this
    show ?thesis
    proof (cases "find (\<lambda>c. cs_roomSid c = Some sid) (cp_items p)")
      case (Some c)
      then have "c \<in> set (cp_items p)" "cs_roomSid c = Some sid" by (auto simp: find_Some_iff)
      then show ?thesis using Some read unfolding search_result_def by (auto intro!: exI [of _ "[p]"])
    next
      case None
      then have none: "list_all (\<lambda>c. cs_roomSid c \<noteq> Some sid) (cp_items p)" by (auto simp: find_None_iff list_all_iff)
      show ?thesis
      proof (cases "getNextPageParam p")
        case None2: None
        then show ?thesis using None none read unfolding search_result_def
          by (auto simp: none_of_room_def intro!: exI [of _ "[p]"])
      next
        case (Some nx)
        from search_result_step [OF read Some none Suc.IH [of "Some nx"]] show ?thesis using None Some read by simp
      qed
    qed
  qed
qed

text \<open>C20: the search for a room's call ends after at most 20 reads. It names a call only when that call ran in the
  room; it says there is none only after reading every page to the last without finding one; a search that stops
  early, or a read that fails, is an error and never "no call".\<close>

theorem room_call_search:
  "search_result api [(''room'', name), (''sort'', ''startedAt''), (''order'', ''desc'')] sid 20 None (callInRoom api name sid)"
  using room_search_result [of api _ sid MAX_ROOM_PAGES None name] by (simp add: callInRoom_def MAX_ROOM_PAGES_def)

text \<open>A first page never carries a cursor of its own, and a later one carries the last page's cursor and snapshot and
  the same filters.\<close>

lemma page_params_get:
  "up_get (page_params filters nxt limit) k =
     (if k = ''limit'' then Some (nat_str limit)
      else (case nxt of
              Some (c, s) \<Rightarrow> if k = ''cursor'' then Some c else if k = ''snapshot'' then Some s else up_get filters k
            | None \<Rightarrow> up_get filters k))"
  by (auto simp: page_params_def Let_def up_store.get_put split: option.split)

end
