(* ===== verification/LiveUpdates.thy ===== *)
theory LiveUpdates
  imports Api
begin

text \<open>
  The live connection (\<open>lib/live-updates.ts\<close>, \<open>components/live-updates.tsx\<close>): one watcher per page opens the
  event stream again and again until it is aborted, asks the cache to read again at most once per 200 ms, and clears the
  project's reads when the stream is refused. Each \<open>await\<close> is a phase; a step is what ends it, or an event, a timer or
  the abort arriving meanwhile.
\<close>

section \<open>State\<close>

datatype live_connection = Connecting | Connected | Disconnected | Paused

datatype live_phase = Opening | Cancelling api_error | Streaming | Sleeping | Stopped

type_synonym cache_key = "string \<times> (string \<times> string) option"

text \<open>The watcher's variables and what it did: the states it said, how often it asked for reads, how many streams it
  opened. \<open>lv_cache\<close>: the cached reads by key, a key's second part being its project.\<close>

record 'd live =
  lv_phase :: live_phase
  lv_aborted :: bool
  lv_timer :: bool
  lv_renew :: bool
  lv_said :: "live_connection list"
  lv_invalidated :: nat
  lv_opened :: nat
  lv_cache :: "(cache_key \<times> 'd query_state) list"

definition matches_scope :: "string \<times> string \<Rightarrow> cache_key \<Rightarrow> bool" where
  "matches_scope sc key \<longleftrightarrow> snd key = Some sc"

definition say :: "live_connection \<Rightarrow> 'd live \<Rightarrow> 'd live" where
  "say v s = s\<lparr>lv_said := lv_said s @ [v]\<rparr>"

definition stop :: "'d live \<Rightarrow> 'd live" where
  "stop s = s\<lparr>lv_phase := Stopped, lv_timer := False\<rparr>"

text \<open>The loop's test: leave, which clears the timer, or open the next stream.\<close>

definition next_round :: "'d live \<Rightarrow> 'd live" where
  "next_round s = (if lv_aborted s then stop s
     else s\<lparr>lv_phase := Opening, lv_renew := False, lv_opened := lv_opened s + 1\<rparr>)"

definition watch :: "bool \<Rightarrow> (cache_key \<times> 'd query_state) list \<Rightarrow> 'd live" where
  "watch aborted cache = next_round (say Connecting
     \<lparr>lv_phase = Sleeping, lv_aborted = aborted, lv_timer = False, lv_renew = False, lv_said = [], lv_invalidated = 0,
      lv_opened = 0, lv_cache = cache\<rparr>)"

text \<open>The stream is over: leave, go round at once if it asked to be renewed, else say so and sleep.\<close>

definition stream_over :: "'d live \<Rightarrow> 'd live" where
  "stream_over s =
     (if lv_aborted s then stop s
      else if lv_renew s then next_round s
      else (say Disconnected s)\<lparr>lv_phase := Sleeping\<rparr>)"

definition sse_error :: "'d live \<Rightarrow> 'd live" where
  "sse_error s = stream_over (if lv_aborted s then s else say Disconnected s)"

definition live_error :: "nat \<Rightarrow> api_error" where
  "live_error status = \<lparr>ae_status = status, ae_code = ''live_unavailable'', ae_message = ''Live updates unavailable''\<rparr>"

text \<open>\<open>query.setState({ data: undefined, dataUpdatedAt: 0, error, status: 'error' })\<close> on the project's queries.\<close>

definition clear_reads :: "string \<times> string \<Rightarrow> api_error \<Rightarrow> (cache_key \<times> 'd query_state) list \<Rightarrow> (cache_key \<times> 'd query_state) list" where
  "clear_reads sc e = map (\<lambda>(k, q). (k, if matches_scope sc k then q\<lparr>qs_data := None, qs_updatedAt := 0, qs_error := Some e\<rparr> else q))"

section \<open>Steps\<close>

text \<open>What answers a request: nothing, a status with or without an event stream's type.\<close>

datatype live_answer = NoAnswer | AnsweredWith nat bool

definition on_answer :: "live_answer \<Rightarrow> 'd live \<Rightarrow> 'd live" where
  "on_answer a s =
     (case a of
        NoAnswer \<Rightarrow> sse_error s
      | AnsweredWith status event_stream \<Rightarrow>
          if lv_aborted s then sse_error s
          else if \<not> (200 \<le> status \<and> status < 300) then
            (if accessDenied (Some (live_error status)) then s\<lparr>lv_phase := Cancelling (live_error status)\<rparr> else sse_error s)
          else if \<not> event_stream then sse_error s
          else s\<lparr>lv_phase := Streaming\<rparr>)"

definition on_cancelled :: "string \<times> string \<Rightarrow> api_error \<Rightarrow> 'd live \<Rightarrow> 'd live" where
  "on_cancelled sc e s = sse_error (s\<lparr>lv_cache := clear_reads sc e (lv_cache s)\<rparr>)"

definition on_event :: "string option \<Rightarrow> 'd live \<Rightarrow> 'd live" where
  "on_event ev s =
     (if lv_aborted s then s
      else if ev = Some ''refresh'' then (say Connected s)\<lparr>lv_timer := True\<rparr>
      else if ev = Some ''renew'' then s\<lparr>lv_renew := True\<rparr> else s)"

definition on_timer :: "'d live \<Rightarrow> 'd live" where
  "on_timer s = (if lv_aborted s then s\<lparr>lv_timer := False\<rparr>
     else s\<lparr>lv_timer := False, lv_invalidated := lv_invalidated s + 1\<rparr>)"

datatype live_action =
    LAnswer live_answer
  | LCancelled
  | LEvent "string option"
  | LStreamEnds
  | LStreamFails
  | LTimer
  | LWake
  | LAbort

inductive live_step :: "string \<times> string \<Rightarrow> 'd live \<Rightarrow> live_action \<Rightarrow> 'd live \<Rightarrow> bool" for sc where
  Answer: "lv_phase s = Opening \<Longrightarrow> live_step sc s (LAnswer a) (on_answer a s)"
| Cancelled: "lv_phase s = Cancelling e \<Longrightarrow> live_step sc s LCancelled (on_cancelled sc e s)"
| Event: "lv_phase s = Streaming \<Longrightarrow> live_step sc s (LEvent ev) (on_event ev s)"
| StreamEnds: "lv_phase s = Streaming \<Longrightarrow> live_step sc s LStreamEnds (stream_over s)"
| StreamFails: "lv_phase s = Streaming \<Longrightarrow> live_step sc s LStreamFails (sse_error s)"
| Timer: "lv_timer s \<Longrightarrow> live_step sc s LTimer (on_timer s)"
| Wake: "lv_phase s = Sleeping \<Longrightarrow> live_step sc s LWake (next_round s)"
| Abort: "live_step sc s LAbort (s\<lparr>lv_aborted := True\<rparr>)"

inductive_cases live_stepE: "live_step sc s a s'"

inductive live_run :: "string \<times> string \<Rightarrow> 'd live \<Rightarrow> live_action list \<Rightarrow> 'd live \<Rightarrow> bool" for sc where
  Stay: "live_run sc s [] s"
| Then: "live_run sc s as s' \<Longrightarrow> live_step sc s' a s'' \<Longrightarrow> live_run sc s (as @ [a]) s''"

section \<open>Facts\<close>

lemmas live_defs = on_answer_def on_cancelled_def on_event_def on_timer_def sse_error_def stream_over_def next_round_def
  stop_def say_def

definition quiet :: "'d live \<Rightarrow> live_connection list \<times> nat \<times> nat" where
  "quiet s = (lv_said s, lv_invalidated s, lv_opened s)"

lemma live_step_aborted:
  "live_step sc s a s' \<Longrightarrow> lv_aborted s \<Longrightarrow> lv_aborted s' \<and> quiet s' = quiet s"
  by (erule live_stepE) (auto simp: live_defs quiet_def split: live_answer.splits)

lemma live_run_aborted: "live_run sc s as s' \<Longrightarrow> lv_aborted s \<Longrightarrow> lv_aborted s' \<and> quiet s' = quiet s"
  by (induction rule: live_run.induct) (auto dest: live_step_aborted)

text \<open>Only a timer that is armed asks for reads, and a stopped watcher has none.\<close>

definition live_ok :: "'d live \<Rightarrow> bool" where
  "live_ok s \<longleftrightarrow> (lv_phase s = Stopped \<longrightarrow> lv_aborted s \<and> \<not> lv_timer s) \<and> (\<not> lv_aborted s \<longrightarrow> lv_opened s > 0)"

lemma live_step_ok: "live_step sc s a s' \<Longrightarrow> live_ok s \<Longrightarrow> live_ok s'"
  by (erule live_stepE) (auto simp: live_ok_def live_defs split: live_answer.splits)

lemma live_run_ok: "live_run sc s as s' \<Longrightarrow> live_ok s \<Longrightarrow> live_ok s'"
  by (induction rule: live_run.induct) (auto dest: live_step_ok)

lemma watch_ok: "live_ok (watch aborted cache)"
  by (simp add: live_ok_def watch_def live_defs)

definition awaited :: "live_phase \<Rightarrow> live_action \<Rightarrow> bool" where
  "awaited p a \<longleftrightarrow>
     (case p of
        Opening \<Rightarrow> (\<exists>r. a = LAnswer r)
      | Cancelling _ \<Rightarrow> a = LCancelled
      | Streaming \<Rightarrow> a = LStreamEnds \<or> a = LStreamFails
      | Sleeping \<Rightarrow> a = LWake
      | Stopped \<Rightarrow> False)"

text \<open>C27: once aborted the watcher says nothing, asks for no reads and opens no stream, and the first \<open>await\<close> to end stops
  it, with no timer left; until it is aborted it never stops.\<close>

theorem live_stops:
  assumes "live_run sc (watch False cache) as s"
  shows "(lv_phase s = Stopped \<longrightarrow> lv_aborted s \<and> \<not> lv_timer s) \<and>
    (\<forall>bs s'. live_run sc (s\<lparr>lv_aborted := True\<rparr>) bs s' \<longrightarrow> quiet s' = quiet s) \<and>
    (lv_aborted s \<and> lv_phase s \<noteq> Stopped \<longrightarrow>
       (\<exists>a s'. awaited (lv_phase s) a \<and> live_step sc s a s') \<and>
       (\<forall>a s'. awaited (lv_phase s) a \<and> live_step sc s a s' \<longrightarrow> lv_phase s' = Stopped \<and> \<not> lv_timer s'))"
proof (intro conjI impI allI)
  have ok: "live_ok s" by (rule live_run_ok [OF assms watch_ok])
  show "lv_aborted s" "\<not> lv_timer s" if "lv_phase s = Stopped" using ok that by (simp_all add: live_ok_def)
  show "quiet s' = quiet s" if "live_run sc (s\<lparr>lv_aborted := True\<rparr>) bs s'" for bs s'
    using live_run_aborted [OF that] by (simp add: quiet_def)
next
  assume "lv_aborted s \<and> lv_phase s \<noteq> Stopped"
  then show "\<exists>a s'. awaited (lv_phase s) a \<and> live_step sc s a s'"
    by (cases "lv_phase s")
      (auto simp: awaited_def intro: live_step.Answer live_step.Cancelled live_step.StreamEnds live_step.Wake)
next
  fix a s'
  assume "lv_aborted s \<and> lv_phase s \<noteq> Stopped" "awaited (lv_phase s) a \<and> live_step sc s a s'"
  then show "lv_phase s' = Stopped" "\<not> lv_timer s'"
    by (auto elim!: live_stepE simp: awaited_def live_defs split: live_answer.splits live_phase.splits)
qed

lemma clear_reads_get:
  "map fst (clear_reads sc e c) = map fst c \<and>
   (\<forall>k. map_of (clear_reads sc e c) k =
      (if matches_scope sc k then map_option (\<lambda>q. q\<lparr>qs_data := None, qs_updatedAt := 0, qs_error := Some e\<rparr>) (map_of c k)
       else map_of c k))"
  unfolding clear_reads_def by (induction c) auto



lemma live_stops_witness:
  "\<exists>s. live_run (''o'', ''p'') (watch False [] :: bool live) [LAnswer NoAnswer, LAbort] s \<and> lv_phase s = Sleeping \<and>
     (\<forall>a s'. awaited (lv_phase s) a \<and> live_step (''o'', ''p'') s a s' \<longrightarrow> lv_phase s' = Stopped)"
proof -
  let ?fresh = "watch False [] :: bool live"
  let ?asleep = "on_answer NoAnswer ?fresh"
  let ?s = "?asleep\<lparr>lv_aborted := True\<rparr>"
  have p: "lv_phase ?fresh = Opening" by (simp add: watch_def live_defs)
  have "live_run (''o'', ''p'') ?fresh ([] @ [LAnswer NoAnswer]) ?asleep"
    by (rule live_run.Then [OF live_run.Stay live_step.Answer [OF p]])
  from live_run.Then [OF this live_step.Abort]
  have r: "live_run (''o'', ''p'') ?fresh [LAnswer NoAnswer, LAbort] ?s" by simp
  define final where "final = ?s"
  have st: "lv_phase final = Sleeping" "lv_aborted final" by (simp_all add: final_def watch_def live_defs)
  have run: "live_run (''o'', ''p'') ?fresh [LAnswer NoAnswer, LAbort] final" unfolding final_def by (rule r)
  have "lv_phase s' = Stopped" if "awaited (lv_phase final) a \<and> live_step (''o'', ''p'') final a s'" for a s'
    using live_stops [OF run] st that by (metis live_phase.distinct(19))
  with run st(1) show ?thesis by blast
qed

end
