(* ===== verification/LiveKitEnv.thy ===== *)
theory LiveKitEnv
  imports JsUrl
begin

text \<open>
  Reading pasted LiveKit variables (\<open>lib/livekit-env.ts\<close>): lines, \<open>KEY=VALUE\<close> with an optional \<open>export\<close>, quotes and
  comments. Regular expressions are written out as the scans they make.
\<close>

section \<open>Lines\<close>

text \<open>\<open>text.split(/\r?\n|\r/)\<close>\<close>

definition CR :: char where
  "CR = CHR 0x0D"

definition LF :: char where
  "LF = CHR 0x0A"

fun lines_go :: "string \<Rightarrow> string \<Rightarrow> string list" where
  "lines_go acc [] = [rev acc]"
| "lines_go acc [c] = (if c = LF \<or> c = CR then [rev acc, []] else [rev (c # acc)])"
| "lines_go acc (c # d # s) =
     (if c = CR \<and> d = LF then rev acc # lines_go [] s
      else if c = LF \<or> c = CR then rev acc # lines_go [] (d # s)
      else lines_go (c # acc) (d # s))"

definition env_lines :: "string \<Rightarrow> string list" where
  "env_lines text = lines_go [] text"

text \<open>\<open>/^\s*(#|$)/\<close>\<close>

definition skipped_line :: "string \<Rightarrow> bool" where
  "skipped_line l = (case trim_start l of [] \<Rightarrow> True | c # _ \<Rightarrow> c = CHR ''#'')"

section \<open>Values\<close>

definition index_from :: "char \<Rightarrow> nat \<Rightarrow> string \<Rightarrow> nat option" where
  "index_from q n s = map_option (\<lambda>i. i + n) (search (\<lambda>c. c = q) (drop n s))"

text \<open>\<open>v.search(/\s#/)\<close>\<close>

fun comment_at :: "string \<Rightarrow> nat option" where
  "comment_at (c # d # s) = (if is_ws c \<and> d = CHR ''#'' then Some 0 else map_option Suc (comment_at (d # s)))"
| "comment_at _ = None"

definition is_quote :: "char \<Rightarrow> bool" where
  "is_quote c \<longleftrightarrow> c = CHR 0x22 \<or> c = CHR 0x27"

definition plain_value :: "string \<Rightarrow> string" where
  "plain_value v = trim (case comment_at v of Some n \<Rightarrow> take n v | None \<Rightarrow> v)"

definition env_value :: "string \<Rightarrow> string" where
  "env_value raw =
     (case trim raw of
        [] \<Rightarrow> plain_value []
      | q # rest \<Rightarrow>
          if is_quote q \<and> rest \<noteq> [] then
            (case index_from q 1 (q # rest) of
               Some e \<Rightarrow> take (e - 1) rest
             | None \<Rightarrow> plain_value (q # rest))
          else plain_value (q # rest))"

section \<open>A line\<close>

definition name_start :: "char \<Rightarrow> bool" where
  "name_start c \<longleftrightarrow> is_upper c \<or> is_lower c \<or> c = CHR ''_''"

definition name_char :: "char \<Rightarrow> bool" where
  "name_char c \<longleftrightarrow> name_start c \<or> is_digit c"

text \<open>\<open>([A-Za-z_][A-Za-z0-9_]*)\s*=\s*(.*)$\<close> from here on: a name, then an equals sign, then a text without line breaks.\<close>

definition assignment :: "string \<Rightarrow> (string \<times> string) option" where
  "assignment s =
     (let name = takeWhile name_char s in
      case trim_start (dropWhile name_char s) of
        c # rest \<Rightarrow>
          if name \<noteq> [] \<and> name_start (hd name) \<and> c = CHR ''='' \<and> line_break_free (trim_start rest)
          then Some (name, trim_start rest) else None
      | [] \<Rightarrow> None)"

text \<open>\<open>/^\s*(?:export\s+)?...$/\<close>: with \<open>export\<close> and white space taken off if the rest matches, else as it is.\<close>

definition env_line :: "string \<Rightarrow> (string \<times> string) option" where
  "env_line l =
     (let s = trim_start l in
      case (if starts_with s ''export'' \<and> drop 6 s \<noteq> [] \<and> is_ws (hd (drop 6 s)) then assignment (trim_start (drop 6 s)) else None) of
        Some m \<Rightarrow> Some m
      | None \<Rightarrow> assignment s)"

section \<open>The variables\<close>

record livekit_env =
  lk_url :: "string option"
  lk_apiKey :: "string option"
  lk_apiSecret :: "string option"

datatype env_field = FUrl | FApiKey | FApiSecret

definition env_fields :: "(string \<times> env_field) list" where
  "env_fields = [(''LIVEKIT_URL'', FUrl), (''LIVEKIT_API_KEY'', FApiKey), (''LIVEKIT_API_SECRET'', FApiSecret)]"

fun env_get :: "env_field \<Rightarrow> livekit_env \<Rightarrow> string option" where
  "env_get FUrl e = lk_url e"
| "env_get FApiKey e = lk_apiKey e"
| "env_get FApiSecret e = lk_apiSecret e"

fun env_set :: "env_field \<Rightarrow> string \<Rightarrow> livekit_env \<Rightarrow> livekit_env" where
  "env_set FUrl v e = e\<lparr>lk_url := Some v\<rparr>"
| "env_set FApiKey v e = e\<lparr>lk_apiKey := Some v\<rparr>"
| "env_set FApiSecret v e = e\<lparr>lk_apiSecret := Some v\<rparr>"

definition no_env :: livekit_env where
  "no_env = \<lparr>lk_url = None, lk_apiKey = None, lk_apiSecret = None\<rparr>"

definition read_env_line :: "string \<Rightarrow> livekit_env \<Rightarrow> livekit_env" where
  "read_env_line l e =
     (if skipped_line l then e
      else case env_line l of
        None \<Rightarrow> e
      | Some (name, raw) \<Rightarrow>
          (case map_of env_fields name of
             None \<Rightarrow> e
           | Some f \<Rightarrow> if env_value raw = [] then e else env_set f (env_value raw) e))"

definition parseLiveKitEnv :: "string \<Rightarrow> livekit_env" where
  "parseLiveKitEnv text = fold read_env_line (env_lines text) no_env"

definition namesLiveKit :: "livekit_env \<Rightarrow> bool" where
  "namesLiveKit e \<longleftrightarrow> lk_url e \<noteq> None \<or> lk_apiKey e \<noteq> None \<or> lk_apiSecret e \<noteq> None"

fun env_label :: "env_field \<Rightarrow> string" where
  "env_label FUrl = ''URL''"
| "env_label FApiKey = ''key''"
| "env_label FApiSecret = ''secret''"

definition filledText :: "livekit_env \<Rightarrow> env_field list \<Rightarrow> string" where
  "filledText e include =
     (let got = map env_label (filter (\<lambda>f. env_get f e \<noteq> None) include);
          listing = (if length got \<le> 1 then concat got else join '', '' (butlast got) @ '' and '' @ last got)
      in ''Filled '' @ listing @ '' from the pasted variables.'')"

text \<open>A paste: \<open>None\<close> leaves it to the input, else what all inputs take.\<close>

definition pasteLiveKit :: "string \<Rightarrow> livekit_env option" where
  "pasteLiveKit text = (let e = parseLiveKitEnv text in if namesLiveKit e then Some e else None)"

section \<open>Reading back what LiveKit Cloud copies\<close>

definition no_break :: "string \<Rightarrow> bool" where
  "no_break s \<longleftrightarrow> LF \<notin> set s \<and> CR \<notin> set s"

lemma lines_go_last: "no_break x \<Longrightarrow> lines_go acc x = [rev acc @ x]"
proof (induction x arbitrary: acc)
  case (Cons c x)
  then show ?case by (cases x) (auto simp: no_break_def)
qed simp

lemma lines_go_break: "no_break x \<Longrightarrow> lines_go acc (x @ LF # s) = (rev acc @ x) # lines_go [] s"
proof (induction x arbitrary: acc)
  case Nil
  then show ?case by (cases s) (auto simp: LF_def CR_def)
next
  case (Cons c x)
  then show ?case by (cases x) (auto simp: no_break_def LF_def CR_def)
qed

lemma env_lines_join: "ls \<noteq> [] \<Longrightarrow> list_all no_break ls \<Longrightarrow> env_lines (join [LF] ls) = ls"
proof (induction ls)
  case (Cons l ls)
  then show ?case by (cases ls) (simp_all add: env_lines_def lines_go_last lines_go_break)
qed simp

lemma sublist_quoted: "sublist t (q # v @ [q]) \<Longrightarrow> t \<noteq> [] \<Longrightarrow> q \<notin> set t \<Longrightarrow> sublist t v"
proof -
  assume s: "sublist t (q # v @ [q])" and t: "t \<noteq> []" "q \<notin> set t"
  then have "sublist t (v @ [q])" by (cases t) (auto simp: sublist_Cons_right)
  then obtain xs ys where e: "v @ [q] = xs @ t @ ys" by (auto simp: sublist_def)
  show ?thesis
  proof (cases ys rule: rev_cases)
    case Nil
    then have "last t = q" using e t(1) by (metis append_Nil2 last_appendR last_snoc)
    with t show ?thesis by (metis last_in_set)
  next
    case (snoc ys' y)
    with e have "v = xs @ t @ ys'" by simp
    then show ?thesis by (auto simp: sublist_def)
  qed
qed

lemma line_break_free_quoted: "is_quote q \<Longrightarrow> line_break_free v \<Longrightarrow> line_break_free (q # v @ [q])"
proof -
  assume q: "is_quote q" and v: "line_break_free v"
  have "\<not> has_sub (q # v @ [q]) t" if "\<not> has_sub v t" "t \<noteq> []" "q \<notin> set t" for t
    using that sublist_quoted [of t q v] by (auto simp: has_sub_sublist)
  with q v show ?thesis unfolding line_break_free_def is_quote_def by (auto simp: code_def)
qed

lemma env_line_assigns:
  assumes "name \<noteq> []" "list_all name_char name" "name_start (hd name)" "\<not> starts_with (name @ CHR ''='' # r) ''export''"
    and "line_break_free r" "r \<noteq> []" "\<not> is_ws (hd r)"
  shows "env_line (name @ CHR ''='' # r) = Some (name, r)"
proof -
  have n: "\<not> name_char (CHR ''='')" "\<not> is_ws (CHR ''='')"
    by (simp_all add: name_char_def name_start_def is_upper_def is_lower_def is_digit_def is_ws_def code_def)
  have "\<not> is_ws (hd name)" using assms(3)
    by (auto simp: name_start_def is_upper_def is_lower_def is_ws_def code_def)
  then have t: "trim_start (name @ CHR ''='' # r) = name @ CHR ''='' # r" using assms(1) by (cases name) (simp_all add: trim_start_def)
  have "takeWhile name_char (name @ CHR ''='' # r) = name" "dropWhile name_char (name @ CHR ''='' # r) = CHR ''='' # r"
    using assms(2) n(1) by (auto simp: takeWhile_append dropWhile_append list_all_iff)
  moreover have "trim_start (CHR ''='' # r) = CHR ''='' # r" "trim_start r = r"
    using n(2) assms(6,7) by (cases r; simp add: trim_start_def)+
  ultimately have "assignment (name @ CHR ''='' # r) = Some (name, r)" using assms by (simp add: assignment_def)
  then show ?thesis using t assms(4) by (simp add: env_line_def)
qed

lemma env_value_quoted:
  assumes "is_quote q" "q \<notin> set v"
  shows "env_value (q # v @ [q]) = v"
proof -
  have "\<not> is_ws q" using assms(1) by (auto simp: is_quote_def is_ws_def code_def)
  then have t: "trim (q # v @ [q]) = q # v @ [q]" by (simp add: trim_def trim_start_def trim_end_def)
  have "search (\<lambda>c. c = q) (v @ [q]) = Some (length v)" using assms(2) by (induction v) auto
  then show ?thesis using assms(1) t by (simp add: env_value_def index_from_def)
qed

definition quoted_line :: "char \<Rightarrow> string \<Rightarrow> string \<Rightarrow> string" where
  "quoted_line q name v = name @ CHR ''='' # q # v @ [q]"

definition quotable :: "char \<Rightarrow> string \<Rightarrow> bool" where
  "quotable q v \<longleftrightarrow> v \<noteq> [] \<and> q \<notin> set v \<and> line_break_free v"

lemma read_quoted:
  assumes "is_quote q" "quotable q v" "(name, f) \<in> set env_fields"
  shows "read_env_line (quoted_line q name v) e = env_set f v e"
proof -
  let ?r = "q # v @ [q]"
  have name: "name \<noteq> []" "list_all name_char name" "name_start (hd name)" "\<not> starts_with (name @ CHR ''='' # ?r) ''export''"
    "map_of env_fields name = Some f" "skipped_line (name @ CHR ''='' # ?r) = False"
    using assms(3)
    by (auto simp: env_fields_def name_char_def name_start_def is_upper_def is_lower_def code_def starts_with_def
      skipped_line_def trim_start_def is_ws_def)
  have ws: "\<not> is_ws (hd ?r)" using assms(1) by (auto simp: is_quote_def is_ws_def code_def)
  have "env_line (quoted_line q name v) = Some (name, ?r)" unfolding quoted_line_def
    by (rule env_line_assigns [OF name(1-4) line_break_free_quoted _ ws]) (use assms in \<open>auto simp: quotable_def\<close>)
  then show ?thesis using env_value_quoted [OF assms(1), of v] assms(2) name(5,6)
    by (simp add: read_env_line_def quoted_line_def quotable_def)
qed

text \<open>The block as it is copied: a line for each variable that is there.\<close>

definition env_block :: "char \<Rightarrow> livekit_env \<Rightarrow> string" where
  "env_block q e = join [LF] (concat (map (\<lambda>(name, f). case env_get f e of Some v \<Rightarrow> [quoted_line q name v] | None \<Rightarrow> []) env_fields))"

definition env_quotable :: "char \<Rightarrow> livekit_env \<Rightarrow> bool" where
  "env_quotable q e \<longleftrightarrow> list_all (\<lambda>(name, f). case env_get f e of Some v \<Rightarrow> quotable q v | None \<Rightarrow> True) env_fields"

lemma no_break_quoted: "is_quote q \<Longrightarrow> quotable q v \<Longrightarrow> (name, f) \<in> set env_fields \<Longrightarrow> no_break (quoted_line q name v)"
  by (auto simp: no_break_def quoted_line_def quotable_def line_break_free_def list_all_iff env_fields_def is_quote_def
    LF_def CR_def code_def)

text \<open>C30: the variables are read back from the block that quotes them, with either quote, if no value is empty or holds
  the quote or a line break.\<close>

theorem env_reads_back:
  assumes "is_quote q" and "env_quotable q e" and "namesLiveKit e"
  shows "parseLiveKitEnv (env_block q e) = e \<and> pasteLiveKit (env_block q e) = Some e"
proof -
  let ?L = "\<lambda>(name, f). case env_get f e of Some v \<Rightarrow> [quoted_line q name v] | None \<Rightarrow> []"
  have ok: "quotable q v" if "(name, f) \<in> set env_fields" "env_get f e = Some v" for name f v
    using assms(2) that by (auto simp: env_quotable_def list_all_iff)
  have "list_all no_break (concat (map ?L env_fields))"
    using no_break_quoted [OF assms(1)] ok by (auto simp: list_all_iff split: option.splits)
  moreover have "concat (map ?L env_fields) \<noteq> []"
    using assms(3) by (auto simp: namesLiveKit_def env_fields_def)
  ultimately have "env_lines (env_block q e) = concat (map ?L env_fields)"
    unfolding env_block_def by (intro env_lines_join)
  then have "parseLiveKitEnv (env_block q e) = fold read_env_line (concat (map ?L env_fields)) no_env"
    by (simp add: parseLiveKitEnv_def)
  also have "\<dots> = fold (\<lambda>(name, f) e'. case env_get f e of Some v \<Rightarrow> env_set f v e' | None \<Rightarrow> e') env_fields no_env"
  proof -
    have "set ps \<subseteq> set env_fields \<Longrightarrow> fold read_env_line (concat (map ?L ps)) e' =
        fold (\<lambda>(name, f) e'. case env_get f e of Some v \<Rightarrow> env_set f v e' | None \<Rightarrow> e') ps e'" for ps e'
      using read_quoted [OF assms(1)] ok by (induction ps arbitrary: e') (auto split: option.splits)
    then show ?thesis by simp
  qed
  also have "\<dots> = e"
    by (cases e; cases "lk_url e"; cases "lk_apiKey e"; cases "lk_apiSecret e") (simp_all add: env_fields_def no_env_def)
  finally show ?thesis using assms(3) by (simp add: pasteLiveKit_def)
qed

definition sample_env :: livekit_env where
  "sample_env = \<lparr>lk_url = Some ''wss://a #b'', lk_apiKey = Some ''k'', lk_apiSecret = None\<rparr>"

lemma env_reads_back_witness:
  "parseLiveKitEnv (env_block (CHR 0x22) sample_env) = sample_env \<and> lk_url sample_env = Some ''wss://a #b''"
  using env_reads_back [of "CHR 0x22" sample_env]
  by (simp add: sample_env_def is_quote_def env_quotable_def env_fields_def quotable_def line_break_free_def code_def
    starts_with_def namesLiveKit_def)

end
