(* ===== verification/Session.thy ===== *)
theory Session
  imports Api
begin

text \<open>
  Who is signed in and how (\<open>lib/session.ts\<close>, \<open>lib/invitation.ts\<close>, \<open>lib/providers.ts\<close>,
  \<open>lib/client-config.ts\<close>), what an embedded widget may do (\<open>lib/embed.ts\<close>) and how fresh a source's reads are
  (\<open>lib/live-status.ts\<close>). Each request is a function of what \<open>fetch\<close> did; \<open>None\<close> is an exception that leaves it.
\<close>

section \<open>Reading answers\<close>

text \<open>\<open>res.json().catch(() => ({}))\<close>\<close>

definition body_or_empty :: "response \<Rightarrow> json" where
  "body_or_empty r = (case json_parse (re_body r) of Some v \<Rightarrow> v | None \<Rightarrow> JObj [])"

text \<open>\<open>Number(res.headers.get('Retry-After'))\<close> if it is a finite number of seconds above zero.\<close>

definition retry_after :: "response \<Rightarrow> num option" where
  "retry_after r =
     (case (case re_header r ''Retry-After'' of None \<Rightarrow> Num 0 | Some t \<Rightarrow> js_number t) of
        Num x \<Rightarrow> if 0 < x then Some x else None
      | _ \<Rightarrow> None)"

section \<open>The session\<close>

record organisation_role =
  or_id :: string
  or_role :: string

record session =
  se_id :: "string option"
  se_email :: string
  se_organisations :: "organisation_role list"

datatype role = Admin | Member | Viewer

definition roleNames :: "(string \<times> role) list" where
  "roleNames = [(''admin'', Admin), (''member'', Member), (''viewer'', Viewer)]"

definition roleIn :: "bool \<Rightarrow> string \<Rightarrow> session option \<Rightarrow> role option" where
  "roleIn mockApi orgId sess =
     (if mockApi then Some Admin
      else case sess of
        None \<Rightarrow> None
      | Some s \<Rightarrow>
          (case find (\<lambda>o1. or_id o1 = orgId) (se_organisations s) of
             None \<Rightarrow> None
           | Some o1 \<Rightarrow> if or_role o1 = [] then None else map_of roleNames (or_role o1)))"

datatype session_read = SignedInAs json | SignedOut bool

text \<open>\<open>fetchSession\<close>; the session's body is taken as it comes.\<close>

definition fetchSession :: "fetched \<Rightarrow> session_read option" where
  "fetchSession f =
     (case f of
        Rejected _ \<Rightarrow> None
      | Answered r \<Rightarrow>
          if re_status r = 401 then
            map_option (\<lambda>needs. SignedOut (needs = Some (JBool True))) (prop_of (body_or_empty r) ''needsAdmin'')
          else if \<not> re_ok r then None
          else map_option SignedInAs (json_parse (re_body r)))"

section \<open>Signing in\<close>

datatype sign_in_result = SiSignedIn | SiWrong | SiLimited "num option" | SiHttpsRequired | SiFailed

definition signIn :: "fetched \<Rightarrow> sign_in_result option" where
  "signIn f =
     (case f of
        Rejected _ \<Rightarrow> Some SiFailed
      | Answered r \<Rightarrow>
          if re_status r = 204 then Some SiSignedIn
          else if re_status r = 401 then Some SiWrong
          else if re_status r = 429 then Some (SiLimited (retry_after r))
          else if re_status r = 400 then
            map_option (\<lambda>c. if c = Some (JStr ''https_required'') then SiHttpsRequired else SiFailed)
              (prop_of (body_or_empty r) ''code'')
          else Some SiFailed)"

datatype accept_result = AcAccepted | AcInvalid | AcWrong | AcTooShort | AcLimited "num option" | AcHttpsRequired | AcFailed

definition acceptInvitation :: "fetched \<Rightarrow> accept_result option" where
  "acceptInvitation f =
     (case f of
        Rejected _ \<Rightarrow> Some AcFailed
      | Answered r \<Rightarrow>
          if re_status r = 204 then Some AcAccepted
          else if re_status r = 401 then Some AcWrong
          else if re_status r = 404 then Some AcInvalid
          else if re_status r = 429 then Some (AcLimited (retry_after r))
          else if re_status r = 400 then
            map_option (\<lambda>c. if c = Some (JStr ''https_required'') then AcHttpsRequired else AcTooShort)
              (prop_of (body_or_empty r) ''code'')
          else Some AcFailed)"

datatype look_result = LkPending json | LkInvalid | LkFailed

definition lookInvitation :: "fetched \<Rightarrow> look_result option" where
  "lookInvitation f =
     (case f of
        Rejected _ \<Rightarrow> Some LkFailed
      | Answered r \<Rightarrow>
          if re_status r = 200 then map_option LkPending (json_parse (re_body r))
          else if re_status r = 404 then Some LkInvalid else Some LkFailed)"

datatype start_result = StRedirect string | StHttpsRequired | StFailed

text \<open>\<open>res.ok && typeof body.url === 'string'\<close>, then \<open>status === 400 && body.code === ...\<close>: either reads the body.\<close>

definition startProvider :: "fetched \<Rightarrow> start_result option" where
  "startProvider f =
     (case f of
        Rejected _ \<Rightarrow> Some StFailed
      | Answered r \<Rightarrow>
          let body = body_or_empty r in
          if re_ok r then
            map_option (\<lambda>u. case u of Some (JStr s) \<Rightarrow> StRedirect s | _ \<Rightarrow> StFailed) (prop_of body ''url'')
          else if re_status r = 400 then
            map_option (\<lambda>c. if c = Some (JStr ''https_required'') then StHttpsRequired else StFailed) (prop_of body ''code'')
          else Some StFailed)"

record providers =
  pv_google :: bool
  pv_github :: bool
  pv_auth0 :: bool

definition NO_PROVIDERS :: providers where
  "NO_PROVIDERS = \<lparr>pv_google = False, pv_github = False, pv_auth0 = False\<rparr>"

definition is_true :: "json \<Rightarrow> string \<Rightarrow> bool" where
  "is_true v k \<longleftrightarrow> prop_of v k = Some (Some (JBool True))"

definition fetchProviders :: "fetched \<Rightarrow> providers" where
  "fetchProviders f =
     (case f of
        Rejected _ \<Rightarrow> NO_PROVIDERS
      | Answered r \<Rightarrow>
          if \<not> re_ok r then NO_PROVIDERS
          else case json_parse (re_body r) of
            None \<Rightarrow> NO_PROVIDERS
          | Some JNull \<Rightarrow> NO_PROVIDERS
          | Some v \<Rightarrow> \<lparr>pv_google = is_true v ''google'', pv_github = is_true v ''github'', pv_auth0 = is_true v ''auth0''\<rparr>)"

text \<open>\<open>readProviderRefusal\<close>: whether the address says so, and the path shown then.\<close>

definition readProviderRefusal :: "params \<Rightarrow> string \<Rightarrow> string option" where
  "readProviderRefusal ps path =
     (if up_get ps ''error'' \<noteq> Some ''oauth_refused'' then None
      else Some (if path = ''/sign-in'' then ''/'' else path))"

section \<open>The account\<close>

text \<open>\<open>profileResponse\<close>: the answer, or the refusal's status and message.\<close>

datatype profile_outcome = Profile json | ProfileRefused nat string | ProfileThrew

definition profileResponse :: "response \<Rightarrow> profile_outcome" where
  "profileResponse r =
     (if \<not> re_ok r then
        (case prop_of (body_or_empty r) ''message'' of
           None \<Rightarrow> ProfileThrew
         | Some m \<Rightarrow> ProfileRefused (re_status r) (if nullish m then ''Profile request failed.'' else template m))
      else case json_parse (re_body r) of Some v \<Rightarrow> Profile v | None \<Rightarrow> ProfileThrew)"

section \<open>The client config\<close>

definition number_of :: "json option \<Rightarrow> jsnum" where
  "number_of v =
     (case v of
        None \<Rightarrow> NaN
      | Some JNull \<Rightarrow> Num 0
      | Some (JBool b) \<Rightarrow> Num (if b then 1 else 0)
      | Some (JNum x) \<Rightarrow> Num x
      | Some (JStr s) \<Rightarrow> js_number s
      | Some (JArr xs) \<Rightarrow> js_number (js_string (JArr xs))
      | Some (JObj kvs) \<Rightarrow> NaN)"

record sentry_config =
  sc_dsn :: string
  sc_environment :: string
  sc_tracesSampleRate :: jsnum

record client_config =
  cc_sentry :: "sentry_config option"
  cc_posthog :: "(string \<times> string) option"

definition config_off :: client_config where
  "config_off = \<lparr>cc_sentry = None, cc_posthog = None\<rparr>"

fun field_of :: "json option \<Rightarrow> string \<Rightarrow> json option" where
  "field_of (Some (JObj kvs)) k = map_of kvs k"
| "field_of _ k = None"

definition sentry_part :: "json option \<Rightarrow> sentry_config option" where
  "sentry_part s =
     (case field_of s ''dsn'' of
        Some (JStr dsn) \<Rightarrow>
          if dsn = [] then None
          else Some \<lparr>sc_dsn = dsn,
            sc_environment = (let e = field_of s ''environment'' in if nullish e then [] else template e),
            sc_tracesSampleRate = (case number_of (field_of s ''tracesSampleRate'') of NaN \<Rightarrow> Num 0 | n \<Rightarrow> n)\<rparr>
      | _ \<Rightarrow> None)"

definition posthog_part :: "json option \<Rightarrow> (string \<times> string) option" where
  "posthog_part p =
     (case (field_of p ''key'', field_of p ''host'') of
        (Some (JStr key), Some (JStr host)) \<Rightarrow> if key = [] then None else Some (key, host)
      | _ \<Rightarrow> None)"

definition fetchClientConfig :: "fetched \<Rightarrow> client_config" where
  "fetchClientConfig f =
     (case f of
        Rejected _ \<Rightarrow> config_off
      | Answered r \<Rightarrow>
          if \<not> re_ok r then config_off
          else case json_parse (re_body r) of
            None \<Rightarrow> config_off
          | Some v \<Rightarrow> \<lparr>cc_sentry = sentry_part (field_of (Some v) ''sentry''), cc_posthog = posthog_part (field_of (Some v) ''posthog'')\<rparr>)"

section \<open>Embedded widgets\<close>

text \<open>\<open>/^\/org\/[^/]+\/project\/[^/]+\/embed\/[^/]+\/?$/\<close>, by the parts between the slashes.\<close>

definition isEmbedPath :: "string \<Rightarrow> bool" where
  "isEmbedPath pathname \<longleftrightarrow>
     (case split ''/'' pathname of
        [e, org, a, proj, b, emb, c] \<Rightarrow> e = [] \<and> org = ''org'' \<and> a \<noteq> [] \<and> proj = ''project'' \<and> b \<noteq> [] \<and> emb = ''embed'' \<and> c \<noteq> []
      | [e, org, a, proj, b, emb, c, d] \<Rightarrow>
          e = [] \<and> org = ''org'' \<and> a \<noteq> [] \<and> proj = ''project'' \<and> b \<noteq> [] \<and> emb = ''embed'' \<and> c \<noteq> [] \<and> d = []
      | _ \<Rightarrow> False)"

text \<open>The token kept at start, and whether requests carry it from then on.\<close>

definition startEmbed :: "string \<Rightarrow> params \<Rightarrow> string option \<times> bool" where
  "startEmbed pathname ps =
     (let token = (if isEmbedPath pathname then up_get ps ''token'' else None)
      in (token, case token of Some t \<Rightarrow> t \<noteq> [] | None \<Rightarrow> False))"

text \<open>\<open>atob\<close>: white space is dropped, up to two \<open>=\<close> end a text of full groups, four characters make three bytes and
  the bits left over are dropped; \<open>None\<close> is the \<open>InvalidCharacterError\<close>.\<close>

definition b64_value :: "char \<Rightarrow> nat option" where
  "b64_value c =
     (if is_upper c then Some (code c - 65)
      else if is_lower c then Some (code c - 71)
      else if is_digit c then Some (code c + 4)
      else if c = CHR ''+'' then Some 62
      else if c = CHR ''/'' then Some 63 else None)"

fun b64_bytes :: "nat list \<Rightarrow> nat list" where
  "b64_bytes (a # b # c # d # r) =
     (a * 4 + b div 16) # (b mod 16 * 16 + c div 4) # (c mod 4 * 64 + d) # b64_bytes r"
| "b64_bytes [a, b, c] = [a * 4 + b div 16, b mod 16 * 16 + c div 4]"
| "b64_bytes [a, b] = [a * 4 + b div 16]"
| "b64_bytes _ = []"

definition b64_unpad :: "string \<Rightarrow> string" where
  "b64_unpad s =
     (if length s mod 4 = 0 then
        (if ends_with s ''=='' then take (length s - 2) s else if ends_with s ''='' then take (length s - 1) s else s)
      else s)"

definition atob :: "string \<Rightarrow> string option" where
  "atob s =
     (let t = b64_unpad (filter (\<lambda>c. \<not> (is_ws c \<and> code c \<noteq> 11)) s) in
      if length t mod 4 = 1 then None
      else map_option (\<lambda>vs. map char_of (b64_bytes vs)) (map_try b64_value t))"

definition sharesContent :: "string option \<Rightarrow> bool" where
  "sharesContent token =
     (case token of
        None \<Rightarrow> True
      | Some t \<Rightarrow>
          if t = [] then True
          else case nth_opt (split ''.'' t) 1 of
            None \<Rightarrow> False
          | Some part \<Rightarrow>
              (case Option.bind (atob (map (\<lambda>c. if c = CHR ''-'' then CHR ''+'' else if c = CHR ''_'' then CHR ''/'' else c) part)) json_parse of
                 Some v \<Rightarrow> is_true v ''cnt''
               | None \<Rightarrow> False))"

datatype playable = PlayUrl string | PlayFetched | PlayRefused nat

definition playableUrl :: "string option \<Rightarrow> string \<Rightarrow> response \<Rightarrow> playable" where
  "playableUrl token url answer =
     (case token of
        None \<Rightarrow> PlayUrl url
      | Some t \<Rightarrow> if t = [] then PlayUrl url else if re_ok answer then PlayFetched else PlayRefused (re_status answer))"

section \<open>How fresh a source is\<close>

record source_read =
  sr_lastGoodReadAt :: "string option"
  sr_errorClass :: "string option"

datatype freshness_state = Current | Stale | Unavailable | UnknownFreshness

definition last_good :: "source_read option \<Rightarrow> num option" where
  "last_good status =
     (case status of
        None \<Rightarrow> None
      | Some s \<Rightarrow> (case sr_lastGoodReadAt s of None \<Rightarrow> None | Some t \<Rightarrow> if t = [] then None else date_parse t))"

definition freshness :: "source_read option \<Rightarrow> num \<Rightarrow> num \<Rightarrow> freshness_state" where
  "freshness status intervalMs now =
     (if (case status of Some s \<Rightarrow> (case sr_errorClass s of Some e \<Rightarrow> e \<noteq> [] | None \<Rightarrow> False) | None \<Rightarrow> False) then Unavailable
      else case last_good status of
        None \<Rightarrow> UnknownFreshness
      | Some l \<Rightarrow>
          if l > now + intervalMs then UnknownFreshness
          else if now - l \<ge> intervalMs * 3 then Stale else Current)"

datatype observed = NoLongerListed | LastObserved | ObservedActive | UnknownObserved

definition observedState :: "num option \<Rightarrow> source_read option \<Rightarrow> num \<Rightarrow> num \<Rightarrow> bool \<Rightarrow> observed" where
  "observedState lastSeen status intervalMs now disconnected =
     (if (case (lastSeen, last_good status) of (Some s, Some g) \<Rightarrow> s < g | _ \<Rightarrow> False) then NoLongerListed
      else if disconnected \<or> freshness status intervalMs now \<noteq> Current then LastObserved
      else if lastSeen \<noteq> None \<and> lastSeen = last_good status then ObservedActive else UnknownObserved)"

section \<open>Properties\<close>

text \<open>The answers that make a request leave with an exception: a body that is JSON \<open>null\<close> where a property of it is read.\<close>

definition null_body :: "fetched \<Rightarrow> bool" where
  "null_body f \<longleftrightarrow> (case f of Answered r \<Rightarrow> json_parse (re_body r) = Some JNull | Rejected _ \<Rightarrow> False)"

definition status_in :: "fetched \<Rightarrow> (nat \<Rightarrow> bool) \<Rightarrow> bool" where
  "status_in f P \<longleftrightarrow> (case f of Answered r \<Rightarrow> P (re_status r) | Rejected _ \<Rightarrow> False)"

lemma prop_of_body: "prop_of (body_or_empty r) k = None \<longleftrightarrow> json_parse (re_body r) = Some JNull"
  by (cases "json_parse (re_body r)") (auto simp: body_or_empty_def elim: prop_of.elims split: option.splits)

text \<open>C29: signing in, accepting an invitation and starting a provider sign-in turn whatever happened into a result, but for
  a refusal (or, of the provider's start, a success) whose body is the JSON text null, which throws.\<close>

theorem sign_in_outcomes:
  "(signIn f = None \<longleftrightarrow> null_body f \<and> status_in f (\<lambda>n. n = 400)) \<and>
   (acceptInvitation f = None \<longleftrightarrow> null_body f \<and> status_in f (\<lambda>n. n = 400)) \<and>
   (startProvider f = None \<longleftrightarrow> null_body f \<and> status_in f (\<lambda>n. n = 400 \<or> 200 \<le> n \<and> n < 300)) \<and>
   (signIn f = Some SiSignedIn \<longleftrightarrow> status_in f (\<lambda>n. n = 204)) \<and>
   (acceptInvitation f = Some AcAccepted \<longleftrightarrow> status_in f (\<lambda>n. n = 204)) \<and>
   (case signIn f of
      Some (SiLimited w) \<Rightarrow> status_in f (\<lambda>n. n = 429) \<and> (case w of Some s \<Rightarrow> 0 < s | None \<Rightarrow> True)
    | _ \<Rightarrow> True)"
proof (cases f)
  case (Answered r)
  have "retry_after r = Some s \<Longrightarrow> 0 < s" for s by (auto simp: retry_after_def split: jsnum.splits if_splits)
  then show ?thesis unfolding Answered
    by (auto simp: signIn_def acceptInvitation_def startProvider_def Let_def null_body_def status_in_def prop_of_body re_ok_def
      split: option.splits)
qed (simp add: signIn_def acceptInvitation_def startProvider_def null_body_def status_in_def)

text \<open>Sharing is only ever claimed for the console's own preview or by a token that says so.\<close>

lemma sharesContent_claims:
  "sharesContent (Some t) \<Longrightarrow> t \<noteq> [] \<Longrightarrow>
   \<exists>part v. nth_opt (split ''.'' t) 1 = Some part \<and> prop_of v ''cnt'' = Some (Some (JBool True))"
  by (auto simp: sharesContent_def is_true_def split: option.splits)

text \<open>Nothing is said to be active now on a read that is old, refused or missing.\<close>

lemma active_is_fresh:
  "observedState lastSeen status intervalMs now disconnected = ObservedActive \<Longrightarrow>
   \<not> disconnected \<and> freshness status intervalMs now = Current \<and> lastSeen = last_good status \<and> lastSeen \<noteq> None"
  by (cases "last_good status") (auto simp: observedState_def split: if_splits)

end
