(* ===== verification/Setup.thy ===== *)
theory Setup
  imports Session CallModel
begin

text \<open>
  The setup journey (\<open>features/setup/setup-model.ts\<close>) and the shared formats (\<open>lib/format.ts\<close>,
  \<open>lib/relative-time.ts\<close>). What the platform decides is an argument: the URL parser's host, the generated name, the
  locale's number, date and unit formats.
\<close>

section \<open>The step\<close>

definition RAIL :: "(nat \<times> string) list" where
  "RAIL = [(1, ''Connect''), (2, ''Agent''), (3, ''Call''), (4, ''First look'')]"

definition agentConnected :: "project_connection \<Rightarrow> num \<Rightarrow> bool" where
  "agentConnected c now \<longleftrightarrow> list_ex (\<lambda>s. is_connected (sourceState s now)) [pc_agent c, pc_sdk c]"

definition setupStep :: "bool \<Rightarrow> project_connection option \<Rightarrow> num \<Rightarrow> nat" where
  "setupStep hasProject c now =
     (if \<not> hasProject then 1
      else case c of
        None \<Rightarrow> 2
      | Some p \<Rightarrow> if pc_firstCall p \<noteq> None then 4 else if agentConnected p now then 3 else 2)"

text \<open>\<open>asked\<close> is the address's \<open>step\<close>, whatever it holds.\<close>

definition asked_number :: "json option \<Rightarrow> jsnum" where
  "asked_number asked = (if nullish asked then NaN else number_of asked)"

definition viewedStep :: "nat \<Rightarrow> json option \<Rightarrow> nat" where
  "viewedStep derived asked =
     (case asked_number asked of
        Num n \<Rightarrow>
          if is_integer n \<and> 0 \<le> n \<and> n \<le> of_nat derived then nat \<lfloor>n\<rfloor>
          else if derived = 1 then 0 else derived
      | _ \<Rightarrow> if derived = 1 then 0 else derived)"

section \<open>Names\<close>

definition projectName :: "(string \<Rightarrow> string option) \<Rightarrow> string \<Rightarrow> string \<Rightarrow> string" where
  "projectName hostname generated url =
     (case hostname (trim url) of
        None \<Rightarrow> generated
      | Some h \<Rightarrow>
          let labels = split ''.'' (lower h); first = hd labels; tld = last labels in
          if 3 \<le> length labels \<and> first \<noteq> ''www'' \<and> list_ex is_lower first \<and> \<not> (tld \<noteq> [] \<and> list_all is_digit tld)
          then take 64 first else generated)"

definition projectLabel :: "(string \<Rightarrow> string option) \<Rightarrow> string \<Rightarrow> string" where
  "projectLabel host url =
     (case host (trim url) of
        None \<Rightarrow> trim url
      | Some h \<Rightarrow> if ends_with h ''.livekit.cloud'' then take (length h - length ''.livekit.cloud'') h else h)"

definition maskedKey :: "string \<Rightarrow> string" where
  "maskedKey key = take 5 key @ concat (replicate (max 4 (min 10 (length key - 5))) bullet)"

definition roomsLine :: "nat option \<Rightarrow> string" where
  "roomsLine liveRooms =
     (case liveRooms of
        None \<Rightarrow> ''Connected''
      | Some n \<Rightarrow> if n = 0 then ''No rooms live right now''
          else nat_str n @ '' '' @ (if n = 1 then ''room'' else ''rooms'') @ '' live right now'')"

section \<open>The first look\<close>

record stage =
  sg_name :: string
  sg_ms :: num

record first_look =
  fl_answerMs :: "num option"
  fl_answerDerived :: bool
  fl_turn :: "nat option"
  fl_stages :: "stage list"
  fl_slowest :: "stage option"
  fl_turns :: "nat option"
  fl_interruptions :: "nat option"

definition stages_of :: "turn_model \<Rightarrow> stage list" where
  "stages_of t = somes (map (\<lambda>(name, ms). map_option (\<lambda>v. \<lparr>sg_name = name, sg_ms = v\<rparr>) ms)
     [(''end of turn detection'', tm_eotMs t), (''the LLM'' @ apostrophe @ ''s first token'', tm_ttftMs t),
      (''text to speech starting'', tm_ttsMs t)])"

definition slowest_of :: "stage list \<Rightarrow> stage option" where
  "slowest_of = (\<lambda>ss. fold (\<lambda>s a. case a of None \<Rightarrow> Some s | Some b \<Rightarrow> if sg_ms s > sg_ms b then Some s else a) ss None)"

definition firstLook :: "call \<Rightarrow> first_look" where
  "firstLook c =
     (let model = buildModel c; t = find (\<lambda>x. tm_responseMs x \<noteq> None) (cm_turns model);
          stages = (case t of Some x \<Rightarrow> stages_of x | None \<Rightarrow> []); turns = turnCount c model
      in \<lparr>fl_answerMs = Option.bind t tm_responseMs, fl_answerDerived = (case t of Some x \<Rightarrow> tm_responseDerived x | None \<Rightarrow> False),
          fl_turn = map_option (\<lambda>x. tm_i x + 1) t, fl_stages = stages, fl_slowest = slowest_of stages, fl_turns = turns,
          fl_interruptions = (case turns of None \<Rightarrow> None | Some _ \<Rightarrow> Some (interruptionCount model))\<rparr>)"

definition planText :: "(num \<Rightarrow> string) \<Rightarrow> (num \<times> num) option \<Rightarrow> string option" where
  "planText locale_number e =
     map_option (\<lambda>(callSeconds, limitMinutes). locale_number (of_int \<lfloor>callSeconds / 60\<rfloor>) @ '' of '' @ locale_number limitMinutes @ '' min'') e"

definition secs :: "num \<Rightarrow> string" where
  "secs ms = (if ms \<ge> 1000 then to_fixed 2 (ms / 1000) @ '' s'' else int_str (js_round ms) @ '' ms'')"

record agent_problem =
  ap_title :: string
  ap_summary :: string
  ap_details :: "string option"

definition drop_full_stop :: "string \<Rightarrow> string" where
  "drop_full_stop s = (if ends_with s ''.'' then butlast s else s)"

definition agentProblem :: "project_connection \<Rightarrow> agent_problem" where
  "agentProblem c =
     (if so_reason (pc_agent c) = Some KeyMismatch then
        let used = (case so_usedKey (pc_agent c) of Some k \<Rightarrow> if k = [] then ''a key VoiceGateway could not read'' else k
                    | None \<Rightarrow> ''a key VoiceGateway could not read'');
            expected = (case so_expectedKey (pc_agent c) of Some k \<Rightarrow> k | None \<Rightarrow> lk_apiKey (pc_livekit c))
        in \<lparr>ap_title = ''Your agent uses a different LiveKit API key from this project'' @ apostrophe @ ''s.'',
            ap_summary = ''Use this project'' @ apostrophe @ ''s key and secret in your agent, then restart it.'',
            ap_details = Some (''Your agent signed with '' @ used @ ''; this project expects '' @ expected @
              ''. Set LIVEKIT_API_KEY to '' @ expected @ '' and LIVEKIT_API_SECRET to its secret.'')\<rparr>
      else let f = fixText Agent (pc_agent c); summary = drop_full_stop (hd (split ''. '' (fx_fix f))) @ ''.''
        in \<lparr>ap_title = fx_title f, ap_summary = summary, ap_details = (if fx_fix f = summary then None else Some (fx_fix f))\<rparr>)"

section \<open>Formats\<close>

text \<open>A time nobody reported reads \<open>unknown\<close>; \<open>d\<close> is the date's milliseconds, if it is one.\<close>

definition fmt_at :: "(num \<Rightarrow> string) \<Rightarrow> num option \<Rightarrow> string" where
  "fmt_at f d = (case d of None \<Rightarrow> ''unknown'' | Some t \<Rightarrow> f t)"

definition fmtSeconds :: "num \<Rightarrow> string" where
  "fmtSeconds s =
     (let r = of_int (js_round (s * 10)) / 10 in
      if r < 60 then to_fixed 1 r @ '' s''
      else let whole = js_round s in
        int_str (whole div 60) @ ''m '' @ pad_start 2 (int_str (whole mod 60)) @ ''s'')"

definition fmtBytes :: "(num \<Rightarrow> string) \<Rightarrow> (num \<Rightarrow> string) \<Rightarrow> num \<Rightarrow> string" where
  "fmtBytes megabytes kilobytes b =
     (if b \<ge> 1024 ^ 2 then megabytes (b / 1024 ^ 2) else kilobytes (of_int (js_round (b / 1024))))"

definition UNITS :: "(string \<times> num) list" where
  "UNITS = [(''year'', 365 * 86400), (''month'', 30 * 86400), (''day'', 86400), (''hour'', 3600), (''minute'', 60), (''second'', 1)]"

text \<open>\<open>rtf.format\<close> throws on an unreadable date: \<open>None\<close>.\<close>

definition relative :: "(int \<Rightarrow> string \<Rightarrow> string) \<Rightarrow> string \<Rightarrow> num \<Rightarrow> string option" where
  "relative rtf txt now =
     map_option (\<lambda>t. let seconds = (t - now) / 1000 in
       case find (\<lambda>(u, sz). \<bar>seconds\<bar> \<ge> sz \<or> u = ''second'') UNITS of
         Some (u, sz) \<Rightarrow> rtf (js_round (seconds / sz)) u
       | None \<Rightarrow> []) (date_parse txt)"

section \<open>Facts\<close>

text \<open>The screen on view is never one ahead of the data, and the one asked for if it is not.\<close>

lemma viewedStep_le: "viewedStep derived asked \<le> derived"
proof (cases "asked_number asked")
  case (Num n)
  have "nat \<lfloor>n\<rfloor> \<le> derived" if "n \<le> of_nat derived" using that by linarith
  with Num show ?thesis by (simp add: viewedStep_def)
qed (simp_all add: viewedStep_def)

lemma viewedStep_asked: "asked_number asked = Num (of_nat n) \<Longrightarrow> n \<le> derived \<Longrightarrow> viewedStep derived asked = n"
  by (simp add: viewedStep_def is_integer_def)

lemma setupStep_range: "setupStep hasProject c now \<in> {1, 2, 3, 4}"
  by (auto simp: setupStep_def split: option.split)

lemma setupStep_done: "setupStep hasProject c now = 4 \<longleftrightarrow> hasProject \<and> (case c of Some p \<Rightarrow> pc_firstCall p \<noteq> None | None \<Rightarrow> False)"
  by (auto simp: setupStep_def split: option.split)

text \<open>A key shows at most its first five characters.\<close>

lemma maskedKey_shows: "\<exists>n. maskedKey key = take 5 key @ concat (replicate n bullet) \<and> 4 \<le> n \<and> n \<le> 10"
  unfolding maskedKey_def by (intro exI [of _ "max 4 (min 10 (length key - 5))"]) auto

text \<open>The slowest stage is one of them and none is slower.\<close>

lemma slowest_of_max:
  "slowest_of ss = Some s \<Longrightarrow> s \<in> set ss \<and> (\<forall>x \<in> set ss. sg_ms x \<le> sg_ms s)"
proof -
  have "fold (\<lambda>s a. case a of None \<Rightarrow> Some s | Some b \<Rightarrow> if sg_ms s > sg_ms b then Some s else a) ss a = Some s \<Longrightarrow>
      (s \<in> set ss \<or> a = Some s) \<and> (\<forall>x \<in> set ss \<union> set_option a. sg_ms x \<le> sg_ms s)" for a
    by (induction ss arbitrary: a) (fastforce split: option.splits if_splits)+
  then show "slowest_of ss = Some s \<Longrightarrow> s \<in> set ss \<and> (\<forall>x \<in> set ss. sg_ms x \<le> sg_ms s)" by (fastforce simp: slowest_of_def)
qed

text \<open>Seconds: under a minute the tenths printed are below 60.0; else whole minutes and seconds below 60 that add up to
  the length rounded once.\<close>

lemma fmtSeconds_form:
  assumes "0 \<le> s"
  shows "(\<exists>n. fmtSeconds s = to_fixed 1 (of_int n / 10) @ '' s'' \<and> n = js_round (s * 10) \<and> n < 600) \<or>
    (\<exists>m r. fmtSeconds s = int_str m @ ''m '' @ pad_start 2 (int_str r) @ ''s'' \<and> 0 \<le> r \<and> r < 60 \<and> 1 \<le> m \<and> 60 * m + r = js_round s)"
proof (cases "js_round (s * 10) < 600")
  case True
  then have "(of_int (js_round (s * 10)) :: rat) / 10 < 60" by simp
  with True show ?thesis by (auto simp: fmtSeconds_def)
next
  case False
  then have big: "\<not> (of_int (js_round (s * 10)) :: rat) / 10 < 60" by simp
  have "600 \<le> s * 10 + 1 / 2" using False by (simp add: js_round_def le_floor_iff)
  then have "60 \<le> js_round s" by (simp add: js_round_def le_floor_iff)
  then have "fmtSeconds s = int_str (js_round s div 60) @ ''m '' @ pad_start 2 (int_str (js_round s mod 60)) @ ''s'' \<and>
      1 \<le> js_round s div 60 \<and> 60 * (js_round s div 60) + js_round s mod 60 = js_round s"
    using big by (auto simp: fmtSeconds_def Let_def)
  then show ?thesis by (intro disjI2 exI [of _ "js_round s div 60"] exI [of _ "js_round s mod 60"]) auto
qed

text \<open>A time one second short of an hour is told in minutes, sixty of them.\<close>

lemma relative_sixty_minutes: "date_parse txt = Some (now + 3599000) \<Longrightarrow> relative rtf txt now = Some (rtf 60 ''minute'')"
proof -
  have "\<lfloor>3629 / 60 :: rat\<rfloor> = 60" by (simp add: floor_eq_iff)
  then show "date_parse txt = Some (now + 3599000) \<Longrightarrow> relative rtf txt now = Some (rtf 60 ''minute'')"
    by (simp add: relative_def UNITS_def js_round_def)
qed

end
