(* ===== verification/Checks.thy ===== *)
theory Checks
  imports CallSteps Connection
begin

text \<open>
  What the checks of the Agent workers and Phone bridge pages share: how serious a finding is, the check itself and
  the order both pages show their checks in; and times as the pages hold them, epoch numbers that are \<open>null\<close> where
  the source reported none.
\<close>

section \<open>Severity\<close>

datatype level = LvHigh | LvMedium | LvLow | LvInfo

text \<open>\<open>const rank = { high: 0, medium: 1, low: 2, info: 3 }\<close>: the most serious first.\<close>

fun level_rank :: "level \<Rightarrow> nat" where
  "level_rank LvHigh = 0"
| "level_rank LvMedium = 1"
| "level_rank LvLow = 2"
| "level_rank LvInfo = 3"

lemma level_rank_inj: "level_rank a = level_rank b \<longleftrightarrow> a = b"
  by (cases a; cases b) simp_all

instantiation level :: linorder
begin

definition less_eq_level :: "level \<Rightarrow> level \<Rightarrow> bool" where
  "less_eq_level a b \<longleftrightarrow> level_rank a \<le> level_rank b"

definition less_level :: "level \<Rightarrow> level \<Rightarrow> bool" where
  "less_level a b \<longleftrightarrow> level_rank a < level_rank b"

instance
  by standard (auto simp: less_eq_level_def less_level_def level_rank_inj)

end

lemma level_order [simp]:
  "LvHigh < LvMedium" "LvMedium < LvLow" "LvLow < LvInfo" "LvHigh < LvLow" "LvHigh < LvInfo" "LvMedium < LvInfo"
  "\<not> a < LvHigh" "\<not> LvInfo < a"
  by (simp_all add: less_level_def, cases a, simp_all)

record check =
  ck_severity :: level
  ck_title :: string
  ck_where :: string
  ck_why :: string
  ck_fix :: string
  ck_doc :: string

definition Check :: "level \<Rightarrow> string \<Rightarrow> string \<Rightarrow> string \<Rightarrow> string \<Rightarrow> string \<Rightarrow> check" where
  "Check sev title wh why fx doc =
     \<lparr>ck_severity = sev, ck_title = title, ck_where = wh, ck_why = why, ck_fix = fx, ck_doc = doc\<rparr>"

lemma Check_sel [simp]: "ck_severity (Check s t w y f d) = s" "ck_title (Check s t w y f d) = t" "ck_where (Check s t w y f d) = w"
  "ck_why (Check s t w y f d) = y"
  by (simp_all add: Check_def)

text \<open>\<open>out.sort((a, b) => rank[a.severity] - rank[b.severity])\<close>\<close>

definition check_before :: "check \<Rightarrow> check \<Rightarrow> bool" where
  "check_before a b \<longleftrightarrow> level_rank (ck_severity a) < level_rank (ck_severity b)"

interpretation check_ord: key_order ck_severity check_before
  by unfold_locales (simp add: check_before_def less_level_def)

definition LIVEKIT_DOCS :: string where
  "LIVEKIT_DOCS = ''https://docs.livekit.io''"

text \<open>\<open>cond ? [check] : []\<close>: a check that is pushed when its condition holds.\<close>

definition when_list :: "bool \<Rightarrow> 'a \<Rightarrow> 'a list" where
  "when_list b x = (if b then [x] else [])"

lemma set_when_list [simp]: "set (when_list b x) = (if b then {x} else {})"
  by (cases b) (simp_all add: when_list_def)

lemma when_list_simps [simp]: "when_list False x = []" "when_list True x = [x]"
  by (simp_all add: when_list_def)

lemma sorted_checks:
  "sorted (map ck_severity (sort_by check_before cs))" "set (sort_by check_before cs) = set cs"
  using check_ord.keys_sorted by simp_all

section \<open>Times\<close>

text \<open>\<open>t === null ? null : Date.parse(t)\<close>, and the same in seconds.\<close>

definition at_ms :: "string option \<Rightarrow> jsnum option" where
  "at_ms t = time_of t"

definition at_s :: "string option \<Rightarrow> jsnum option" where
  "at_s t = map_option (\<lambda>x. js_times x (1 / 1000)) (time_of t)"

text \<open>Adding a number.\<close>

fun js_shift :: "jsnum \<Rightarrow> num \<Rightarrow> jsnum" where
  "js_shift (Num x) k = Num (x + k)"
| "js_shift x k = x"

text \<open>\<open>[...xs].sort((a, b) => a - b)[Math.floor(xs.length / 2)]\<close> over numbers that may be \<open>NaN\<close>: a difference of
  \<open>NaN\<close> counts as no difference.\<close>

definition js_median :: "jsnum list \<Rightarrow> jsnum option" where
  "js_median xs = (if xs = [] then None else Some (sort_by js_lt xs ! (length xs div 2)))"

lemma sort_js_Num: "sort_by js_lt (map Num xs) = map Num (sort_by num_lt xs)"
proof -
  have "ins_by js_lt (Num x) (map Num ys) = map Num (ins_by num_lt x ys)" for x ys
    by (induction ys) (auto simp: num_lt_def)
  then have "foldr (ins_by js_lt) (map Num xs) [] = map Num (foldr (ins_by num_lt) xs [])"
    by (induction xs) simp_all
  then show ?thesis by (simp add: sort_by_def)
qed

lemma js_median_Num: "js_median (map Num xs) = map_option Num (median xs)"
  by (simp add: js_median_def median_def sort_js_Num)

end
