(* ===== verification/MediaRooms.thy ===== *)
theory MediaRooms
  imports Checks
begin

text \<open>
  The media server's rooms as the pages hold them (\<open>features/media-server/room-drawer.tsx\<close>): the contract's records
  with times as epoch numbers, where a room came from, and whether it was open when its watch ended. A record is
  parametrised by its times' type: texts in the contract, numbers in the view. A room's settings, permissions, tracks
  and recording pass through unread and are left out.
\<close>

section \<open>Records\<close>

record 't status_at =
  sa_at :: 't
  sa_status :: string

record 't sip_leg =
  sl_trunkId :: string
  sl_ruleId :: string
  sl_invited :: 't
  sl_trunkNumber :: string
  sl_twilio :: "bool option"
  sl_statuses :: "'t status_at list"

record 't participant =
  pt_sid :: string
  pt_kind :: string
  pt_region :: "string option"
  pt_joined :: 't
  pt_agentName :: "string option"
  pt_firstSeen :: 't
  pt_lastSeen :: 't
  pt_states :: "'t status_at list"
  pt_sip :: "'t sip_leg option"

record 't room_job =
  rj_id :: string
  rj_status :: string
  rj_statuses :: "'t status_at list"
  rj_started :: 't
  rj_workerId :: "string option"
  rj_agentId :: "string option"
  rj_recording :: "bool option"

record 't dispatch =
  dp_id :: string
  dp_agentName :: "string option"
  dp_created :: 't
  dp_jobs :: "'t room_job list"

record 't media_room =
  mr_sid :: string
  mr_name :: string
  mr_created :: 't
  mr_firstSeen :: 't
  mr_lastSeen :: 't
  mr_participants :: "'t participant list"
  mr_dispatches :: "'t dispatch list option"

record 't watch_window =
  ww_start :: 't
  ww_end :: 't

record 't media_server =
  ms_rooms :: "'t media_room list"
  ms_windows :: "'t watch_window list"

type_synonym at_text = "string option"
type_synonym at_num = "jsnum option"

text \<open>\<open>Room = RoomData & { n: number }\<close>: a room with its number on the page.\<close>

record 't numbered_room = "'t media_room" +
  nr_n :: nat

definition numbered :: "'t media_room \<Rightarrow> nat \<Rightarrow> 't numbered_room" where
  "numbered r n = media_room.extend r (numbered_room.fields n)"

section \<open>From the contract\<close>

definition view_at :: "at_text status_at \<Rightarrow> at_num status_at" where
  "view_at x = \<lparr>sa_at = at_s (sa_at x), sa_status = sa_status x\<rparr>"

definition view_sip :: "at_text sip_leg \<Rightarrow> at_num sip_leg" where
  "view_sip l = \<lparr>sl_trunkId = sl_trunkId l, sl_ruleId = sl_ruleId l, sl_invited = at_ms (sl_invited l),
     sl_trunkNumber = sl_trunkNumber l, sl_twilio = sl_twilio l, sl_statuses = map view_at (sl_statuses l)\<rparr>"

definition view_participant :: "at_text participant \<Rightarrow> at_num participant" where
  "view_participant p = \<lparr>pt_sid = pt_sid p, pt_kind = pt_kind p, pt_region = pt_region p, pt_joined = at_ms (pt_joined p),
     pt_agentName = pt_agentName p, pt_firstSeen = at_s (pt_firstSeen p), pt_lastSeen = at_s (pt_lastSeen p),
     pt_states = map view_at (pt_states p), pt_sip = map_option view_sip (pt_sip p)\<rparr>"

definition view_job :: "at_text room_job \<Rightarrow> at_num room_job" where
  "view_job j = \<lparr>rj_id = rj_id j, rj_status = rj_status j, rj_statuses = map view_at (rj_statuses j),
     rj_started = at_ms (rj_started j), rj_workerId = rj_workerId j,
     rj_agentId = rj_agentId j, rj_recording = rj_recording j\<rparr>"

definition view_dispatch :: "at_text dispatch \<Rightarrow> at_num dispatch" where
  "view_dispatch d = \<lparr>dp_id = dp_id d, dp_agentName = dp_agentName d, dp_created = at_ms (dp_created d),
     dp_jobs = map view_job (dp_jobs d)\<rparr>"

definition view_room :: "at_text media_room \<Rightarrow> at_num media_room" where
  "view_room r = \<lparr>mr_sid = mr_sid r, mr_name = mr_name r, mr_created = at_ms (mr_created r),
     mr_firstSeen = at_s (mr_firstSeen r), mr_lastSeen = at_s (mr_lastSeen r),
     mr_participants = map view_participant (mr_participants r),
     mr_dispatches = map_option (map view_dispatch) (mr_dispatches r)\<rparr>"

definition fromContract :: "at_text media_server \<Rightarrow> at_num media_server" where
  "fromContract m = \<lparr>ms_rooms = map view_room (ms_rooms m),
     ms_windows = map (\<lambda>w. \<lparr>ww_start = at_s (ww_start w), ww_end = at_s (ww_end w)\<rparr>) (ms_windows m)\<rparr>"

section \<open>Where a room came from\<close>

datatype origin_kind = PhoneIn | PhoneOut | Dispatched | OriginUnknown

record room_origin =
  ro_kind :: origin_kind
  ro_label :: string
  ro_note :: string
  ro_ruleId :: "string option"

text \<open>The leg of the first phone caller; a truthy agent name of a dispatch.\<close>

definition sip_of :: "('t, 'z) media_room_scheme \<Rightarrow> 't sip_leg option" where
  "sip_of r = Option.bind (find (\<lambda>p. pt_kind p = ''sip'') (mr_participants r)) pt_sip"

definition roomOrigin :: "(at_num, 'z) media_room_scheme \<Rightarrow> room_origin" where
  "roomOrigin r =
     (case sip_of r of
        Some l \<Rightarrow>
          if sl_ruleId l \<noteq> [] then
            \<lparr>ro_kind = PhoneIn, ro_label = ''Phone call'',
             ro_note = ''Inbound call through trunk '' @ sl_trunkId l @ '', placed in this room by dispatch rule '' @ sl_ruleId l @ ''.'',
             ro_ruleId = Some (sl_ruleId l)\<rparr>
          else
            \<lparr>ro_kind = PhoneOut, ro_label = ''Outbound call'',
             ro_note = ''A SIP participant with no dispatch rule: an outbound call through trunk '' @ sl_trunkId l @ ''.'',
             ro_ruleId = None\<rparr>
      | None \<Rightarrow>
          (case find (\<lambda>d. nonempty (dp_agentName d) \<noteq> None) (list_or (mr_dispatches r)) of
             Some d \<Rightarrow>
               \<lparr>ro_kind = Dispatched, ro_label = ''Agent dispatch'',
                ro_note = ''ListDispatch shows '' @ tmpl (dp_agentName d) @
                  '' dispatched here. Whether the API or a dispatch rule created it is not reported.'',
                ro_ruleId = None\<rparr>
           | None \<Rightarrow>
               \<lparr>ro_kind = OriginUnknown, ro_label = ''Origin unknown'',
                ro_note = (if mr_dispatches r = None then ''This watch kept no dispatch detail.''
                  else ''No dispatch and no phone caller seen: a client joined directly.''),
                ro_ruleId = None\<rparr>))"

section \<open>Watches\<close>

definition near :: "jsnum \<Rightarrow> jsnum \<Rightarrow> jsnum \<Rightarrow> bool" where
  "near x a b \<longleftrightarrow> js_le (js_shift a (- 1)) x \<and> js_le x (js_shift b 1)"

definition openAtWatchEnd :: "at_num \<Rightarrow> at_num media_server \<Rightarrow> bool" where
  "openAtWatchEnd lastSeen m \<longleftrightarrow>
     (case lastSeen of
        None \<Rightarrow> False
      | Some x \<Rightarrow> list_ex (\<lambda>w. case ww_end w of None \<Rightarrow> False | Some e \<Rightarrow> near x e e) (ms_windows m))"

definition windowOf :: "at_num \<Rightarrow> at_num media_server \<Rightarrow> at_num watch_window option" where
  "windowOf t m =
     (case t of
        None \<Rightarrow> None
      | Some x \<Rightarrow> find (\<lambda>w. case (ww_start w, ww_end w) of (Some a, Some b) \<Rightarrow> near x a b | _ \<Rightarrow> False) (ms_windows m))"

text \<open>A room or a watch without a known time is not claimed to be open, and a room that is open at a watch's end lies in
  a watch, if watches have a start before their end.\<close>

lemma open_needs_times:
  assumes "openAtWatchEnd t m"
  shows "\<exists>x w e. t = Some (Num x) \<and> w \<in> set (ms_windows m) \<and> ww_end w = Some (Num e) \<and> \<bar>x - e\<bar> \<le> 1 \<or>
    t = Some PosInf \<or> t = Some NegInf"
proof -
  from assms obtain x w e where w: "t = Some x" "w \<in> set (ms_windows m)" "ww_end w = Some e" "near x e e"
    by (auto simp: openAtWatchEnd_def list_ex_iff split: option.splits)
  then show ?thesis
    by (cases x; cases e) (auto simp: near_def js_le_def intro!: exI [of _ w])
qed

end
