(* ===== verification/Agents.thy ===== *)
theory Agents
  imports MediaRooms JsUrl
begin

text \<open>
  The agents of a project (\<open>features/agents/agents-model.ts\<close>) from two reads: LiveKit Cloud's agents, and the jobs and
  agent participants of the rooms that were watched. The agents are a \<open>Map\<close> by name, filled cloud agents first and
  then room by room; its objects are updated in place, which here is setting their key again. \<open>joinMs\<close> of the shared
  thresholds is \<open>JOIN_MS\<close>. An agent's list of versions passes through unread and is left out.
\<close>

section \<open>Quantities\<close>

definition js_over :: "jsnum \<Rightarrow> num \<Rightarrow> jsnum" where
  "js_over x k = js_times x (1 / k)"

definition cores :: "string option \<Rightarrow> jsnum option" where
  "cores q = map_option (\<lambda>t. if ends_with t ''m'' then js_over (js_number (butlast t)) 1000 else js_number t) q"

definition digit_or_dot :: "char \<Rightarrow> bool" where
  "digit_or_dot c \<longleftrightarrow> is_digit c \<or> c = CHR ''.''"

text \<open>The unit of \<open>/^([\d.]+)(Ki|Mi|Gi|Ti)?$/\<close>: what one GiB is in it; none is bytes.\<close>

definition gib_units :: "(string \<times> num) list" where
  "gib_units = [([], 1024 ^ 3), (''Ki'', 1024 ^ 2), (''Mi'', 1024), (''Gi'', 1), (''Ti'', 1 / 1024)]"

definition gib :: "string option \<Rightarrow> jsnum option" where
  "gib q = Option.bind q (\<lambda>t.
     let n = takeWhile digit_or_dot t in
     if n = [] then None else map_option (js_over (js_number n)) (map_of gib_units (dropWhile digit_or_dot t)))"

section \<open>Agents\<close>

record cloud_deployment =
  cd_deployment :: "string option"
  cd_region :: string
  cd_serverRegion :: string
  cd_status :: string
  cd_replicas :: "num option"
  cd_minReplicas :: "num option"
  cd_maxReplicas :: "num option"
  cd_curCpu :: "string option"
  cd_cpuReq :: "string option"
  cd_cpuLimit :: "string option"
  cd_curMem :: "string option"
  cd_memReq :: "string option"
  cd_memLimit :: "string option"
  cd_lastScrapedAt :: "string option"
  cd_version :: string

record cloud_agent =
  ca_id :: string
  ca_name :: "string option"
  ca_version :: "string option"
  ca_deployments :: "cloud_deployment list"

text \<open>\<open>CloudAgent & { deployment: Deployment | null }\<close>\<close>

record cloud_view = cloud_agent +
  cv_deployment :: "cloud_deployment option"

record job =
  jb_room :: "at_num numbered_room"
  jb_jobId :: string
  jb_workerId :: "string option"
  jb_status :: string
  jb_dispatchedMs :: jsnum
  jb_joinedMs :: "jsnum option"
  jb_failed :: bool
  jb_region :: "string option"

record agent =
  ag_key :: string
  ag_name :: "string option"
  ag_cloud :: "cloud_view option"
  ag_jobs :: "job list"
  ag_regions :: "string list"
  ag_workers :: "string list"

definition realVersion :: "string option \<Rightarrow> string option" where
  "realVersion v = (case nonempty v of Some t \<Rightarrow> if t \<noteq> ''---'' then Some t else None | None \<Rightarrow> None)"

text \<open>\<open>!d.deployment || d.deployment === 'production'\<close>\<close>

definition production :: "cloud_deployment \<Rightarrow> bool" where
  "production d \<longleftrightarrow> nonempty (cd_deployment d) = None \<or> cd_deployment d = Some ''production''"

definition shown_deployment :: "cloud_deployment list \<Rightarrow> cloud_deployment option" where
  "shown_deployment ds = (case find production ds of Some d \<Rightarrow> Some d | None \<Rightarrow> nth_opt ds 0)"

definition new_agent :: "string \<Rightarrow> string option \<Rightarrow> cloud_view option \<Rightarrow> agent" where
  "new_agent k nm cl = \<lparr>ag_key = k, ag_name = nm, ag_cloud = cl, ag_jobs = [], ag_regions = [], ag_workers = []\<rparr>"

definition cloud_key :: "cloud_agent \<Rightarrow> string" where
  "cloud_key c = or_val (ca_name c) (ca_id c)"

definition cloud_step :: "cloud_agent \<Rightarrow> (string \<times> agent) list \<Rightarrow> (string \<times> agent) list" where
  "cloud_step c = mp_set (cloud_key c) (new_agent (cloud_key c) (ca_name c)
     (Some (cloud_agent.extend (c\<lparr>ca_version := realVersion (ca_version c)\<rparr>) (cloud_view.fields (shown_deployment (ca_deployments c))))))"

section \<open>Jobs of a room\<close>

definition agents_in :: "('t, 'z) media_room_scheme \<Rightarrow> 't participant list" where
  "agents_in r = filter (\<lambda>p. pt_kind p = ''agent'') (mr_participants r)"

definition agent_label :: "'t participant \<Rightarrow> string" where
  "agent_label p = or_val (pt_agentName p) ''unnamed''"

definition labels_in :: "('t, 'z) media_room_scheme \<Rightarrow> string list" where
  "labels_in r = uniq (map agent_label (agents_in r))"

definition labelled :: "string \<Rightarrow> ('t, 'z) media_room_scheme \<Rightarrow> 't participant list" where
  "labelled n r = filter (\<lambda>p. agent_label p = n) (agents_in r)"

definition dispatched_jobs :: "string \<Rightarrow> ('t, 'z) media_room_scheme \<Rightarrow> ('t dispatch \<times> 't room_job) list" where
  "dispatched_jobs n r =
     concat (map (\<lambda>d. map (Pair d) (dp_jobs d)) (filter (\<lambda>d. dp_agentName d = Some n) (list_or (mr_dispatches r))))"

text \<open>The jobs an agent took in a room; without dispatch detail one job, its timing unknown.\<close>

definition room_jobs :: "string \<Rightarrow> at_num numbered_room \<Rightarrow> job list" where
  "room_jobs n r =
     (let ps = labelled n r; joined = Option.bind (nth_opt ps 0) pt_joined; region = Option.bind (nth_opt ps 0) pt_region
      in if dispatched_jobs n r \<noteq> [] then
           map (\<lambda>(d, j). \<lparr>jb_room = r, jb_jobId = rj_id j, jb_workerId = rj_workerId j, jb_status = rj_status j,
              jb_dispatchedMs = (case dp_created d of Some t \<Rightarrow> t | None \<Rightarrow> NaN), jb_joinedMs = joined,
              jb_failed = list_ex (\<lambda>s. sa_status s = ''JS_FAILED'') (rj_statuses j), jb_region = region\<rparr>) (dispatched_jobs n r)
         else [\<lparr>jb_room = r, jb_jobId = [], jb_workerId = None, jb_status = ''unknown'', jb_dispatchedMs = NaN,
              jb_joinedMs = joined, jb_failed = False, jb_region = region\<rparr>])"

text \<open>\<open>if (x && !xs.includes(x)) xs.push(x)\<close>\<close>

definition push_new :: "string option \<Rightarrow> string list \<Rightarrow> string list" where
  "push_new x xs = (case nonempty x of Some v \<Rightarrow> if v \<in> set xs then xs else xs @ [v] | None \<Rightarrow> xs)"

definition take_jobs :: "at_num numbered_room \<Rightarrow> string \<Rightarrow> agent \<Rightarrow> agent" where
  "take_jobs r n a =
     a\<lparr>ag_regions := fold push_new (map pt_region (labelled n r)) (ag_regions a),
       ag_workers := fold push_new (map (\<lambda>(d, j). rj_workerId j) (dispatched_jobs n r)) (ag_workers a),
       ag_jobs := ag_jobs a @ room_jobs n r\<rparr>"

definition agent_or_new :: "string \<Rightarrow> (string \<times> agent) list \<Rightarrow> agent" where
  "agent_or_new n m = (case map_of m n of Some a \<Rightarrow> a | None \<Rightarrow> new_agent n (Some n) None)"

definition label_step :: "at_num numbered_room \<Rightarrow> string \<Rightarrow> (string \<times> agent) list \<Rightarrow> (string \<times> agent) list" where
  "label_step r n m = mp_set n (take_jobs r n (agent_or_new n m)) m"

definition room_step :: "at_num numbered_room \<Rightarrow> (string \<times> agent) list \<Rightarrow> (string \<times> agent) list" where
  "room_step r = fold (label_step r) (labels_in r)"

text \<open>Agents with a cloud deployment first, then those with more jobs.\<close>

definition agent_rank :: "agent \<Rightarrow> nat \<times> int" where
  "agent_rank a = (if ag_cloud a \<noteq> None then 0 else 1, - int (length (ag_jobs a)))"

definition agent_before :: "agent \<Rightarrow> agent \<Rightarrow> bool" where
  "agent_before a b \<longleftrightarrow>
     (if (ag_cloud a \<noteq> None) \<noteq> (ag_cloud b \<noteq> None) then ag_cloud a \<noteq> None
      else length (ag_jobs b) < length (ag_jobs a))"

interpretation agent_ord: key_order agent_rank agent_before
  by unfold_locales (auto simp: agent_rank_def agent_before_def)

definition numbered_rooms :: "at_num media_server \<Rightarrow> at_num numbered_room list" where
  "numbered_rooms m = map (\<lambda>(k, r). numbered r (Suc k)) (indexed (ms_rooms m))"

definition by_name :: "cloud_agent list \<Rightarrow> at_num media_server \<Rightarrow> (string \<times> agent) list" where
  "by_name cloud m = fold room_step (numbered_rooms m) (fold cloud_step cloud [])"

definition agentsFrom :: "cloud_agent list \<Rightarrow> at_num media_server \<Rightarrow> agent list" where
  "agentsFrom cloud m = sort_by agent_before (map snd (by_name cloud m))"

definition joinDelays :: "job list \<Rightarrow> jsnum list" where
  "joinDelays js = map (\<lambda>j. js_over (js_minus (the (jb_joinedMs j)) (jb_dispatchedMs j)) 1000)
     (filter (\<lambda>j. is_finite (jb_dispatchedMs j) \<and> jb_joinedMs j \<noteq> None) js)"

definition reportedTime :: "(string \<Rightarrow> string) \<Rightarrow> string option \<Rightarrow> string" where
  "reportedTime fmt stamp = (case nonempty stamp of Some t \<Rightarrow> fmt t | None \<Rightarrow> ''not reported'')"

section \<open>Checks\<close>

text \<open>Agents we ran ourselves to capture test calls.\<close>

definition TEST_AGENTS :: "string list" where
  "TEST_AGENTS = [''vg-capture'']"

definition ERROR_STATUSES :: "string list" where
  "ERROR_STATUSES = [''Error'', ''CrashLoop'', ''Disabled'', ''Build Failed'', ''Server Error'', ''Suspended'']"

definition agent_place :: "agent \<Rightarrow> string" where
  "agent_place a = or_val (ag_name a) (ag_key a)"

definition is_test :: "agent \<Rightarrow> bool" where
  "is_test a \<longleftrightarrow> or_val (ag_name a) [] \<in> set TEST_AGENTS"

text \<open>\<open>a.cloud?.deployment\<close>\<close>

definition deployment_of :: "agent \<Rightarrow> cloud_deployment option" where
  "deployment_of a = Option.bind (ag_cloud a) cv_deployment"

definition status_of :: "agent \<Rightarrow> string option" where
  "status_of a = map_option cd_status (deployment_of a)"

definition cloud_id :: "agent \<Rightarrow> string" where
  "cloud_id a = (case ag_cloud a of Some c \<Rightarrow> ca_id c | None \<Rightarrow> [])"

definition broken :: "agent \<Rightarrow> bool" where
  "broken a \<longleftrightarrow> (case status_of a of Some s \<Rightarrow> s \<in> set ERROR_STATUSES | None \<Rightarrow> False)"

definition error_check :: "agent \<Rightarrow> check list" where
  "error_check a = when_list (broken a)
     (Check LvHigh (''Cloud agent is in '' @ tmpl (status_of a)) (cloud_id a)
        ''LiveKit Cloud reports the agent in an error state, so dispatches to it fail.''
        ''Check the agent's logs and deploy a fixed version.''
        (LIVEKIT_DOCS @ ''/reference/developer-tools/livekit-cli/agent/''))"

definition undeployed :: "agent \<Rightarrow> bool" where
  "undeployed a \<longleftrightarrow> status_of a = Some ''Setting Up'' \<and>
     (case ag_cloud a of Some c \<Rightarrow> nonempty (ca_version c) = None | None \<Rightarrow> False)"

definition undeployed_check :: "agent \<Rightarrow> check list" where
  "undeployed_check a = when_list (undeployed a)
     (Check LvLow ''Cloud agent never deployed'' (cloud_id a)
        ''The agent exists but has no name and no version and is still Setting Up. It takes no calls and holds a slot.''
        ''Deploy it, or delete it with lk agent delete.''
        (LIVEKIT_DOCS @ ''/deploy/agents/managing-deployments/''))"

definition asleep :: "agent \<Rightarrow> bool" where
  "asleep a \<longleftrightarrow> status_of a = Some ''Sleeping'' \<and> (case deployment_of a of Some d \<Rightarrow> production d | None \<Rightarrow> True)"

definition asleep_check :: "agent \<Rightarrow> check list" where
  "asleep_check a = when_list (asleep a)
     (Check LvMedium ''Production agent is asleep'' (cloud_id a)
        ''Production scaled to zero. The next caller waits for a cold start, which the docs put at 10 to 20 seconds, before the agent joins. Production stays warm on paid plans.''
        ''Move the project to a paid plan, or keep traffic flowing to it.''
        (LIVEKIT_DOCS @ ''/deploy/agents/managing-deployments/''))"

definition failed_jobs :: "agent \<Rightarrow> job list" where
  "failed_jobs a = filter jb_failed (ag_jobs a)"

definition failed_check :: "agent \<Rightarrow> check list" where
  "failed_check a =
     (let failed = failed_jobs a in when_list (failed \<noteq> [])
     (Check LvHigh
        ((if is_test a then ''Test data: '' else []) @ nat_str (length failed) @ '' '' @
          (if length failed = 1 then ''job'' else ''jobs'') @ '' failed and LiveKit retried'')
        (agent_place a)
        ((if is_test a then ''These jobs ran on VoiceGateway's own capture agent during our test calls, not on this project's agents. '' else []) @
          ''ListDispatch reported '' @ join '', '' (map jb_jobId failed) @
          '' as failed. LiveKit reassigns a failed job after about 15 seconds, so the caller waits in a room with no working agent.'')
        ''Read the worker's logs for the crash; the reason is not in the API.''
        (LIVEKIT_DOCS @ ''/agents/server/lifecycle/'')))"

definition slow_delay :: "num \<Rightarrow> jsnum \<Rightarrow> bool" where
  "slow_delay join_ms d \<longleftrightarrow> js_greater (js_times d 1000) join_ms"

definition slow_joining :: "num \<Rightarrow> agent \<Rightarrow> bool" where
  "slow_joining join_ms a \<longleftrightarrow> (case js_median (joinDelays (ag_jobs a)) of Some d \<Rightarrow> slow_delay join_ms d | None \<Rightarrow> False)"

definition slow_check :: "num \<Rightarrow> agent \<Rightarrow> check list" where
  "slow_check join_ms a = when_list (slow_joining join_ms a)
     (Check LvMedium
        (''Agent joins '' @ (case js_median (joinDelays (ag_jobs a)) of Some d \<Rightarrow> js_fixed 1 d | None \<Rightarrow> []) @
          '' s after dispatch, over the '' @ num_str (join_ms / 1000) @ '' s threshold'')
        (agent_place a)
        ''LiveKit dispatches in under 150 ms; the rest is the worker starting a process and connecting. The caller hears nothing meanwhile.''
        ''Keep idle processes warm (num_idle_processes) and move slow setup into prewarm.''
        (LIVEKIT_DOCS @ ''/agents/server/options/''))"

definition elsewhere :: "agent \<Rightarrow> bool" where
  "elsewhere a \<longleftrightarrow> ag_cloud a = None \<and> ag_jobs a \<noteq> []"

definition elsewhere_check :: "agent \<Rightarrow> check list" where
  "elsewhere_check a = when_list (elsewhere a)
     (Check LvLow ''Capacity unknown for an agent not deployed here'' (agent_place a)
        ''This agent is not a LiveKit Cloud deployment in this project, and no API lists other workers or their load. We see it only through the jobs it took.''
        ''Expose the worker's metrics endpoint or run the VoiceGateway SDK (Phase 2).''
        (LIVEKIT_DOCS @ ''/agents/server/options/''))"

definition agent_checks :: "num \<Rightarrow> agent \<Rightarrow> check list" where
  "agent_checks join_ms a = error_check a @ undeployed_check a @ asleep_check a @ failed_check a @ slow_check join_ms a @
     elsewhere_check a"

definition checks :: "num \<Rightarrow> agent list \<Rightarrow> check list" where
  "checks join_ms agents = sort_by check_before (concat (map (agent_checks join_ms) agents))"

section \<open>Every agent once, with its jobs room by room\<close>

lemma fields_of_new [simp]: "ag_jobs (new_agent k n c) = []" "ag_key (new_agent k n c) = k" "ag_cloud (new_agent k n c) = c"
  by (simp_all add: new_agent_def)

lemma take_jobs_fields [simp]: "ag_jobs (take_jobs r n a) = ag_jobs a @ room_jobs n r" "ag_key (take_jobs r n a) = ag_key a"
  "ag_cloud (take_jobs r n a) = ag_cloud a"
  by (simp_all add: take_jobs_def)

text \<open>What holds of the map at every moment: one entry per key, its agent having that key, and the jobs of the rooms
  taken so far.\<close>

definition jobs_so_far :: "at_num numbered_room list \<Rightarrow> string \<Rightarrow> job list" where
  "jobs_so_far rs k = concat (map (room_jobs k) (filter (\<lambda>r. k \<in> set (labels_in r)) rs))"

definition filed :: "(string \<Rightarrow> job list) \<Rightarrow> (string \<times> agent) list \<Rightarrow> bool" where
  "filed J m \<longleftrightarrow> distinct (map fst m) \<and> (\<forall>k a. map_of m k = Some a \<longrightarrow> ag_key a = k \<and> ag_jobs a = J k) \<and>
     (\<forall>k. map_of m k = None \<longrightarrow> J k = [])"

lemma filed_cloud: "filed (\<lambda>_. []) m \<Longrightarrow> filed (\<lambda>_. []) (cloud_step c m)"
  by (auto simp: filed_def cloud_step_def distinct_mp_set mp_store.get_put)

lemma filed_label: "filed J m \<Longrightarrow> filed (J(n := J n @ room_jobs n r)) (label_step r n m)"
  by (auto simp: filed_def label_step_def agent_or_new_def distinct_mp_set mp_store.get_put split: option.splits)

lemma filed_labels:
  "filed J m \<Longrightarrow> distinct ns \<Longrightarrow> filed (\<lambda>k. J k @ (if k \<in> set ns then room_jobs k r else [])) (fold (label_step r) ns m)"
proof (induction ns arbitrary: J m)
  case (Cons n ns)
  from filed_label [OF Cons.prems(1)] Cons.prems(2)
  have "filed (\<lambda>k. (J(n := J n @ room_jobs n r)) k @ (if k \<in> set ns then room_jobs k r else [])) (fold (label_step r) ns (label_step r n m))"
    by (intro Cons.IH) (auto simp del: fun_upd_apply)
  moreover have "(\<lambda>k. (J(n := J n @ room_jobs n r)) k @ (if k \<in> set ns then room_jobs k r else [])) =
      (\<lambda>k. J k @ (if k \<in> set (n # ns) then room_jobs k r else []))"
    using Cons.prems(2) by auto
  ultimately show ?case by simp
qed simp

lemma filed_rooms: "filed (jobs_so_far qs) m \<Longrightarrow> filed (jobs_so_far (qs @ rs)) (fold room_step rs m)"
proof (induction rs arbitrary: qs m)
  case (Cons r rs)
  have "(\<lambda>k. jobs_so_far qs k @ (if k \<in> set (labels_in r) then room_jobs k r else [])) = jobs_so_far (qs @ [r])"
    by (auto simp: jobs_so_far_def)
  with filed_labels [OF Cons.prems, of "labels_in r" r] have "filed (jobs_so_far (qs @ [r])) (room_step r m)"
    by (simp add: room_step_def labels_in_def)
  from Cons.IH [OF this] show ?case by simp
qed simp

lemma filed_by_name: "filed (jobs_so_far (numbered_rooms m)) (by_name cloud m)"
proof -
  have "filed (\<lambda>_. []) (fold cloud_step cs acc)" if "filed (\<lambda>_. []) acc" for cs acc
    using that by (induction cs arbitrary: acc) (auto intro: filed_cloud)
  from this [of "[]" cloud] have "filed (jobs_so_far []) (fold cloud_step cloud [])"
    by (simp add: jobs_so_far_def filed_def)
  from filed_rooms [OF this] show ?thesis by (simp add: by_name_def)
qed

lemma keys_rooms: "fst ` set (fold room_step rs m) = fst ` set m \<union> (\<Union>r \<in> set rs. set (labels_in r))"
proof (induction rs arbitrary: m)
  case (Cons r rs)
  have "fst ` set (fold (label_step r) ns m) = fst ` set m \<union> set ns" for ns m
    by (induction ns arbitrary: m) (auto simp: label_step_def keys_mp_set)
  with Cons show ?case by (simp add: room_step_def Un_assoc)
qed simp

lemma keys_cloud: "fst ` set (fold cloud_step cs m) = fst ` set m \<union> cloud_key ` set cs"
  by (induction cs arbitrary: m) (auto simp: cloud_step_def keys_mp_set)

lemma filed_members:
  assumes "filed J m" "(k, a) \<in> set m"
  shows "ag_key a = k \<and> ag_jobs a = J k"
  using assms by (auto simp: filed_def map_of_eq_Some_iff)

lemma keys_filed: "filed J m \<Longrightarrow> map ag_key (map snd m) = map fst m"
  by (auto intro: map_cong dest: filed_members)


section \<open>What the checks say\<close>

lemma set_agent_checks: "set (checks join_ms agents) = (\<Union>a \<in> set agents. set (agent_checks join_ms a))"
  by (simp add: checks_def)

lemmas agent_check_defs = agent_checks_def error_check_def undeployed_check_def asleep_check_def failed_check_def
  slow_check_def elsewhere_check_def Let_def

definition agent_fine :: "num \<Rightarrow> agent \<Rightarrow> bool" where
  "agent_fine join_ms a \<longleftrightarrow> \<not> broken a \<and> \<not> undeployed a \<and> \<not> asleep a \<and> \<not> list_ex jb_failed (ag_jobs a) \<and>
     \<not> slow_joining join_ms a \<and> (ag_cloud a \<noteq> None \<or> ag_jobs a = [])"


end
