(* ===== verification/Sip.thy ===== *)
theory Sip
  imports Checks JsUrl
begin

text \<open>
  The SIP setup of a project (\<open>features/sip/sip-model.ts\<close>): which path each number takes, what is wrong with each
  trunk and rule, and the hop-by-hop path of a number or an outbound trunk. A reading of \<open>undefined\<close>'s fields, which
  throws, is \<open>None\<close>. Addresses are ASCII where they are put in lower case.
\<close>

section \<open>The contract's records\<close>

record sip_media =
  sm_encryption :: "string option"
  sm_codecs :: "string list"
  sm_onlyListedCodecs :: "bool option"
  sm_mediaTimeout :: "string option"

record inbound_trunk =
  it_id :: string
  it_numbers :: "string list"
  it_allowedNumbers :: "num option"
  it_allowedAddresses :: "num option"
  it_auth :: "bool option"
  it_krisp :: "bool option"
  it_media :: sip_media

record outbound_trunk =
  ot_id :: string
  ot_address :: string
  ot_transport :: string
  ot_numbers :: "string list"
  ot_destinationCountry :: "string option"
  ot_auth :: "bool option"
  ot_headerNames :: "string list"
  ot_media :: sip_media

record sip_rule =
  sr_id :: string
  sr_type :: string
  sr_prefixSet :: "bool option"
  sr_pin :: "bool option"
  sr_trunkIds :: "string list"
  sr_hidePhoneNumber :: "bool option"
  sr_inboundNumbers :: "num option"
  sr_agents :: "num option"
  sr_media :: sip_media

record livekit_number =
  ln_number :: string
  ln_status :: "string option"
  ln_ruleIds :: "string list"

record sip_data =
  sd_livekitNumbers :: "livekit_number list"
  sd_inbound :: "inbound_trunk list"
  sd_outbound :: "outbound_trunk list"
  sd_rules :: "sip_rule list"

record call_hint =
  chn_trunkId :: "string option"
  chn_twilio :: bool

section \<open>Names\<close>

definition enc :: "string option \<Rightarrow> string" where
  "enc e = (if e = Some ''SIP_MEDIA_ENCRYPT_REQUIRE'' then ''SRTP''
     else if e = Some ''SIP_MEDIA_ENCRYPT_ALLOW'' then ''SRTP if offered'' else ''RTP'')"

text \<open>\<open>t.replace(word, '')\<close>: the first occurrence goes.\<close>

fun remove_first :: "string \<Rightarrow> string \<Rightarrow> string" where
  "remove_first w [] = []"
| "remove_first w (c # cs) = (if starts_with (c # cs) w then drop (length w) (c # cs) else c # remove_first w cs)"

definition transport :: "string \<Rightarrow> string" where
  "transport t = remove_first ''SIP_TRANSPORT_'' t"

definition drop_scheme :: "string \<Rightarrow> string" where
  "drop_scheme s = (if starts_with s ''sips:'' then drop 5 s else if starts_with s ''sip:'' then drop 4 s else s)"

definition drop_user :: "string \<Rightarrow> string" where
  "drop_user s = (case search (\<lambda>c. c = CHR ''@'') s of Some n \<Rightarrow> drop (Suc n) s | None \<Rightarrow> s)"

text \<open>\<open>/:\d+$/\<close>\<close>

definition drop_port :: "string \<Rightarrow> string" where
  "drop_port s =
     (let ds = takeWhile is_digit (rev s); before = dropWhile is_digit (rev s)
      in if ds \<noteq> [] \<and> before \<noteq> [] \<and> hd before = CHR '':'' then rev (tl before) else s)"

definition hostOf :: "string \<Rightarrow> string" where
  "hostOf address = lower (drop_port (drop_user (drop_scheme address)))"

definition onDomain :: "string \<Rightarrow> string \<Rightarrow> bool" where
  "onDomain host domain \<longleftrightarrow> host = domain \<or> ends_with host (''.'' @ domain)"

definition providerOf :: "string \<Rightarrow> string option" where
  "providerOf address =
     (let host = hostOf address in
      if onDomain host ''telnyx.com'' then Some ''Telnyx''
      else if onDomain host ''twilio.com'' then Some ''Twilio''
      else if onDomain host ''plivo.com'' then Some ''Plivo''
      else if has_sub host ''wavix'' then Some ''Wavix''
      else if has_sub host ''didlogic'' then Some ''didlogic''
      else if has_sub host ''sinch'' then Some ''Sinch''
      else None)"

section \<open>Routes\<close>

record provider =
  pv_name :: string
  pv_how :: string
  pv_known :: bool

record sip_route =
  rt_key :: string
  rt_number :: string
  rt_wildcard :: bool
  rt_livekit :: bool
  rt_trunk :: "inbound_trunk option"
  rt_rules :: "sip_rule list"
  rt_provider :: provider
  rt_duplicate :: bool

definition rulesFor :: "sip_data \<Rightarrow> inbound_trunk \<Rightarrow> sip_rule list" where
  "rulesFor d t = filter (\<lambda>r. it_id t \<in> set (sr_trunkIds r) \<or> sr_trunkIds r = []) (sd_rules d)"

definition dialled_by :: "sip_data \<Rightarrow> string \<Rightarrow> outbound_trunk option" where
  "dialled_by d n = find (\<lambda>o1. n \<in> set (ot_numbers o1)) (sd_outbound d)"

definition provider_name :: "outbound_trunk \<Rightarrow> string" where
  "provider_name o1 = or_val (providerOf (ot_address o1)) (ot_address o1)"

text \<open>\<open>t.numbers.map((n) => [n, outbound trunk of n]).find(([, x]) => x)\<close>\<close>

fun first_dialled :: "sip_data \<Rightarrow> string list \<Rightarrow> (string \<times> outbound_trunk) option" where
  "first_dialled d [] = None"
| "first_dialled d (n # ns) = (case dialled_by d n of Some o1 \<Rightarrow> Some (n, o1) | None \<Rightarrow> first_dialled d ns)"

definition providerFor :: "sip_data \<Rightarrow> string option \<Rightarrow> inbound_trunk option \<Rightarrow> call_hint list \<Rightarrow> provider" where
  "providerFor d number t0 hints =
     (case t0 of
        None \<Rightarrow> \<lparr>pv_name = ''LiveKit'', pv_how = ''A LiveKit Phone Number: no third-party trunk.'', pv_known = True\<rparr>
      | Some t \<Rightarrow>
     (case Option.bind (nonempty number) (dialled_by d) of
        Some o1 \<Rightarrow> \<lparr>pv_name = provider_name o1,
          pv_how = ''The same number is on outbound trunk '' @ ot_id o1 @ '', which dials '' @ ot_address o1 @ ''.'', pv_known = True\<rparr>
      | None \<Rightarrow>
     (case first_dialled d (it_numbers t) of
        Some (n, o1) \<Rightarrow> \<lparr>pv_name = provider_name o1,
          pv_how = ''Likely: another number on this trunk, '' @ n @ '', is on outbound trunk '' @ ot_id o1 @ '', which dials '' @
            ot_address o1 @ ''.'', pv_known = True\<rparr>
      | None \<Rightarrow>
          if list_ex (\<lambda>h. chn_trunkId h = Some (it_id t) \<and> chn_twilio h) hints
          then \<lparr>pv_name = ''Twilio'', pv_how = ''A watched call through this trunk carried sip.twilio.* attributes.'', pv_known = True\<rparr>
          else \<lparr>pv_name = ''Unknown provider'',
            pv_how = ''LiveKit does not report an inbound trunk's provider. No outbound trunk shares this number and no watched call has shown provider attributes.'',
            pv_known = False\<rparr>)))"

definition count_number :: "string \<Rightarrow> (string \<times> nat) list \<Rightarrow> (string \<times> nat) list" where
  "count_number n m = mp_set n (or_val (map_of m n) 0 + 1) m"

definition number_counts :: "sip_data \<Rightarrow> (string \<times> nat) list" where
  "number_counts d = fold (\<lambda>t. fold count_number (it_numbers t)) (sd_inbound d) []"

definition trunk_route :: "sip_data \<Rightarrow> call_hint list \<Rightarrow> inbound_trunk \<Rightarrow> string option \<Rightarrow> sip_route" where
  "trunk_route d hints t n =
     \<lparr>rt_key = it_id t @ '':'' @ or_val n ''*'', rt_number = or_val n ''Any number'', rt_wildcard = (n = None), rt_livekit = False,
      rt_trunk = Some t, rt_rules = rulesFor d t, rt_provider = providerFor d n (Some t) hints,
      rt_duplicate = (case n of Some x \<Rightarrow> 1 < or_val (map_of (number_counts d) x) 0 | None \<Rightarrow> False)\<rparr>"

definition livekit_route :: "sip_data \<Rightarrow> call_hint list \<Rightarrow> livekit_number \<Rightarrow> sip_route" where
  "livekit_route d hints l0 =
     \<lparr>rt_key = ''lk:'' @ ln_number l0, rt_number = ln_number l0, rt_wildcard = False, rt_livekit = True, rt_trunk = None,
      rt_rules = filter (\<lambda>r. sr_id r \<in> set (ln_ruleIds l0)) (sd_rules d),
      rt_provider = providerFor d (Some (ln_number l0)) None hints, rt_duplicate = False\<rparr>"

definition routes :: "sip_data \<Rightarrow> call_hint list \<Rightarrow> sip_route list" where
  "routes d hints =
     concat (map (\<lambda>t. map (trunk_route d hints t) (if it_numbers t \<noteq> [] then map Some (it_numbers t) else [None])) (sd_inbound d)) @
     map (livekit_route d hints) (sd_livekitNumbers d)"

section \<open>Paths\<close>

record in_path =
  ip_key :: string
  ip_trunk :: "inbound_trunk option"
  ip_rules :: "sip_rule list"
  ip_routes :: "sip_route list"
  ip_livekit :: bool
  ip_wildcard :: bool

definition route_path_key :: "sip_route \<Rightarrow> string" where
  "route_path_key r = or_val (map_option it_id (rt_trunk r)) ''livekit'' @ ''|'' @ join '','' (map sr_id (rt_rules r))"

definition add_route :: "sip_route \<Rightarrow> (string \<times> in_path) list \<Rightarrow> (string \<times> in_path) list" where
  "add_route r m =
     (let k = route_path_key r;
          p = or_val (map_of m k) \<lparr>ip_key = k, ip_trunk = rt_trunk r, ip_rules = rt_rules r, ip_routes = [],
                ip_livekit = rt_livekit r, ip_wildcard = False\<rparr>
      in mp_set k (p\<lparr>ip_routes := ip_routes p @ [r], ip_wildcard := ip_wildcard p \<or> rt_wildcard r\<rparr>) m)"

definition inPaths :: "sip_route list \<Rightarrow> in_path list" where
  "inPaths rows = map snd (fold add_route rows [])"

section \<open>Checks\<close>

definition rejected_check :: "sip_route \<Rightarrow> check" where
  "rejected_check r = Check LvHigh (''Calls to '' @ rt_number r @ '' are rejected'')
     (or_val (map_option it_id (rt_trunk r)) (rt_number r))
     (if rt_livekit r then ''This LiveKit number has no dispatch rule assigned.''
      else ''No dispatch rule matches this trunk, so LiveKit has nowhere to put the caller.'')
     (if rt_livekit r then ''Assign a dispatch rule to the number.''
      else ''Create a dispatch rule bound to this trunk, or one with no trunk filter.'')
     (LIVEKIT_DOCS @ ''/telephony/accepting-calls/dispatch-rule/'')"

definition ambiguous :: "sip_data \<Rightarrow> inbound_trunk \<Rightarrow> bool" where
  "ambiguous d t \<longleftrightarrow> 1 < length (filter (\<lambda>r. sr_pin r = Some False) (rulesFor d t))"

definition ambiguous_check :: "sip_data \<Rightarrow> inbound_trunk \<Rightarrow> check list" where
  "ambiguous_check d t = when_list (ambiguous d t)
     (Check LvMedium (nat_str (length (rulesFor d t)) @ '' dispatch rules match one trunk with no PIN to tell them apart'') (it_id t)
        (''Rules '' @ join '', '' (map sr_id (rulesFor d t)) @
          '' all match calls on this trunk. Multiple rules on a trunk are meant to differ by PIN.'')
        ''Bind each rule to its own trunk, or give each a PIN.'' (LIVEKIT_DOCS @ ''/telephony/accepting-calls/dispatch-rule/''))"

definition shared_check :: "sip_route list \<Rightarrow> string \<Rightarrow> check" where
  "shared_check rows n = Check LvMedium (n @ '' is on more than one inbound trunk'')
     (join '', '' (map (\<lambda>r. or_val (map_option it_id (rt_trunk r)) []) (filter (\<lambda>r. rt_number r = n) rows)))
     ''Which trunk, and so which rule and agent, takes the call is not obvious from the config.''
     ''Keep each number on one inbound trunk.'' (LIVEKIT_DOCS @ ''/telephony/accepting-calls/inbound-trunk/'')"

text \<open>Each must be reported off.\<close>

definition open_to_all :: "inbound_trunk \<Rightarrow> bool" where
  "open_to_all t \<longleftrightarrow> it_auth t = Some False \<and> it_allowedAddresses t = Some 0 \<and> it_allowedNumbers t = Some 0"

definition plain_media :: "sip_media \<Rightarrow> bool" where
  "plain_media m \<longleftrightarrow> enc (sm_encryption m) = ''RTP''"

definition inbound_checks :: "inbound_trunk \<Rightarrow> check list" where
  "inbound_checks t =
     when_list (open_to_all t)
       (Check LvHigh ''Inbound trunk accepts calls from any source'' (it_id t)
          ''No IP allowlist, no auth and no allowed caller numbers. Anything that sends an INVITE for these numbers reaches the agent, and every such call spends model minutes.''
          ''Set allowed_addresses to your provider's signalling IPs (LiveKit enables the field on request), or auth if your provider supports it.''
          (LIVEKIT_DOCS @ ''/telephony/accepting-calls/inbound-trunk/'')) @
     when_list (plain_media (it_media t))
       (Check LvMedium ''Inbound calls are not encrypted'' (it_id t)
          ''Media encryption is off, so phone audio travels as plain RTP between the provider and LiveKit.''
          ''Enable SRTP and TLS on the provider, then set media encryption to allow or require on the trunk.''
          (LIVEKIT_DOCS @ ''/telephony/features/secure-trunking/''))"

definition by_address :: "outbound_trunk \<Rightarrow> bool" where
  "by_address t \<longleftrightarrow> providerOf (ot_address t) = Some ''Telnyx'' \<and> ''X-Telnyx-Username'' \<notin> set (ot_headerNames t)"

definition outbound_checks :: "outbound_trunk \<Rightarrow> check list" where
  "outbound_checks t =
     when_list (by_address t)
       (Check LvHigh ''Telnyx may match calls by IP, not by your credentials'' (ot_id t)
          ''The trunk does not send X-Telnyx-Username. Without it Telnyx can skip the auth challenge and authenticate by source IP, and the matched connection could belong to another customer.''
          ''Add X-Telnyx-Username with your username to the outbound trunk's headers.''
          (LIVEKIT_DOCS @ ''/telephony/start/providers/telnyx/'')) @
     when_list (transport (ot_transport t) \<noteq> ''TLS'')
       (Check LvMedium (''Outbound signalling uses '' @ transport (ot_transport t) @ '', not TLS'') (ot_id t)
          ''Call setup, including caller and callee numbers, crosses the internet unencrypted.''
          ''Set transport to TLS on the trunk and enable TLS with the provider.''
          (LIVEKIT_DOCS @ ''/telephony/features/secure-trunking/'')) @
     when_list (plain_media (ot_media t))
       (Check LvMedium ''Outbound calls are not encrypted'' (ot_id t)
          ''Media encryption is off, so audio to the provider is plain RTP.''
          ''Set media encryption to allow or require, with SRTP enabled on the provider.''
          (LIVEKIT_DOCS @ ''/telephony/features/secure-trunking/'')) @
     when_list (nonempty (ot_destinationCountry t) = None)
       (Check LvLow ''Outbound calls are not region pinned'' (ot_id t)
          ''No destination_country, so calls leave from the region nearest the API call. This matters only where regulation keeps calls in-country.''
          ''Set destination_country on the trunk if calls must stay in one country.''
          (LIVEKIT_DOCS @ ''/telephony/features/region-pinning/''))"

definition rule_checks :: "sip_data \<Rightarrow> sip_rule \<Rightarrow> check list" where
  "rule_checks d r =
     when_list (sr_type r = ''dispatchRuleIndividual'' \<and> sr_hidePhoneNumber r = Some False)
       (Check LvMedium ''Room names contain the caller's phone number'' (sr_id r)
          ''An individual rule names each room after the caller's number. Room names land in logs and traces and PII redaction does not remove them.''
          ''Route each call to a predetermined room ID, and set hide_phone_number on the rule.''
          (LIVEKIT_DOCS @ ''/telephony/accepting-calls/dispatch-rule/'')) @
     when_list (sr_trunkIds r = [] \<and> 1 < length (sd_inbound d))
       (Check LvLow ''Dispatch rule matches every trunk'' (sr_id r)
          ''With no trunk_ids, calls on any trunk can use this rule.'' ''Bind the rule to its trunk.''
          (LIVEKIT_DOCS @ ''/telephony/accepting-calls/dispatch-rule/'')) @
     when_list (sr_type r = ''dispatchRuleDirect'' \<and> sr_pin r = Some False)
       (Check LvMedium ''Callers share one room'' (sr_id r)
          ''A direct rule with no PIN puts unrelated callers in the same room, where they can hear each other.''
          ''Use an individual rule, or a callee rule with randomize on.''
          (LIVEKIT_DOCS @ ''/telephony/accepting-calls/dispatch-rule/'')) @
     when_list (sr_agents r = Some 0)
       (Check LvLow ''Dispatch rule sends no agent'' (sr_id r)
          ''Callers wait in an empty room unless something else dispatches an agent.''
          ''Add the agent to the rule's room_config.'' (LIVEKIT_DOCS @ ''/telephony/accepting-calls/dispatch-rule/''))"

definition sip_checks :: "sip_data \<Rightarrow> sip_route list \<Rightarrow> check list" where
  "sip_checks d rows = sort_by check_before
     (map rejected_check (filter (\<lambda>r. rt_rules r = []) rows) @
      concat (map (ambiguous_check d) (sd_inbound d)) @
      map (shared_check rows) (uniq (map rt_number (filter rt_duplicate rows))) @
      concat (map inbound_checks (sd_inbound d)) @
      concat (map outbound_checks (sd_outbound d)) @
      concat (map (rule_checks d) (sd_rules d)))"

section \<open>The hops of a path\<close>

datatype hop_icon = IconPhone | IconProvider | IconSip | IconRoom | IconAgent

record hop =
  hp_icon :: hop_icon
  hp_title :: string
  hp_sub :: "string option"
  hp_tags :: "string list option"
  hp_issues :: "(string \<times> level) list option"

record path_link =
  pl_label :: string
  pl_secure :: "bool option"
  pl_note :: string

record sip_path =
  pa_hops :: "hop list"
  pa_links :: "path_link list"

definition Hop :: "hop_icon \<Rightarrow> string \<Rightarrow> string option \<Rightarrow> string list option \<Rightarrow> (string \<times> level) list option \<Rightarrow> hop" where
  "Hop i t s g z = \<lparr>hp_icon = i, hp_title = t, hp_sub = s, hp_tags = g, hp_issues = z\<rparr>"

definition Link :: "string \<Rightarrow> bool option \<Rightarrow> string \<Rightarrow> path_link" where
  "Link l s n = \<lparr>pl_label = l, pl_secure = s, pl_note = n\<rparr>"

text \<open>The checks whose place names one of the ids.\<close>

definition issuesFor :: "check list \<Rightarrow> string option list \<Rightarrow> (string \<times> level) list" where
  "issuesFor cs ids = map (\<lambda>c. (ck_title c, ck_severity c))
     (filter (\<lambda>c. list_ex (\<lambda>i. case nonempty i of Some v \<Rightarrow> v \<in> set (split '', '' (ck_where c)) | None \<Rightarrow> False) ids) cs)"

definition many :: "string list \<Rightarrow> string \<Rightarrow> string" where
  "many xs what = (case xs of [x] \<Rightarrow> x | _ \<Rightarrow> nat_str (length xs) @ '' '' @ what)"

definition krisp_tag :: "inbound_trunk \<Rightarrow> string" where
  "krisp_tag t = (case it_krisp t of None \<Rightarrow> ''Krisp unknown'' | Some b \<Rightarrow> if b then ''Krisp on'' else ''Krisp off'')"

definition pin_tag :: "sip_rule \<Rightarrow> string" where
  "pin_tag r = (case sr_pin r of None \<Rightarrow> ''PIN unknown'' | Some b \<Rightarrow> if b then ''PIN'' else ''no PIN'')"

definition room_hop :: "in_path \<Rightarrow> check list \<Rightarrow> hop" where
  "room_hop p cs =
     (let rule = nth_opt (ip_rules p) 0 in
      Hop IconRoom
       (case rule of None \<Rightarrow> ''No rule''
        | Some r \<Rightarrow> if sr_type r = ''dispatchRuleIndividual'' then ''Room per caller''
            else if sr_type r = ''dispatchRuleDirect'' then ''Shared room'' else ''Room per number'')
       (map_option (\<lambda>r. if 1 < length (ip_rules p) then sr_id r @ '' +'' @ nat_str (length (ip_rules p) - 1) else sr_id r) rule)
       (map_option (\<lambda>r. [pin_tag r]) rule)
       (Some (issuesFor cs (map (\<lambda>r. Some (sr_id r)) (ip_rules p)))))"

definition agent_hop :: "in_path \<Rightarrow> hop" where
  "agent_hop p =
     (case Option.bind (nth_opt (ip_rules p) 0) sr_agents of
        None \<Rightarrow> Hop IconAgent ''Agent unknown'' None None None
      | Some n \<Rightarrow> if n = 0 then Hop IconAgent ''No agent'' None None None
          else Hop IconAgent ''Agent'' (Some ''name withheld'') None None)"

text \<open>The provider's link; \<open>None\<close>: the id of a missing trunk is read.\<close>

definition provider_link :: "in_path \<Rightarrow> path_link option" where
  "provider_link p =
     (if ip_livekit p then
        Some (Link ''LiveKit network'' None ''A LiveKit Phone Number: the provider leg is run by LiveKit and not reported.'')
      else map_option (\<lambda>t.
        let media = enc (sm_encryption (it_media t)) in
        Link media (Some (media \<noteq> ''RTP''))
          (''Media encryption on inbound trunk '' @ it_id t @ '' is '' @
            (if media = ''RTP'' then ''off, so audio arrives as plain RTP'' else media) @
            ''. Whether the provider signals over UDP, TCP or TLS is set on the provider side and is not in the API.''))
        (ip_trunk p))"

definition inboundPath :: "in_path \<Rightarrow> check list \<Rightarrow> sip_path option" where
  "inboundPath p cs =
     (let names = uniq (map (\<lambda>r. pv_name (rt_provider r)) (ip_routes p));
          known = list_all (\<lambda>r. pv_known (rt_provider r)) (ip_routes p);
          nums = map rt_number (filter (\<lambda>r. \<not> rt_wildcard r) (ip_routes p));
          tid = map_option it_id (ip_trunk p)
      in map_option (\<lambda>lk.
        \<lparr>pa_hops =
           [Hop IconPhone ''Caller'' (Some ''phone network'') None None,
            Hop IconProvider (many names ''providers'')
              (Some (if ip_livekit p then ''LiveKit number'' else if known then ''provider, inferred'' else ''not all reported''))
              (Some [if ip_wildcard p then ''any number'' else many nums ''numbers'']) None,
            Hop IconSip ''LiveKit SIP'' (Some (or_val tid ''managed by LiveKit'')) (map_option (\<lambda>t. [krisp_tag t]) (ip_trunk p))
              (Some (issuesFor cs (tid # map Some nums))),
            room_hop p cs, agent_hop p],
         pa_links =
           [Link ''PSTN'' None ''The phone network leg, outside what LiveKit reports.'', lk,
            Link ''in LiveKit'' None ''Bridged inside LiveKit. Not reported.'',
            Link ''WebRTC'' (Some True)
              ''Inferred: WebRTC always encrypts with DTLS-SRTP. End-to-end encryption is off, so LiveKit can hear the audio.'']\<rparr>)
        (provider_link p))"

definition outboundPath :: "outbound_trunk \<Rightarrow> check list \<Rightarrow> sip_path" where
  "outboundPath t cs =
     (let media = enc (sm_encryption (ot_media t)); tp = transport (ot_transport t) in
      \<lparr>pa_hops =
         [Hop IconAgent ''Agent'' (Some ''dials out'') None None,
          Hop IconRoom ''Room'' (Some ''CreateSIPParticipant'') None None,
          Hop IconSip ''LiveKit SIP'' (Some (ot_id t))
            (Some [case ot_auth t of None \<Rightarrow> ''auth unknown'' | Some b \<Rightarrow> if b then ''auth set'' else ''no auth''])
            (Some (issuesFor cs [Some (ot_id t)])),
          Hop IconProvider (or_val (providerOf (ot_address t)) ''Provider'') (Some (ot_address t))
            (Some [if length (ot_numbers t) = 1 then ''1 caller ID'' else nat_str (length (ot_numbers t)) @ '' caller IDs'']) None,
          Hop IconPhone ''Callee'' (Some ''phone network'') None None],
       pa_links =
         [Link ''WebRTC'' (Some True) ''Inferred: WebRTC always encrypts with DTLS-SRTP.'',
          Link ''in LiveKit'' None ''Bridged inside LiveKit. Not reported.'',
          Link (tp @ '' '' @ middot @ '' '' @ media) (Some (tp = ''TLS'' \<and> media \<noteq> ''RTP''))
            (''Signalling over '' @ tp @ (if tp = ''TLS'' then [] else '' (unencrypted)'') @ ''; media '' @
              (if media = ''RTP'' then ''is plain RTP'' else ''is '' @ media) @ ''. From outbound trunk '' @ ot_id t @ ''.''),
          Link ''PSTN'' None ''The phone network leg, outside what LiveKit reports.'']\<rparr>)"

section \<open>Paths share out the routes\<close>

definition opened_by :: "in_path \<Rightarrow> sip_route \<Rightarrow> bool" where
  "opened_by p r \<longleftrightarrow> ip_trunk p = rt_trunk r \<and> ip_rules p = rt_rules r \<and> ip_livekit p = rt_livekit r"

definition path_of :: "sip_route list \<Rightarrow> string \<Rightarrow> in_path \<Rightarrow> bool" where
  "path_of rs k p \<longleftrightarrow> ip_key p = k \<and> ip_routes p = filter (\<lambda>r. route_path_key r = k) rs \<and>
     (ip_wildcard p \<longleftrightarrow> list_ex rt_wildcard (ip_routes p)) \<and> ip_routes p \<noteq> [] \<and> opened_by p (hd (ip_routes p))"

definition shared_out :: "sip_route list \<Rightarrow> (string \<times> in_path) list \<Rightarrow> bool" where
  "shared_out rs m \<longleftrightarrow> distinct (map fst m) \<and>
     (\<forall>k. case map_of m k of Some p \<Rightarrow> path_of rs k p | None \<Rightarrow> filter (\<lambda>r. route_path_key r = k) rs = [])"

lemma path_ofD: "path_of rs k p \<Longrightarrow> ip_key p = k" "path_of rs k p \<Longrightarrow> ip_routes p = filter (\<lambda>r. route_path_key r = k) rs"
  "path_of rs k p \<Longrightarrow> ip_wildcard p = list_ex rt_wildcard (ip_routes p)" "path_of rs k p \<Longrightarrow> ip_routes p \<noteq> []"
  "path_of rs k p \<Longrightarrow> opened_by p (hd (ip_routes p))"
  unfolding path_of_def by blast+

lemma path_ofI:
  assumes "ip_key p = k" "ip_routes p = filter (\<lambda>r. route_path_key r = k) rs" "ip_wildcard p = list_ex rt_wildcard (ip_routes p)"
    "ip_routes p \<noteq> []" "opened_by p (hd (ip_routes p))"
  shows "path_of rs k p"
  using assms unfolding path_of_def by blast

lemma path_of_next:
  assumes "path_of rs k p" "route_path_key r = k"
  shows "path_of (rs @ [r]) k (p\<lparr>ip_routes := ip_routes p @ [r], ip_wildcard := ip_wildcard p \<or> rt_wildcard r\<rparr>)"
proof (rule path_ofI)
  note p = path_ofD [OF assms(1)]
  let ?q = "p\<lparr>ip_routes := ip_routes p @ [r], ip_wildcard := ip_wildcard p \<or> rt_wildcard r\<rparr>"
  show "ip_routes ?q = filter (\<lambda>r. route_path_key r = k) (rs @ [r])" using p(2) assms(2) by simp
  show "ip_wildcard ?q = list_ex rt_wildcard (ip_routes ?q)" using p(3) by simp
  show "opened_by ?q (hd (ip_routes ?q))" using p(4,5) by (simp add: opened_by_def)
  show "ip_key ?q = k" "ip_routes ?q \<noteq> []" using p(1) by simp_all
qed

lemma path_of_first:
  assumes "filter (\<lambda>r. route_path_key r = k) rs = []" "route_path_key r = k"
  shows "path_of (rs @ [r]) k \<lparr>ip_key = k, ip_trunk = rt_trunk r, ip_rules = rt_rules r, ip_routes = [r],
    ip_livekit = rt_livekit r, ip_wildcard = rt_wildcard r\<rparr>"
proof (rule path_ofI)
  show "ip_routes \<lparr>ip_key = k, ip_trunk = rt_trunk r, ip_rules = rt_rules r, ip_routes = [r],
    ip_livekit = rt_livekit r, ip_wildcard = rt_wildcard r\<rparr> = filter (\<lambda>r. route_path_key r = k) (rs @ [r])"
    unfolding filter_append assms(1) using assms(2) by simp
qed (simp_all add: opened_by_def)

lemma path_of_other: "route_path_key r \<noteq> k \<Longrightarrow> path_of (rs @ [r]) k p = path_of rs k p"
  by (simp add: path_of_def)

lemma shared_out_add: "shared_out rs m \<Longrightarrow> shared_out (rs @ [r]) (add_route r m)"
proof -
  assume m: "shared_out rs m"
  have all: "case map_of (add_route r m) k of Some p \<Rightarrow> path_of (rs @ [r]) k p | None \<Rightarrow> filter (\<lambda>r. route_path_key r = k) (rs @ [r]) = []" for k
  proof -
    from m have k: "case map_of m k of Some p \<Rightarrow> path_of rs k p | None \<Rightarrow> filter (\<lambda>r. route_path_key r = k) rs = []"
      by (simp add: shared_out_def)
    show ?thesis
    proof (cases "k = route_path_key r")
      case True
      show ?thesis
      proof (cases "map_of m k")
        case None
        with k have "filter (\<lambda>r. route_path_key r = k) rs = []" by simp
        from path_of_first [OF this True [symmetric]] None True show ?thesis
          by (simp add: add_route_def Let_def mp_store.get_put or_val_def del: filter_append)
      next
        case (Some p)
        with k have "path_of rs k p" by simp
        from path_of_next [OF this True [symmetric]] Some True show ?thesis
          by (simp add: add_route_def Let_def mp_store.get_put or_val_def del: filter_append)
      qed
    next
      case False
      then have "map_of (add_route r m) k = map_of m k" by (simp add: add_route_def Let_def mp_store.get_put)
      moreover have "filter (\<lambda>r. route_path_key r = k) (rs @ [r]) = filter (\<lambda>r. route_path_key r = k) rs" using False by simp
      ultimately show ?thesis using k path_of_other [of r k rs] False by (simp split: option.split_asm option.split)
    qed
  qed
  moreover have "distinct (map fst (add_route r m))"
    using m by (simp add: shared_out_def add_route_def Let_def distinct_mp_set)
  ultimately show ?thesis unfolding shared_out_def by blast
qed

lemma shared_out_all: "shared_out rows (fold add_route rows [])"
proof (induction rows rule: rev_induct)
  case Nil
  then show ?case by (simp add: shared_out_def)
next
  case (snoc r rs)
  then show ?case using shared_out_add by simp
qed

lemma shared_out_member: "shared_out rs m \<Longrightarrow> (k, p) \<in> set m \<Longrightarrow> path_of rs k p"
proof -
  assume m: "shared_out rs m" and "(k, p) \<in> set m"
  then have "map_of m k = Some p" by (simp add: shared_out_def)
  moreover from m have "case map_of m k of Some p \<Rightarrow> path_of rs k p | None \<Rightarrow> filter (\<lambda>r. route_path_key r = k) rs = []"
    by (simp add: shared_out_def)
  ultimately show ?thesis by simp
qed

lemma keys_shared: "fst ` set (fold add_route rows m) = fst ` set m \<union> route_path_key ` set rows"
  by (induction rows arbitrary: m) (auto simp: add_route_def Let_def keys_mp_set)

lemma keys_paths: "map ip_key (inPaths rows) = map fst (fold add_route rows [])"
  using path_ofD(1) [OF shared_out_member [OF shared_out_all [of rows]]] by (auto simp: inPaths_def)


text \<open>Every path of the page can be drawn: no path without a trunk asks for its media.\<close>

theorem paths_drawn: "list_all (\<lambda>p. inboundPath p cs \<noteq> None) (inPaths (routes d hints))"
proof -
  have r: "rt_livekit r \<or> rt_trunk r \<noteq> None" if "r \<in> set (routes d hints)" for r
    using that by (auto simp: routes_def trunk_route_def livekit_route_def)
  have "ip_livekit p \<or> ip_trunk p \<noteq> None" if "p \<in> set (inPaths (routes d hints))" for p
  proof -
    from that obtain k where "(k, p) \<in> set (fold add_route (routes d hints) [])" by (auto simp: inPaths_def)
    note p = path_ofD [OF shared_out_member [OF shared_out_all this]]
    from hd_in_set [OF p(4)] have "hd (ip_routes p) \<in> set (filter (\<lambda>r. route_path_key r = k) (routes d hints))"
      by (subst (asm) (2) p(2))
    then have "hd (ip_routes p) \<in> set (routes d hints)" by simp
    from r [OF this] p(5) show ?thesis by (simp add: opened_by_def)
  qed
  then show ?thesis by (auto simp: list_all_iff inboundPath_def provider_link_def Let_def)
qed

section \<open>Numbers on two trunks\<close>

lemma count_numbers: "or_val (map_of (fold count_number ns m) n) 0 = or_val (map_of m n) 0 + count_list ns n"
  by (induction ns arbitrary: m) (auto simp: count_number_def mp_store.get_put or_val_def split: option.splits)

lemma number_counts_count: "or_val (map_of (number_counts d) n) 0 = count_list (concat (map it_numbers (sd_inbound d))) n"
proof -
  have "or_val (map_of (fold (\<lambda>t. fold count_number (it_numbers t)) ts m) n) 0 =
      or_val (map_of m n) 0 + count_list (concat (map it_numbers ts)) n" for ts m
    by (induction ts arbitrary: m) (simp_all add: count_numbers)
  from this [of "sd_inbound d" "[]"] show ?thesis by (simp add: number_counts_def or_val_def)
qed

section \<open>What the checks say\<close>

lemmas sip_check_defs = sip_checks_def rejected_check_def ambiguous_check_def shared_check_def inbound_checks_def
  outbound_checks_def rule_checks_def

text \<open>C40: The phone bridge's checks come most serious first, and a serious one stands there exactly when some number
  is rejected for want of a rule, some inbound trunk is reported open in all three ways (an unreported setting is no
  evidence), or some Telnyx trunk does not send its user name.\<close>

theorem sip_checks_exact:
  "sorted (map ck_severity (sip_checks d rows)) \<and>
   (LvHigh \<in> ck_severity ` set (sip_checks d rows) \<longleftrightarrow>
      list_ex (\<lambda>r. rt_rules r = []) rows \<or>
      list_ex (\<lambda>t. it_auth t = Some False \<and> it_allowedAddresses t = Some 0 \<and> it_allowedNumbers t = Some 0) (sd_inbound d) \<or>
      list_ex (\<lambda>t. providerOf (ot_address t) = Some ''Telnyx'' \<and> ''X-Telnyx-Username'' \<notin> set (ot_headerNames t)) (sd_outbound d))"
proof -
  have s: "set (sip_checks d rows) = rejected_check ` {r \<in> set rows. rt_rules r = []} \<union>
      (\<Union>t \<in> set (sd_inbound d). set (ambiguous_check d t)) \<union> shared_check rows ` rt_number ` {r \<in> set rows. rt_duplicate r} \<union>
      (\<Union>t \<in> set (sd_inbound d). set (inbound_checks t)) \<union> (\<Union>t \<in> set (sd_outbound d). set (outbound_checks t)) \<union>
      (\<Union>r \<in> set (sd_rules d). set (rule_checks d r))"
    by (simp add: sip_checks_def) blast
  have parts: "ck_severity (rejected_check r) = LvHigh" "LvHigh \<notin> ck_severity ` set (ambiguous_check d t)"
    "ck_severity (shared_check rows n) = LvMedium" "LvHigh \<in> ck_severity ` set (inbound_checks t) \<longleftrightarrow> open_to_all t"
    "LvHigh \<in> ck_severity ` set (outbound_checks o1) \<longleftrightarrow> by_address o1" "LvHigh \<notin> ck_severity ` set (rule_checks d r')" for r t n o1 r'
    by (auto simp: sip_check_defs)
  have "LvHigh \<in> ck_severity ` set (sip_checks d rows) \<longleftrightarrow>
      list_ex (\<lambda>r. rt_rules r = []) rows \<or> list_ex open_to_all (sd_inbound d) \<or> list_ex by_address (sd_outbound d)"
    unfolding s image_Un image_UN Un_iff UN_iff parts by (auto simp: list_ex_iff parts image_image)
  then show ?thesis by (simp add: sip_checks_def sorted_checks open_to_all_def by_address_def cong: list_ex_cong)
qed

end
