(* ===== verification/Alerts.thy ===== *)
theory Alerts
  imports Checks JsUrl
begin

text \<open>
  The alert rules of a project (\<open>features/alerts/alerts-model.ts\<close>) and the issues the console groups
  (\<open>features/issues/issues-model.ts\<close>): the page's view of each read, the rules' set-up with the change that is shown
  before the server answers, and how an issue's last sighting and evidence are read. A time that the source reported but
  that is no date is \<open>NaN\<close>.
\<close>

section \<open>Rules\<close>

datatype rule_id = SlowAnswer | CutOff | JobFailed | SlowJoin | PlainPhone | RecordingLost | IngressErr

definition RULE_IDS :: "rule_id list" where
  "RULE_IDS = [SlowAnswer, CutOff, JobFailed, SlowJoin, PlainPhone, RecordingLost, IngressErr]"

fun rule_text :: "rule_id \<Rightarrow> string" where
  "rule_text SlowAnswer = ''slow-answer''"
| "rule_text CutOff = ''cut-off''"
| "rule_text JobFailed = ''job-failed''"
| "rule_text SlowJoin = ''slow-join''"
| "rule_text PlainPhone = ''plain-phone''"
| "rule_text RecordingLost = ''recording-lost''"
| "rule_text IngressErr = ''ingress-error''"

lemma rule_text_inj [simp]: "rule_text a = rule_text b \<longleftrightarrow> a = b"
  by (cases a; cases b) simp_all

record rule_meta =
  rm_title :: string
  rm_condition :: string
  rm_source :: string
  rm_severity :: level

definition Rmeta :: "string \<Rightarrow> string \<Rightarrow> string \<Rightarrow> level \<Rightarrow> rule_meta" where
  "Rmeta t c s v = \<lparr>rm_title = t, rm_condition = c, rm_source = s, rm_severity = v\<rparr>"

fun meta :: "thresholds \<Rightarrow> rule_id \<Rightarrow> rule_meta" where
  "meta th SlowAnswer = Rmeta ''Slow answers''
     (''A call has a turn over the '' @ num_str (answerMs th / 1000) @ '' s answer time'') ''Calls'' LvMedium"
| "meta th CutOff = Rmeta ''Replies cut off'' ''The caller talks over the agent and it stops'' ''Calls'' LvMedium"
| "meta th JobFailed = Rmeta ''Agent job failed'' ''LiveKit reports an agent job as failed'' ''Agents'' LvHigh"
| "meta th SlowJoin = Rmeta ''Slow agent join''
     (''An agent joins more than '' @ num_str (joinMs th / 1000) @ '' s after dispatch'') ''Agents'' LvMedium"
| "meta th PlainPhone = Rmeta ''Unencrypted phone leg'' ''A SIP trunk carries audio as plain RTP'' ''Phone bridge'' LvMedium"
| "meta th RecordingLost = Rmeta ''Recording lost'' ''An egress recording fails to upload'' ''Egress'' LvHigh"
| "meta th IngressErr = Rmeta ''Ingress error'' ''An ingress endpoint goes into error'' ''Ingress'' LvHigh"

fun rule_page :: "rule_id \<Rightarrow> string" where
  "rule_page SlowAnswer = ''/calls''"
| "rule_page CutOff = ''/calls''"
| "rule_page JobFailed = ''/agents''"
| "rule_page SlowJoin = ''/agents''"
| "rule_page PlainPhone = ''/sip''"
| "rule_page RecordingLost = ''/egress''"
| "rule_page IngressErr = ''/ingress''"

text \<open>\<open>{ to: '/calls/$callId', callId }\<close> or a page.\<close>

datatype event_link = ToCall string | ToPage string

record alert_event =
  al_at :: "jsnum option"
  al_where :: string
  al_detail :: string
  al_link :: "event_link option"

record alert_rule =
  ar_id :: rule_id
  ar_meta :: rule_meta
  ar_events :: "alert_event list"
  ar_state :: "string option"

record contract_event =
  ce_at :: "string option"
  ce_where :: string
  ce_detail :: string
  ce_callId :: "string option"

record contract_rule =
  cr_ruleId :: rule_id
  cr_state :: "string option"
  cr_events :: "contract_event list"

definition event_view :: "rule_id \<Rightarrow> contract_event \<Rightarrow> alert_event" where
  "event_view i e = \<lparr>al_at = at_s (ce_at e), al_where = ce_where e, al_detail = ce_detail e,
     al_link = Some (case nonempty (ce_callId e) of Some c \<Rightarrow> ToCall c | None \<Rightarrow> ToPage (rule_page i))\<rparr>"

definition rulesFrom :: "thresholds \<Rightarrow> contract_rule list \<Rightarrow> alert_rule list" where
  "rulesFrom th rs = map (\<lambda>r. \<lparr>ar_id = cr_ruleId r, ar_meta = meta th (cr_ruleId r),
     ar_events = map (event_view (cr_ruleId r)) (cr_events r), ar_state = cr_state r\<rparr>) rs"

section \<open>Set-up\<close>

datatype alert_channel_kind = Slack | Teams | Discord | PagerDuty | Opsgenie | EmailKind | WebhookKind

definition CHANNELS :: "alert_channel_kind list" where
  "CHANNELS = [Slack, Teams, Discord, PagerDuty, Opsgenie, EmailKind, WebhookKind]"

fun channelName :: "alert_channel_kind \<Rightarrow> string" where
  "channelName Slack = ''Slack''"
| "channelName Teams = ''Microsoft Teams''"
| "channelName Discord = ''Discord''"
| "channelName PagerDuty = ''PagerDuty''"
| "channelName Opsgenie = ''Opsgenie''"
| "channelName EmailKind = ''Email''"
| "channelName WebhookKind = ''Webhook''"

record rule_switch =
  sw_on :: bool
  sw_to :: "alert_channel_kind list"

record rule_setup =
  rs_ruleId :: rule_id
  rs_switch :: rule_switch

definition setupFrom :: "rule_setup list \<Rightarrow> (rule_id \<times> rule_switch) list" where
  "setupFrom items = fold (\<lambda>r. mp_set (rs_ruleId r) (rs_switch r)) items []"

definition ruleSetup :: "(rule_id \<times> rule_switch) list \<Rightarrow> rule_id \<Rightarrow> rule_switch" where
  "ruleSetup s i = or_val (map_of s i) \<lparr>sw_on = True, sw_to = []\<rparr>"

text \<open>The cached set-up, \<open>undefined\<close> until read, and what a change under way may put back.\<close>

record rule_change =
  rc_on :: "bool option"
  rc_to :: "alert_channel_kind list option"

definition next_switch :: "(rule_id \<times> rule_switch) list \<Rightarrow> rule_id \<Rightarrow> rule_change \<Rightarrow> rule_switch" where
  "next_switch s i c = \<lparr>sw_on = or_val (rc_on c) (sw_on (ruleSetup s i)), sw_to = or_val (rc_to c) (sw_to (ruleSetup s i))\<rparr>"

definition switch_item :: "rule_id \<Rightarrow> rule_switch \<Rightarrow> rule_setup \<Rightarrow> rule_setup" where
  "switch_item i v r = (if rs_ruleId r = i then r\<lparr>rs_switch := v\<rparr> else r)"

text \<open>\<open>onMutate\<close>: the new cache and the context; \<open>onError\<close>: the cache once the server refused.\<close>

definition show_change :: "rule_id \<Rightarrow> rule_switch \<Rightarrow> rule_setup list option \<Rightarrow> rule_setup list option \<times> rule_setup list option" where
  "show_change i v cache = (map_option (map (switch_item i v)) cache, cache)"

definition refuse_change :: "rule_setup list option \<Rightarrow> rule_setup list option \<Rightarrow> rule_setup list option" where
  "refuse_change prior cache = (case prior of Some p \<Rightarrow> Some p | None \<Rightarrow> cache)"

lemma setupFrom_lookup: "map_of (setupFrom items) i = map_option rs_switch (find (\<lambda>r. rs_ruleId r = i) (rev items))"
proof -
  have "map_of (fold (\<lambda>r. mp_set (rs_ruleId r) (rs_switch r)) items m) i =
      (case find (\<lambda>r. rs_ruleId r = i) (rev items) of Some r \<Rightarrow> Some (rs_switch r) | None \<Rightarrow> map_of m i)" for m
    by (induction items rule: rev_induct) (simp_all add: mp_store.get_put)
  then show ?thesis by (simp add: setupFrom_def split: option.split)
qed

lemma find_switched: "find (\<lambda>r. rs_ruleId r = j) (map (switch_item i v) items) = map_option (switch_item i v) (find (\<lambda>r. rs_ruleId r = j) items)"
  by (induction items) (auto simp: switch_item_def)

text \<open>A change of a rule that is set up shows at once and touches no other rule; a refusal leaves the cache as it was.\<close>

lemma show_change_exact:
  assumes "find (\<lambda>r. rs_ruleId r = i) (rev items) \<noteq> None"
  shows "ruleSetup (setupFrom (map (switch_item i v) items)) j = (if j = i then v else ruleSetup (setupFrom items) j)"
proof (cases "find (\<lambda>r. rs_ruleId r = j) (rev items)")
  case None
  with assms find_switched [of j i v "rev items"] show ?thesis
    by (auto simp: ruleSetup_def setupFrom_lookup rev_map)
next
  case (Some r)
  then have "rs_ruleId r = j" by (auto dest: find_Some_in)
  with Some find_switched [of j i v "rev items"] show ?thesis
    by (simp add: ruleSetup_def setupFrom_lookup rev_map or_val_def switch_item_def)
qed

lemma refused_unchanged: "refuse_change (snd (show_change i v cache)) (fst (show_change i v cache)) = cache"
  by (cases cache) (simp_all add: show_change_def refuse_change_def)

section \<open>Incidents\<close>

record incident =
  in_id :: string
  in_ruleId :: rule_id
  in_subject :: string
  in_firing :: bool
  in_openedAt :: string
  in_resolvedAt :: "string option"
  in_byPerson :: "bool option"
  in_occurrences :: "nat option"
  in_last :: contract_event

text \<open>\<open>(out[i.ruleId] ??= []).push(i)\<close> for those that fire.\<close>

definition firingByRule :: "incident list \<Rightarrow> (rule_id \<times> incident list) list" where
  "firingByRule xs = fold (\<lambda>i m. if in_firing i then mp_set (in_ruleId i) (or_val (map_of m (in_ruleId i)) [] @ [i]) m else m) xs []"

lemma firingByRule_lookup:
  "or_val (map_of (firingByRule xs) r) [] = filter (\<lambda>i. in_firing i \<and> in_ruleId i = r) xs"
proof (induction xs rule: rev_induct)
  case (snoc x xs)
  then show ?case by (auto simp: firingByRule_def mp_store.get_put or_val_def)
qed (simp add: firingByRule_def or_val_def)

record alert_channel =
  ac_kind :: alert_channel_kind
  ac_target :: string
  ac_broken :: bool
  ac_lastState :: "string option"

definition failing :: "alert_channel list \<Rightarrow> alert_channel list" where
  "failing cs = filter (\<lambda>c. ac_broken c \<or> ac_lastState c = Some ''failed'') cs"

section \<open>Issues\<close>

datatype evidence = EvRecorded | EvCurrent | EvStale | EvUnavailable | EvUnknown

fun evidenceLabel :: "evidence \<Rightarrow> string" where
  "evidenceLabel EvRecorded = ''Recorded''"
| "evidenceLabel EvCurrent = ''Current''"
| "evidenceLabel EvStale = ''Stale''"
| "evidenceLabel EvUnavailable = ''Source unavailable''"
| "evidenceLabel EvUnknown = ''Not confirmed''"

datatype issue_kind = EventIssue | StandingIssue
datatype issue_source = FromCalls | FromWorkers | FromPhone | FromDelivery

record hit =
  ht_observedAt :: "jsnum option"
  ht_evidence :: evidence
  ht_at :: "jsnum option"
  ht_where :: string
  ht_detail :: string
  ht_callId :: "string option"

record issue =
  is_id :: string
  is_title :: string
  is_kind :: issue_kind
  is_severity :: level
  is_source :: string
  is_to :: string
  is_hits :: "hit list"

record contract_hit =
  ch_observedAt :: "string option"
  ch_evidence :: evidence
  ch_at :: "string option"
  ch_where :: string
  ch_detail :: string
  ch_callId :: "string option"

record contract_issue =
  ci_id :: string
  ci_title :: string
  ci_kind :: issue_kind
  ci_severity :: level
  ci_source :: issue_source
  ci_lastSeenAt :: "string option"
  ci_hits :: "contract_hit list"

text \<open>\<open>sourceView\<close>: a source's label and page.\<close>

fun source_label :: "issue_source \<Rightarrow> string" where
  "source_label FromCalls = ''Calls''"
| "source_label FromWorkers = ''Agent workers''"
| "source_label FromPhone = ''Phone bridge''"
| "source_label FromDelivery = ''Recordings and ingress''"

fun source_page :: "issue_source \<Rightarrow> string" where
  "source_page FromCalls = ''/calls''"
| "source_page FromWorkers = ''/agents''"
| "source_page FromPhone = ''/sip''"
| "source_page FromDelivery = ''/egress''"

definition issue_page :: "string \<Rightarrow> issue_source \<Rightarrow> string" where
  "issue_page i s = (if i = ''ingress-error'' then ''/ingress'' else source_page s)"

definition hit_view :: "contract_hit \<Rightarrow> hit" where
  "hit_view h = \<lparr>ht_observedAt = at_s (ch_observedAt h), ht_evidence = ch_evidence h, ht_at = at_s (ch_at h),
     ht_where = ch_where h, ht_detail = ch_detail h, ht_callId = ch_callId h\<rparr>"

definition issuesFrom :: "contract_issue list \<Rightarrow> issue list" where
  "issuesFrom xs = map (\<lambda>i. \<lparr>is_id = ci_id i, is_title = ci_title i, is_kind = ci_kind i, is_severity = ci_severity i,
     is_source = source_label (ci_source i), is_to = issue_page (ci_id i) (ci_source i), is_hits = map hit_view (ci_hits i)\<rparr>) xs"

definition time_or_never :: "jsnum option \<Rightarrow> jsnum" where
  "time_or_never t = or_val t NegInf"

definition lastSeen :: "issue \<Rightarrow> jsnum option" where
  "lastSeen i = (let t = js_max (map (\<lambda>h. time_or_never (ht_at h)) (is_hits i)) in if is_finite t then Some t else None)"

definition standingState :: "issue \<Rightarrow> evidence" where
  "standingState i =
     (case find (\<lambda>s. list_ex (\<lambda>h. ht_evidence h = s) (is_hits i)) [EvUnavailable, EvStale, EvUnknown] of
        Some s \<Rightarrow> s
      | None \<Rightarrow> if is_hits i \<noteq> [] \<and> list_all (\<lambda>h. ht_evidence h = EvCurrent) (is_hits i) then EvCurrent else EvUnknown)"

definition lastSortKey :: "issue \<Rightarrow> jsnum" where
  "lastSortKey i =
     (case is_kind i of
        StandingIssue \<Rightarrow>
          if standingState i = EvCurrent then PosInf else js_max (map (\<lambda>h. time_or_never (ht_observedAt h)) (is_hits i))
      | EventIssue \<Rightarrow> time_or_never (lastSeen i))"

datatype layer = LayerMedia | LayerSip | LayerCloud | LayerEgress | LayerIngress

fun layer_label :: "layer \<Rightarrow> string" where
  "layer_label LayerMedia = ''LiveKit SFU''"
| "layer_label LayerSip = ''SIP''"
| "layer_label LayerCloud = ''Cloud agents''"
| "layer_label LayerEgress = ''Egress''"
| "layer_label LayerIngress = ''Ingress''"

record coverage =
  cg_pendingCalls :: "nat option"
  cg_unavailableCalls :: "nat option"
  cg_pendingJobs :: "nat option"
  cg_sources :: "(layer \<times> string) list"

definition counted :: "nat option \<Rightarrow> string \<Rightarrow> string list" where
  "counted n what = (case n of Some k \<Rightarrow> if k = 0 then [] else [nat_str k @ what] | None \<Rightarrow> [])"

definition coverageSummary :: "coverage \<Rightarrow> string" where
  "coverageSummary c = join ('' '' @ middot @ '' '')
     (when_list (cg_pendingCalls c = None) ''Call evaluation status unknown'' @
      when_list (cg_unavailableCalls c = None) ''Call evidence availability unknown'' @
      when_list (cg_pendingJobs c = None) ''Job evaluation status unknown'' @
      counted (cg_pendingCalls c) '' calls pending evaluation'' @
      counted (cg_unavailableCalls c) '' calls with unavailable evidence'' @
      counted (cg_pendingJobs c) '' job observations pending evaluation'' @
      map (\<lambda>(l, s). layer_label l @ '': '' @ s) (filter (\<lambda>(l, s). s \<noteq> ''current'') (cg_sources c)))"

text \<open>An issue counts as current exactly when it has evidence and all of it is current; one unavailable hit outweighs
  everything else.\<close>

lemma standing_current: "standingState i = EvCurrent \<longleftrightarrow> is_hits i \<noteq> [] \<and> list_all (\<lambda>h. ht_evidence h = EvCurrent) (is_hits i)"
  by (auto simp: standingState_def list_ex_iff list_all_iff) 

lemma standing_unavailable: "standingState i = EvUnavailable \<longleftrightarrow> list_ex (\<lambda>h. ht_evidence h = EvUnavailable) (is_hits i)"
  by (auto simp: standingState_def)

text \<open>The latest dated hit.\<close>

lemma js_max_Num: "js_max (map (\<lambda>x. case x of Some t \<Rightarrow> Num t | None \<Rightarrow> NegInf) ts) =
    (if somes ts = [] then NegInf else Num (Max (set (somes ts))))"
proof (induction ts)
  case (Cons t ts)
  then show ?case by (cases t; cases "somes ts") (auto simp: js_max_def max_def)
qed (simp add: js_max_def)

lemma last_seen_latest:
  assumes "map ht_at (is_hits i) = map (map_option Num) ts"
  shows "lastSeen i = (if somes ts = [] then None else Some (Num (Max (set (somes ts)))))"
proof -
  have "map (\<lambda>h. time_or_never (ht_at h)) (is_hits i) = map time_or_never (map ht_at (is_hits i))" by simp
  also have "\<dots> = map (\<lambda>x. case x of Some t \<Rightarrow> Num t | None \<Rightarrow> NegInf) ts"
    unfolding assms by (simp add: time_or_never_def or_val_def split: option.split)
  finally show ?thesis by (simp add: lastSeen_def Let_def js_max_Num is_finite_def)
qed

end
