(* ===== verification/Insights.thy ===== *)
theory Insights
  imports Agents Sip Alerts CallSteps
begin

text \<open>
  What the server computes for the Issues and Alerts pages (\<open>mocks/insights.ts\<close>): the console's own checks (the call
  drawer's findings, the Agent workers and Phone bridge checks) grouped into issues, the seven alert rules with the
  events they would have fired on, and the incidents over them. \<open>evidence\<close> is what the mock serves: the calls that are
  no previews, and the five reads. Issue metadata is looked up beside and left out.
\<close>

section \<open>Evidence\<close>

record egress_file =
  ef_name :: string
  ef_durationS :: "num option"

record egress_item =
  eg_id :: string
  eg_room :: "string option"
  eg_status :: string
  eg_endedAt :: "string option"
  eg_error :: "string option"
  eg_file :: "egress_file option"

record ingress_item =
  ig_id :: string
  ig_name :: string
  ig_status :: string
  ig_error :: "string option"
  ig_endedAt :: "string option"

record evidence_read =
  ev_calls :: "call list"
  ev_cloud :: "cloud_agent list"
  ev_media :: "at_text media_server"
  ev_sip :: sip_data
  ev_egress :: "egress_item list"
  ev_ingress :: "ingress_item list"

definition iso_at :: "jsnum option \<Rightarrow> string option" where
  "iso_at s = (case s of Some (Num x) \<Rightarrow> if 0 < x then Some (to_iso (x * 1000)) else None | _ \<Rightarrow> None)"

definition is_dated :: "jsnum option \<Rightarrow> bool" where
  "is_dated s \<longleftrightarrow> (case s of Some (Num x) \<Rightarrow> 0 < x | _ \<Rightarrow> False)"

definition the_num :: "jsnum option \<Rightarrow> num" where
  "the_num s = (case s of Some (Num x) \<Rightarrow> x | _ \<Rightarrow> 0)"

definition within_range :: "num \<Rightarrow> num \<Rightarrow> jsnum option \<Rightarrow> bool" where
  "within_range from' to s \<longleftrightarrow> from' \<le> the_num s * 1000 \<and> the_num s * 1000 < to"

definition inRange :: "num \<Rightarrow> num \<Rightarrow> jsnum option \<Rightarrow> bool" where
  "inRange from' to s \<longleftrightarrow> \<not> is_dated s \<or> within_range from' to s"

definition rooms_of :: "evidence_read \<Rightarrow> at_num media_server" where
  "rooms_of e = fromContract (ev_media e)"

definition agents_of :: "evidence_read \<Rightarrow> agent list" where
  "agents_of e = agentsFrom (ev_cloud e) (rooms_of e)"

definition sipHints :: "evidence_read \<Rightarrow> call_hint list" where
  "sipHints e = concat (map (\<lambda>r. map (\<lambda>l. \<lparr>chn_trunkId = Some (sl_trunkId l), chn_twilio = (sl_twilio l = Some True)\<rparr>)
     (somes (map pt_sip (mr_participants r)))) (ms_rooms (rooms_of e)))"

definition phone_checks :: "evidence_read \<Rightarrow> check list" where
  "phone_checks e = sip_checks (ev_sip e) (routes (ev_sip e) (sipHints e))"

section \<open>Issues\<close>

definition finding_kinds :: "(string \<times> string) list" where
  "finding_kinds = [(''eot'', ''Waited for the end of the turn''), (''cut'', ''Replies cut off by the caller''),
     (''bc'', ''Backchannel answered as a turn''), (''slow'', ''Slow answers''), (''late'', ''Transcript arrived late''),
     (''discard'', ''Model calls thrown away''), (''zero'', ''Model reported 0 tokens''), (''tts'', ''Slow start of speech''),
     (''stall'', ''Agent process stalled''), (''rt'', ''No stage timings (realtime model)'')]"

text \<open>\<open>f.id.replace(/\d+$/, '')\<close>\<close>

definition finding_kind :: "string \<Rightarrow> string" where
  "finding_kind i = rev (dropWhile is_digit (rev i))"

fun finding_level :: "severity \<Rightarrow> level" where
  "finding_level High = LvHigh"
| "finding_level Medium = LvMedium"
| "finding_level InfoSev = LvInfo"

definition started_s :: "call \<Rightarrow> jsnum option" where
  "started_s c = at_s (Some (c_startedAt c))"

definition finding_hit :: "call \<Rightarrow> finding \<Rightarrow> hit" where
  "finding_hit c f = \<lparr>ht_observedAt = None, ht_evidence = EvRecorded,
     ht_at = (case started_s c of Some t \<Rightarrow> if is_finite t then Some t else None | None \<Rightarrow> None),
     ht_where = c_room c, ht_detail = fg_title f, ht_callId = Some (c_id c)\<rparr>"

definition new_event_issue :: "finding \<Rightarrow> issue" where
  "new_event_issue f = \<lparr>is_id = finding_kind (fg_id f), is_title = or_val (map_of finding_kinds (finding_kind (fg_id f))) (fg_title f),
     is_kind = EventIssue, is_severity = finding_level (fg_severity f), is_source = ''Calls'', is_to = ''/calls'', is_hits = []\<rparr>"

definition add_hit :: "hit \<Rightarrow> issue \<Rightarrow> issue" where
  "add_hit h i = i\<lparr>is_hits := is_hits i @ [h]\<rparr>"

definition raise_severity :: "level \<Rightarrow> issue \<Rightarrow> issue" where
  "raise_severity v i = (if level_rank v < level_rank (is_severity i) then i\<lparr>is_severity := v\<rparr> else i)"

definition take_finding :: "call \<times> finding \<Rightarrow> issue option \<Rightarrow> issue" where
  "take_finding cf i = add_hit (finding_hit (fst cf) (snd cf))
     (raise_severity (finding_level (fg_severity (snd cf))) (or_val i (new_event_issue (snd cf))))"

definition call_findings :: "thresholds \<Rightarrow> evidence_read \<Rightarrow> (call \<times> finding) list" where
  "call_findings th e = concat (map (\<lambda>c. map (Pair c) (findingsFor th c (buildModel c))) (ev_calls e))"

definition finding_key :: "call \<times> finding \<Rightarrow> string" where
  "finding_key cf = finding_kind (fg_id (snd cf))"

definition event_issues :: "thresholds \<Rightarrow> evidence_read \<Rightarrow> issue list" where
  "event_issues th e = map snd (fold (group_step finding_key take_finding) (call_findings th e) [])"

definition take_check :: "string \<Rightarrow> string \<Rightarrow> check \<Rightarrow> issue option \<Rightarrow> issue" where
  "take_check src to c i = add_hit
     \<lparr>ht_observedAt = None, ht_evidence = EvUnknown, ht_at = None, ht_where = ck_where c, ht_detail = ck_why c, ht_callId = None\<rparr>
     (or_val i \<lparr>is_id = to @ '':'' @ ck_title c, is_title = ck_title c, is_kind = StandingIssue, is_severity = ck_severity c,
        is_source = src, is_to = to, is_hits = []\<rparr>)"

definition fromChecks :: "string \<Rightarrow> string \<Rightarrow> check list \<Rightarrow> issue list" where
  "fromChecks src to cs = map snd (fold (group_step ck_title (take_check src to)) cs [])"

definition issue_before :: "issue \<Rightarrow> issue \<Rightarrow> bool" where
  "issue_before a b \<longleftrightarrow>
     (if level_rank (is_severity a) \<noteq> level_rank (is_severity b) then level_rank (is_severity a) < level_rank (is_severity b)
      else length (is_hits b) < length (is_hits a))"

definition issue_rank :: "issue \<Rightarrow> level \<times> int" where
  "issue_rank i = (is_severity i, - int (length (is_hits i)))"

interpretation issue_ord: key_order issue_rank issue_before
  by unfold_locales (auto simp: issue_rank_def issue_before_def level_rank_inj less_level_def [symmetric])

definition issues :: "thresholds \<Rightarrow> evidence_read \<Rightarrow> issue list" where
  "issues th e = sort_by issue_before
     (event_issues th e @ fromChecks ''Agent workers'' ''/agents'' (checks (joinMs th) (agents_of e)) @
      fromChecks ''Phone bridge'' ''/sip'' (phone_checks e))"

text \<open>Most recent first; what has no time counts as the earliest.\<close>

definition hit_later :: "jsnum option \<Rightarrow> jsnum option \<Rightarrow> bool" where
  "hit_later a b \<longleftrightarrow> js_lt (js_minus (time_or_never b) (time_or_never a)) (Num 0)"

definition issue_sources :: "(string \<times> issue_source) list" where
  "issue_sources = [(''Calls'', FromCalls), (''Agent workers'', FromWorkers), (''Phone bridge'', FromPhone),
     (''Recordings and ingress'', FromDelivery)]"

text \<open>Standing: every hit, whatever the range. Event: the dated hits inside it.\<close>

definition hits_in :: "num \<Rightarrow> num \<Rightarrow> issue \<Rightarrow> hit list" where
  "hits_in from' to i =
     (case is_kind i of StandingIssue \<Rightarrow> is_hits i
      | EventIssue \<Rightarrow> filter (\<lambda>h. is_dated (ht_at h) \<and> within_range from' to (ht_at h)) (is_hits i))"

definition contract_issue_of :: "num \<Rightarrow> num \<Rightarrow> issue \<Rightarrow> contract_issue" where
  "contract_issue_of from' to i =
     (let hits = hits_in from' to i; standing = (is_kind i = StandingIssue);
          times = (if standing then [] else map ht_at (filter (\<lambda>h. is_dated (ht_at h)) hits))
      in \<lparr>ci_id = is_id i, ci_title = is_title i, ci_kind = is_kind i, ci_severity = is_severity i,
          ci_source = or_val (map_of issue_sources (is_source i)) FromCalls,
          ci_lastSeenAt = (if times \<noteq> [] then iso_at (Some (js_max (map time_or_never times))) else None),
          ci_hits = map (\<lambda>h. \<lparr>ch_observedAt = iso_at (ht_observedAt h), ch_evidence = ht_evidence h,
             ch_at = (if standing then None else iso_at (ht_at h)), ch_where = ht_where h, ch_detail = ht_detail h,
             ch_callId = ht_callId h\<rparr>) (sort_by (\<lambda>a b. hit_later (ht_at a) (ht_at b)) hits)\<rparr>)"

definition issueList :: "thresholds \<Rightarrow> evidence_read \<Rightarrow> num \<Rightarrow> num \<Rightarrow> contract_issue list" where
  "issueList th e from' to = filter (\<lambda>i. ci_hits i \<noteq> []) (map (contract_issue_of from' to) (issues th e))"

section \<open>Alert rules\<close>

definition plural :: "nat \<Rightarrow> string \<Rightarrow> string \<Rightarrow> string" where
  "plural n single several = (if n = 1 then single else several)"

definition call_event :: "call \<Rightarrow> string \<Rightarrow> alert_event" where
  "call_event c d = \<lparr>al_at = started_s c, al_where = c_room c, al_detail = d, al_link = Some (ToCall (c_id c))\<rparr>"

definition slow_turns :: "thresholds \<Rightarrow> call \<Rightarrow> turn_model list" where
  "slow_turns th c = filter (\<lambda>t. case tm_responseMs t of Some v \<Rightarrow> answerMs th < v | None \<Rightarrow> False) (cm_turns (buildModel c))"

definition slow_events :: "thresholds \<Rightarrow> evidence_read \<Rightarrow> alert_event list" where
  "slow_events th e = concat (map (\<lambda>c. when_list (slow_turns th c \<noteq> [])
     (call_event c (nat_str (length (slow_turns th c)) @ '' of '' @ nat_str (length (cm_turns (buildModel c))) @ '' turns over '' @
        num_str (answerMs th / 1000) @ '' s''))) (ev_calls e))"

definition cut_turns :: "call \<Rightarrow> turn list" where
  "cut_turns c = filter (\<lambda>t. interrupted t = Some True) (list_or (c_turns c))"

definition cut_events :: "evidence_read \<Rightarrow> alert_event list" where
  "cut_events e = concat (map (\<lambda>c. let n = length (cut_turns c) in when_list (n \<noteq> 0)
     (call_event c (nat_str n @ '' '' @ plural n ''reply'' ''replies'' @ '' cut off by the caller''))) (ev_calls e))"

definition job_at :: "job \<Rightarrow> jsnum option" where
  "job_at j = (if is_finite (jb_dispatchedMs j) then Some (js_over (jb_dispatchedMs j) 1000) else None)"

definition job_place :: "agent \<Rightarrow> job \<Rightarrow> string" where
  "job_place a j = agent_place a @ '' in '' @ mr_name (jb_room j)"

definition failed_events :: "evidence_read \<Rightarrow> alert_event list" where
  "failed_events e = concat (map (\<lambda>a. map (\<lambda>j. \<lparr>al_at = job_at j, al_where = job_place a j,
     al_detail = (if is_test a then ''Test data: our capture agent. '' else []) @ ''Job '' @ jb_jobId j @ '' failed; LiveKit retried'',
     al_link = Some (ToPage ''/agents'')\<rparr>) (filter jb_failed (ag_jobs a))) (agents_of e))"

definition late_jobs :: "num \<Rightarrow> agent \<Rightarrow> (job \<times> jsnum) list" where
  "late_jobs join_ms a = concat (map (\<lambda>j. case nth_opt (joinDelays [j]) 0 of
     Some d \<Rightarrow> when_list (slow_delay join_ms d) (j, d) | None \<Rightarrow> []) (ag_jobs a))"

definition join_events :: "thresholds \<Rightarrow> evidence_read \<Rightarrow> alert_event list" where
  "join_events th e = concat (map (\<lambda>a. map (\<lambda>(j, d). \<lparr>al_at = job_at j, al_where = job_place a j,
     al_detail = ''Joined '' @ js_fixed 1 d @ '' s after dispatch'', al_link = Some (ToPage ''/agents'')\<rparr>)
     (late_jobs (joinMs th) a)) (agents_of e))"

definition plain_checks :: "evidence_read \<Rightarrow> check list" where
  "plain_checks e = filter (\<lambda>c. has_sub (lower (ck_title c)) ''not encrypted'') (phone_checks e)"

definition lost_events :: "evidence_read \<Rightarrow> alert_event list" where
  "lost_events e = map (\<lambda>g. \<lparr>al_at = at_s (eg_endedAt g), al_where = eg_id g @ '' in '' @ or_val (eg_room g) ''unknown room'',
     al_detail = (case Option.bind (eg_file g) ef_durationS of
        Some d \<Rightarrow> if d \<noteq> 0 then int_str (js_round d) @ '' s of audio not stored'' else or_val (eg_error g) ''Failed''
      | None \<Rightarrow> or_val (eg_error g) ''Failed''), al_link = Some (ToPage ''/egress'')\<rparr>)
     (filter (\<lambda>g. eg_status g = ''EGRESS_FAILED'') (ev_egress e))"

definition ingress_events :: "evidence_read \<Rightarrow> alert_event list" where
  "ingress_events e = map (\<lambda>g. \<lparr>al_at = at_s (ig_endedAt g), al_where = ig_name g @ '' ('' @ ig_id g @ '')'',
     al_detail = or_val (ig_error g) ''Error'', al_link = Some (ToPage ''/ingress'')\<rparr>)
     (filter (\<lambda>g. ig_status g = ''ENDPOINT_ERROR'') (ev_ingress e))"

fun rule_events :: "thresholds \<Rightarrow> evidence_read \<Rightarrow> rule_id \<Rightarrow> alert_event list" where
  "rule_events th e SlowAnswer = slow_events th e"
| "rule_events th e CutOff = cut_events e"
| "rule_events th e JobFailed = failed_events e"
| "rule_events th e SlowJoin = join_events th e"
| "rule_events th e PlainPhone = []"
| "rule_events th e RecordingLost = lost_events e"
| "rule_events th e IngressErr = ingress_events e"

definition rule_state :: "evidence_read \<Rightarrow> rule_id \<Rightarrow> string option" where
  "rule_state e i = (let n = length (plain_checks e) in
     if i = PlainPhone \<and> n \<noteq> 0 then Some (nat_str n @ '' '' @ plural n ''trunk'' ''trunks'' @ '' now'') else None)"

definition rules :: "thresholds \<Rightarrow> evidence_read \<Rightarrow> alert_rule list" where
  "rules th e = map (\<lambda>i. \<lparr>ar_id = i, ar_meta = meta th i, ar_events = rule_events th e i, ar_state = rule_state e i\<rparr>) RULE_IDS"

definition contract_event_of :: "alert_event \<Rightarrow> contract_event" where
  "contract_event_of a = \<lparr>ce_at = iso_at (al_at a), ce_where = al_where a, ce_detail = al_detail a,
     ce_callId = (case al_link a of Some (ToCall c) \<Rightarrow> Some c | _ \<Rightarrow> None)\<rparr>"

definition alertEvents :: "thresholds \<Rightarrow> evidence_read \<Rightarrow> num \<Rightarrow> num \<Rightarrow> contract_rule list" where
  "alertEvents th e from' to = map (\<lambda>r. \<lparr>cr_ruleId = ar_id r, cr_state = ar_state r,
     cr_events = map contract_event_of (sort_by (\<lambda>a b. hit_later (al_at a) (al_at b))
       (filter (\<lambda>a. inRange from' to (al_at a)) (ar_events r)))\<rparr>) (rules th e)"

section \<open>Incidents\<close>

definition agentRules :: "rule_id list" where
  "agentRules = [SlowAnswer, CutOff, JobFailed, SlowJoin]"

definition incident_id :: "nat \<Rightarrow> string" where
  "incident_id k = ''00000000-0000-4000-8000-'' @ pad_start 12 (nat_str (k + 1))"

definition date_of :: "string \<Rightarrow> num" where
  "date_of s = (case date_parse s of Some x \<Rightarrow> x | None \<Rightarrow> 0)"

definition incident_of :: "thresholds \<Rightarrow> num \<Rightarrow> (string \<times> string) list \<Rightarrow> num \<Rightarrow> nat \<Rightarrow> contract_rule \<Rightarrow> incident option" where
  "incident_of th now resolved to k r =
     (let dated_events = filter (\<lambda>x. ce_at x \<noteq> None) (cr_events r); state = nonempty (cr_state r)
      in if state = None \<and> dated_events = [] then None
         else
           (let last = (case nth_opt dated_events 0 of Some x \<Rightarrow> Some x | None \<Rightarrow> nth_opt (cr_events r) 0);
                opened = (case last_opt dated_events of Some x \<Rightarrow> the (ce_at x) | None \<Rightarrow> to_iso (to - 3600000));
                i = incident_id k;
                clean = Option.bind (Option.bind last (\<lambda>x. nonempty (ce_at x))) (\<lambda>t. Some (to_iso (date_of t + 1800000)));
                byPerson = map_of resolved i;
                firing = (byPerson = None \<and> (state \<noteq> None \<or> cr_ruleId r = RecordingLost \<or>
                  (case clean of None \<Rightarrow> True | Some t \<Rightarrow> now < date_of t)))
            in Some \<lparr>in_id = i, in_ruleId = cr_ruleId r,
                 in_subject = (if cr_ruleId r \<in> set agentRules then ''Unknown agent''
                   else or_val (map_option ce_where last) (rm_source (meta th (cr_ruleId r)))),
                 in_firing = firing, in_openedAt = opened,
                 in_resolvedAt = (if firing then None else (case byPerson of Some t \<Rightarrow> Some t | None \<Rightarrow> clean)),
                 in_byPerson = (if firing then None else Some (byPerson \<noteq> None)),
                 in_occurrences = Some (if state \<noteq> None \<and> dated_events = [] then 1 else length dated_events),
                 in_last = \<lparr>ce_at = Option.bind last ce_at, ce_where = or_val (map_option ce_where last) (or_val (cr_state r) ''unknown''),
                   ce_detail = or_val (map_option ce_detail last) (or_val (cr_state r) []), ce_callId = Option.bind last ce_callId\<rparr>\<rparr>))"

definition opened_later :: "incident \<Rightarrow> incident \<Rightarrow> bool" where
  "opened_later a b \<longleftrightarrow> date_of (in_openedAt b) < date_of (in_openedAt a)"

interpretation incident_ord: key_order "\<lambda>i. - date_of (in_openedAt i)" opened_later
  by unfold_locales (simp add: opened_later_def)

definition alertIncidents :: "thresholds \<Rightarrow> evidence_read \<Rightarrow> num \<Rightarrow> (string \<times> string) list \<Rightarrow> num \<Rightarrow> num \<Rightarrow> incident list" where
  "alertIncidents th e now resolved from' to =
     sort_by opened_later (somes (map (\<lambda>(k, r). incident_of th now resolved to k r) (indexed (alertEvents th e from' to))))"

datatype resolve_result = Resolved incident | NotFound | NotResolvable

text \<open>\<open>resolveAlertIncident\<close>: the answer and the resolutions a person made, with the time of each. The clock is read once.\<close>

definition resolveAlertIncident :: "thresholds \<Rightarrow> evidence_read \<Rightarrow> num \<Rightarrow> string \<Rightarrow> (string \<times> string) list \<Rightarrow>
    resolve_result \<times> (string \<times> string) list" where
  "resolveAlertIncident th e now i resolved =
     (case find (\<lambda>x. in_id x = i) (alertIncidents th e now resolved 0 (now + 60000)) of
        None \<Rightarrow> (NotFound, resolved)
      | Some x \<Rightarrow>
          if in_ruleId x \<noteq> RecordingLost \<or> \<not> in_firing x then (NotResolvable, resolved)
          else (let resolved' = mp_set i (to_iso now) resolved
                in (case find (\<lambda>x. in_id x = i) (alertIncidents th e now resolved' 0 (now + 60000)) of
                      Some y \<Rightarrow> (Resolved y, resolved')
                    | None \<Rightarrow> (NotFound, resolved'))))"

section \<open>Every finding and every check is in one issue\<close>

lemma hit_fields [simp]: "is_hits (add_hit h i) = is_hits i @ [h]" "is_id (add_hit h i) = is_id i" "is_kind (add_hit h i) = is_kind i"
  "is_severity (add_hit h i) = is_severity i" "is_title (add_hit h i) = is_title i" "is_to (add_hit h i) = is_to i"
  "is_source (add_hit h i) = is_source i"
  by (simp_all add: add_hit_def)

lemma raise_fields [simp]: "is_hits (raise_severity v i) = is_hits i" "is_id (raise_severity v i) = is_id i"
  "is_kind (raise_severity v i) = is_kind i" "is_severity (raise_severity v i) = min v (is_severity i)"
  by (auto simp: raise_severity_def min_def less_eq_level_def level_rank_inj)

lemma event_group:
  assumes "fold (\<lambda>x g. Some (take_finding x g)) xs None = Some i"
  shows "is_hits i = map (\<lambda>cf. finding_hit (fst cf) (snd cf)) xs \<and> is_kind i = EventIssue \<and> is_id i = finding_key (hd xs) \<and>
    is_severity i = Min ((\<lambda>cf. finding_level (fg_severity (snd cf))) ` set xs)"
  using assms
proof (induction xs arbitrary: i rule: rev_induct)
  case (snoc x xs)
  show ?case
  proof (cases "xs = []")
    case True
    with snoc.prems show ?thesis
      by (auto simp: take_finding_def new_event_issue_def finding_key_def or_val_def)
  next
    case False
    then obtain g where g: "fold (\<lambda>x g. Some (take_finding x g)) xs None = Some g"
      by (cases xs rule: rev_cases) auto
    from snoc.IH [OF g] snoc.prems g False show ?thesis
      by (auto simp: take_finding_def or_val_def Min_insert)
  qed
qed simp

definition check_hit :: "check \<Rightarrow> hit" where
  "check_hit c = \<lparr>ht_observedAt = None, ht_evidence = EvUnknown, ht_at = None, ht_where = ck_where c, ht_detail = ck_why c,
     ht_callId = None\<rparr>"

lemma check_group:
  assumes "fold (\<lambda>x g. Some (take_check src to x g)) xs None = Some i"
  shows "is_hits i = map check_hit xs \<and> is_kind i = StandingIssue \<and> is_title i = ck_title (hd xs) \<and> is_to i = to \<and> is_source i = src"
  using assms
proof (induction xs arbitrary: i rule: rev_induct)
  case (snoc x xs)
  show ?case
  proof (cases "xs = []")
    case True
    with snoc.prems show ?thesis by (auto simp: take_check_def check_hit_def or_val_def)
  next
    case False
    then obtain g where g: "fold (\<lambda>x g. Some (take_check src to x g)) xs None = Some g"
      by (cases xs rule: rev_cases) auto
    from snoc.IH [OF g] snoc.prems g False show ?thesis by (auto simp: take_check_def check_hit_def or_val_def)
  qed
qed simp

lemma event_issue:
  assumes "i \<in> set (event_issues th e)"
  shows "is_kind i = EventIssue \<and> is_hits i = map (\<lambda>cf. finding_hit (fst cf) (snd cf)) (filter (\<lambda>cf. finding_key cf = is_id i) (call_findings th e)) \<and>
    is_severity i = Min ((\<lambda>cf. finding_level (fg_severity (snd cf))) ` {cf \<in> set (call_findings th e). finding_key cf = is_id i}) \<and>
    is_id i \<in> finding_key ` set (call_findings th e)"
proof -
  from assms obtain k where "(k, i) \<in> set (fold (group_step finding_key take_finding) (call_findings th e) [])"
    by (auto simp: event_issues_def)
  from group_member [OF this] have g: "fold (\<lambda>x g. Some (take_finding x g)) (filter (\<lambda>x. finding_key x = k) (call_findings th e)) None = Some i"
    and n: "filter (\<lambda>x. finding_key x = k) (call_findings th e) \<noteq> []" by simp_all
  from hd_in_set [OF n] have k: "finding_key (hd (filter (\<lambda>x. finding_key x = k) (call_findings th e))) = k"
    and m: "hd (filter (\<lambda>x. finding_key x = k) (call_findings th e)) \<in> set (call_findings th e)" by simp_all
  from event_group [OF g] k have i: "is_id i = k" by simp
  from m k have "k \<in> finding_key ` set (call_findings th e)" by (metis image_eqI)
  with event_group [OF g, unfolded set_filter] show ?thesis unfolding i by blast
qed

lemma check_issue:
  assumes "i \<in> set (fromChecks src to cs)"
  shows "is_kind i = StandingIssue \<and> is_hits i = map check_hit (filter (\<lambda>c. ck_title c = is_title i) cs) \<and> is_to i = to \<and> is_hits i \<noteq> []"
proof -
  from assms obtain k where "(k, i) \<in> set (fold (group_step ck_title (take_check src to)) cs [])"
    by (auto simp: fromChecks_def)
  from group_member [OF this] have g: "fold (\<lambda>x g. Some (take_check src to x g)) (filter (\<lambda>x. ck_title x = k) cs) None = Some i"
    and n: "filter (\<lambda>x. ck_title x = k) cs \<noteq> []" by simp_all
  from hd_in_set [OF n] have k: "ck_title (hd (filter (\<lambda>x. ck_title x = k) cs)) = k" by simp
  from check_group [OF g] k have i: "is_title i = k" by simp
  from check_group [OF g] n show ?thesis unfolding i by simp
qed

lemma check_listed:
  assumes "c \<in> set cs"
  shows "\<exists>i \<in> set (fromChecks src to cs). is_title i = ck_title c"
proof -
  have "ck_title c \<in> fst ` set (fold (group_step ck_title (take_check src to)) cs [])"
    using assms by (simp add: group_keys)
  then obtain i where m: "(ck_title c, i) \<in> set (fold (group_step ck_title (take_check src to)) cs [])" by auto
  from group_member [OF m] have g: "fold (\<lambda>x g. Some (take_check src to x g)) (filter (\<lambda>x. ck_title x = ck_title c) cs) None = Some i"
    and n: "filter (\<lambda>x. ck_title x = ck_title c) cs \<noteq> []" by simp_all
  from hd_in_set [OF n] have "ck_title (hd (filter (\<lambda>x. ck_title x = ck_title c) cs)) = ck_title c" by simp
  with check_group [OF g] have "is_title i = ck_title c" by simp
  moreover have "i \<in> set (fromChecks src to cs)" using m by (force simp: fromChecks_def)
  ultimately show ?thesis by blast
qed

text \<open>C34: The issues come most serious first, and an issue of the calls holds exactly the findings of its kind, call by
  call, and is as serious as the most serious of them: so the counts match what the call drawer shows.\<close>

theorem issues_match_findings:
  "sorted (map is_severity (issues th e)) \<and>
   list_all (\<lambda>i. is_hits i = map (\<lambda>cf. finding_hit (fst cf) (snd cf)) (filter (\<lambda>cf. finding_key cf = is_id i) (call_findings th e)) \<and>
     is_severity i = Min ((\<lambda>cf. finding_level (fg_severity (snd cf))) ` {cf \<in> set (call_findings th e). finding_key cf = is_id i}))
     (filter (\<lambda>i. is_kind i = EventIssue) (issues th e)) \<and>
   is_id ` {i \<in> set (issues th e). is_kind i = EventIssue} = finding_key ` set (call_findings th e)"
proof -
  have ev: "filter (\<lambda>i. is_kind i = EventIssue) (fromChecks s t cs) = []" for s t cs
    by (auto simp: filter_empty_conv dest: check_issue)
  have set_ev: "{i \<in> set (issues th e). is_kind i = EventIssue} = set (event_issues th e)"
    by (auto simp: issues_def dest: check_issue event_issue)
  have "finding_key ` set (call_findings th e) \<subseteq> is_id ` set (event_issues th e)"
  proof
    fix k
    assume "k \<in> finding_key ` set (call_findings th e)"
    then have "k \<in> fst ` set (fold (group_step finding_key take_finding) (call_findings th e) [])" by (simp add: group_keys)
    then obtain i where m: "(k, i) \<in> set (fold (group_step finding_key take_finding) (call_findings th e) [])" by auto
    note g = group_member [OF m]
    from g have "filter (\<lambda>x. finding_key x = k) (call_findings th e) \<noteq> []" by simp
    from hd_in_set [OF this] event_group [of "filter (\<lambda>x. finding_key x = k) (call_findings th e)" i] g have "is_id i = k" by simp
    moreover from m have "i \<in> set (event_issues th e)" by (force simp: event_issues_def)
    ultimately show "k \<in> is_id ` set (event_issues th e)" by blast
  qed
  then have ids: "is_id ` set (event_issues th e) = finding_key ` set (call_findings th e)"
    using event_issue [of _ th e] by auto
  have "sorted (map is_severity (issues th e))"
    using issue_ord.keys_sorted [of "event_issues th e @ fromChecks ''Agent workers'' ''/agents'' (checks (joinMs th) (agents_of e)) @
      fromChecks ''Phone bridge'' ''/sip'' (phone_checks e)"]
    unfolding issues_def [symmetric] sorted_map
    by (rule sorted_wrt_mono_rel [rotated]) (auto simp: issue_rank_def less_eq_prod_def)
  moreover have "\<forall>i \<in> {i \<in> set (issues th e). is_kind i = EventIssue}.
      is_hits i = map (\<lambda>cf. finding_hit (fst cf) (snd cf)) (filter (\<lambda>cf. finding_key cf = is_id i) (call_findings th e)) \<and>
      is_severity i = Min ((\<lambda>cf. finding_level (fg_severity (snd cf))) ` {cf \<in> set (call_findings th e). finding_key cf = is_id i})"
    unfolding set_ev using event_issue by blast
  ultimately show ?thesis unfolding list_all_iff set_filter set_ev ids by blast
qed

section \<open>Alerts and pages\<close>

lemma js_median_in: "js_median xs = Some m \<Longrightarrow> m \<in> set xs"
proof -
  assume m: "js_median xs = Some m"
  then have "xs \<noteq> []" "m = sort_by js_lt xs ! (length xs div 2)" by (auto simp: js_median_def split: if_splits)
  moreover have "length xs div 2 < length (sort_by js_lt xs)" using \<open>xs \<noteq> []\<close> by simp
  ultimately show ?thesis using nth_mem [of "length xs div 2" "sort_by js_lt xs"] by simp
qed

lemma late_some:
  assumes "slow_joining join_ms a"
  shows "late_jobs join_ms a \<noteq> []"
proof -
  from assms obtain d where d: "js_median (joinDelays (ag_jobs a)) = Some d" "slow_delay join_ms d"
    by (auto simp: slow_joining_def split: option.splits)
  from js_median_in [OF d(1)] obtain j where j: "j \<in> set (ag_jobs a)" "is_finite (jb_dispatchedMs j)" "jb_joinedMs j \<noteq> None"
    "d = js_over (js_minus (the (jb_joinedMs j)) (jb_dispatchedMs j)) 1000"
    by (auto simp: joinDelays_def)
  then have "nth_opt (joinDelays [j]) 0 = Some d" by (auto simp: joinDelays_def nth_opt_def)
  with j(1) d(2) show ?thesis by (force simp: late_jobs_def split: option.splits)
qed


text \<open>The page judges an agent by its median join, the rule every job by itself: one late job of three is an event of
  slow-join and no check of the page.\<close>

definition sample_room :: "at_num numbered_room" where
  "sample_room = numbered \<lparr>mr_sid = ''RM'', mr_name = ''room'', mr_created = None, mr_firstSeen = None, mr_lastSeen = None,
     mr_participants = [], mr_dispatches = None\<rparr> 1"

definition sample_job :: "num \<Rightarrow> job" where
  "sample_job d = \<lparr>jb_room = sample_room, jb_jobId = ''AJ'', jb_workerId = None, jb_status = ''JS_SUCCESS'', jb_dispatchedMs = Num 0,
     jb_joinedMs = Some (Num d), jb_failed = False, jb_region = None\<rparr>"

lemma late_job_without_check:
  "late_jobs 2000 ((new_agent ''a'' (Some ''a'') None)\<lparr>ag_jobs := [sample_job 500, sample_job 500, sample_job 5000]\<rparr>) \<noteq> [] \<and>
   slow_check 2000 ((new_agent ''a'' (Some ''a'') None)\<lparr>ag_jobs := [sample_job 500, sample_job 500, sample_job 5000]\<rparr>) = []"
  by (simp add: late_jobs_def slow_check_def slow_joining_def slow_delay_def js_median_def joinDelays_def sample_job_def
      js_over_def is_finite_def nth_opt_def when_list_def new_agent_def)

section \<open>Resolving an incident\<close>

lemma if_some: "(if b then None else Some x) = None \<longleftrightarrow> b" "(if b then None else Some x) = Some y \<Longrightarrow> x = y"
  by (simp_all split: if_split_asm)

lemma incident_of_none:
  "incident_of th now res to k r = None \<longleftrightarrow> nonempty (cr_state r) = None \<and> filter (\<lambda>x. ce_at x \<noteq> None) (cr_events r) = []"
  unfolding incident_of_def Let_def by (rule if_some(1))

lemma incident_of_fields:
  assumes "incident_of th now res to k r = Some x"
  shows "in_id x = incident_id k" "in_ruleId x = cr_ruleId r" "\<exists>y. incident_of th now res' to k r = Some y"
proof -
  have "incident_of th now res' to k r \<noteq> None" using assms incident_of_none by (metis option.distinct(1))
  then show "\<exists>y. incident_of th now res' to k r = Some y" by simp
  show "in_id x = incident_id k" "in_ruleId x = cr_ruleId r"
    by (simp_all only: if_some(2) [OF assms [unfolded incident_of_def Let_def], symmetric] incident.simps)
qed

lemma incident_of_resolved:
  assumes "incident_of th now res to k r = Some x" "map_of res (incident_id k) = Some t"
  shows "\<not> in_firing x" "in_byPerson x = Some True" "in_resolvedAt x = Some t"
  using assms by (auto simp: incident_of_def Let_def split: if_splits)

lemma incident_members:
  "x \<in> set (alertIncidents th e now res from' to) \<longleftrightarrow>
   (\<exists>k r. (k, r) \<in> set (indexed (alertEvents th e from' to)) \<and> incident_of th now res to k r = Some x)"
  by (force simp: alertIncidents_def set_somes image_iff)

lemma incident_index:
  assumes "(k, r) \<in> set (indexed (alertEvents th e from' to))"
  shows "k < 7 \<and> r = alertEvents th e from' to ! k"
  using assms by (simp add: in_set_indexed) (simp add: alertEvents_def rules_def RULE_IDS_def)

lemma incident_id_inj: "k < 7 \<Longrightarrow> j < 7 \<Longrightarrow> incident_id k = incident_id j \<Longrightarrow> k = j"
proof -
  assume k: "k < 7" "j < 7" "incident_id k = incident_id j"
  have d: "nat_str (n + 1) = [char_of (49 + n)]" if "n < 7" for n
    using that by (subst nat_str.simps) simp
  have "char_of (49 + k) = (char_of (49 + j) :: char)"
    using k(3) by (simp add: incident_id_def pad_start_def d [OF k(1), unfolded Suc_eq_plus1 [symmetric]] d [OF k(2), unfolded Suc_eq_plus1 [symmetric]])
  then have "of_char (char_of (49 + k) :: char) = (of_char (char_of (49 + j) :: char) :: nat)" by simp
  with k(1,2) show "k = j" by simp
qed

text \<open>C36: Only a lost recording that still fires can be resolved by a person; then the answer is that incident, resolved
  now by a person, and otherwise nothing is remembered.\<close>

theorem resolve_exact:
  "case resolveAlertIncident th e now i resolved of
     (NotFound, res) \<Rightarrow> res = resolved \<and> i \<notin> in_id ` set (alertIncidents th e now resolved 0 (now + 60000))
   | (NotResolvable, res) \<Rightarrow> res = resolved \<and>
       (\<exists>x \<in> set (alertIncidents th e now resolved 0 (now + 60000)). in_id x = i \<and> (in_ruleId x, in_firing x) \<noteq> (RecordingLost, True))
   | (Resolved y, res) \<Rightarrow> res = mp_set i (to_iso now) resolved \<and> in_id y = i \<and> in_ruleId y = RecordingLost \<and> \<not> in_firing y \<and>
       in_byPerson y = Some True \<and> in_resolvedAt y = Some (to_iso now) \<and>
       y \<in> set (alertIncidents th e now res 0 (now + 60000))"
proof (cases "find (\<lambda>x. in_id x = i) (alertIncidents th e now resolved 0 (now + 60000))")
  case None
  then have "i \<notin> in_id ` set (alertIncidents th e now resolved 0 (now + 60000))" by (auto simp: find_None_iff)
  with None show ?thesis by (simp add: resolveAlertIncident_def)
next
  case (Some x)
  let ?res = "mp_set i (to_iso now) resolved"
  from find_Some_in [OF Some] have x: "x \<in> set (alertIncidents th e now resolved 0 (now + 60000))" "in_id x = i" by simp_all
  then obtain k r where k: "(k, r) \<in> set (indexed (alertEvents th e 0 (now + 60000)))" "incident_of th now resolved (now + 60000) k r = Some x"
    by (auto simp: incident_members)
  from incident_of_fields(1,2) [OF k(2)] x(2) have xid: "incident_id k = i" "in_ruleId x = cr_ruleId r" by simp_all
  obtain y0 where y0: "incident_of th now ?res (now + 60000) k r = Some y0" using incident_of_fields(3) [OF k(2)] by blast
  then have "y0 \<in> set (alertIncidents th e now ?res 0 (now + 60000))" "in_id y0 = i"
    using k(1) incident_of_fields(1) [OF y0] xid by (auto simp: incident_members)
  then obtain y where y: "find (\<lambda>x. in_id x = i) (alertIncidents th e now ?res 0 (now + 60000)) = Some y"
    by (metis (mono_tags, lifting) find_None_iff not_None_eq)
  from find_Some_in [OF y] have yin: "y \<in> set (alertIncidents th e now ?res 0 (now + 60000))" "in_id y = i" by simp_all
  then obtain k' r' where k': "(k', r') \<in> set (indexed (alertEvents th e 0 (now + 60000)))" "incident_of th now ?res (now + 60000) k' r' = Some y"
    by (auto simp: incident_members)
  from incident_of_fields(1,2) [OF k'(2)] yin(2) have yid: "incident_id k' = i" "in_ruleId y = cr_ruleId r'" by simp_all
  from incident_index [OF k(1)] incident_index [OF k'(1)] incident_id_inj [of k k'] xid(1) yid(1) have "r = r'" by simp
  moreover have "map_of ?res (incident_id k') = Some (to_iso now)" by (simp add: yid mp_store.get_put)
  note res = incident_of_resolved [OF k'(2) this]
  ultimately show ?thesis using Some y yin x xid yid res by (auto simp: resolveAlertIncident_def)
qed

end
