(* ===== verification/MetadataStore.thy ===== *)
theory MetadataStore
  imports LocalStore Session
begin

text \<open>
  A call's tags and archive flag as the mock API keeps them (\<open>mocks/dispositions.ts\<close>, the call metadata routes of
  \<open>mocks/handlers.ts\<close>), and the changes a page makes of them. Whoever saves names the revision it read, and a save of
  any other revision is refused. What is stored is always normal, a revision's metadata never changes, and an undo
  restores or is refused. Tags are ASCII where they are put in lower case.
\<close>

section \<open>The stored text\<close>

record call_metadata =
  md_tags :: "string list"
  md_archived :: bool
  md_revision :: num

definition Meta :: "string list \<Rightarrow> bool \<Rightarrow> num \<Rightarrow> call_metadata" where
  "Meta ts a r = \<lparr>md_tags = ts, md_archived = a, md_revision = r\<rparr>"

lemma Meta_sel [simp]: "md_tags (Meta ts a r) = ts" "md_archived (Meta ts a r) = a" "md_revision (Meta ts a r) = r"
  by (simp_all add: Meta_def)

definition no_metadata :: call_metadata where
  "no_metadata = Meta [] False 0"

definition metadata_json :: "call_metadata \<Rightarrow> json" where
  "metadata_json m = JObj [(''tags'', JArr (map JStr (md_tags m))), (''archived'', JBool (md_archived m)),
     (''revision'', JNum (md_revision m))]"

fun json_texts :: "json list \<Rightarrow> string list option" where
  "json_texts [] = Some []"
| "json_texts (JStr s # vs) = map_option ((#) s) (json_texts vs)"
| "json_texts _ = None"

lemma json_texts_strings [simp]: "json_texts (map JStr ss) = Some ss"
  by (induction ss) simp_all

text \<open>A stored value read as the record it was written from.\<close>

definition metadata_of_json :: "json \<Rightarrow> call_metadata option" where
  "metadata_of_json v =
     (case v of
        JObj kvs \<Rightarrow>
          (case (map_of kvs ''tags'', map_of kvs ''archived'', map_of kvs ''revision'') of
             (Some (JArr ts), Some (JBool a), Some (JNum r)) \<Rightarrow> map_option (\<lambda>ss. Meta ss a r) (json_texts ts)
           | _ \<Rightarrow> None)
      | _ \<Rightarrow> None)"

lemma metadata_of_json_round [simp]: "metadata_of_json (metadata_json m) = Some m"
  by (cases m) (simp add: metadata_of_json_def metadata_json_def Meta_def)

text \<open>\<open>JSON.parse(localStorage.getItem(key) ?? '{}')\<close>, empty when it cannot be read.\<close>

definition dispositions :: "string option \<Rightarrow> (string \<times> json) list" where
  "dispositions st = (case Option.bind st json_parse of Some (JObj kvs) \<Rightarrow> kvs | _ \<Rightarrow> [])"

definition disposition_key :: "string \<Rightarrow> string \<Rightarrow> string" where
  "disposition_key sc i = sc @ ''/'' @ i"

definition metadataOf :: "string \<Rightarrow> string \<Rightarrow> string option \<Rightarrow> call_metadata" where
  "metadataOf sc i st = or_val (Option.bind (map_of (dispositions st) (disposition_key sc i)) metadata_of_json) no_metadata"

definition saveMetadata :: "string \<Rightarrow> string \<Rightarrow> call_metadata \<Rightarrow> string option \<Rightarrow> string option" where
  "saveMetadata sc i m st = Some (json_str (JObj (mp_set (disposition_key sc i) (metadata_json m) (dispositions st))))"

text \<open>What the storage holds: nothing yet, or the text of a value that JSON gives back.\<close>

definition well_stored :: "string option \<Rightarrow> bool" where
  "well_stored st \<longleftrightarrow> (case st of None \<Rightarrow> True | Some t \<Rightarrow> \<exists>kvs. t = json_str (JObj kvs) \<and> sendable (JObj kvs))"

lemma array_index_word: "\<not> list_all is_digit k \<Longrightarrow> array_index k = None"
  by (simp add: array_index_def)

lemma array_index_slash: "array_index (disposition_key sc i) = None"
  by (rule array_index_word) (simp add: disposition_key_def list_all_iff is_digit_def code_def)

lemma dispositions_text: "sendable (JObj kvs) \<Longrightarrow> dispositions (Some (json_str (JObj kvs))) = kvs"
  using json_round [of "JObj kvs"] by (simp add: dispositions_def del: json_str.simps)

lemma dispositions_sendable: "well_stored st \<Longrightarrow> sendable (JObj (dispositions st))"
proof (cases st)
  case None
  then show ?thesis by (simp add: dispositions_def)
next
  case (Some t)
  moreover assume "well_stored st"
  ultimately obtain kvs where kvs: "t = json_str (JObj kvs)" "sendable (JObj kvs)" by (auto simp: well_stored_def)
  with dispositions_text [OF kvs(2)] Some show ?thesis by (simp del: json_str.simps sendable.simps)
qed

lemma sendable_metadata: "is_integer (md_revision m) \<Longrightarrow> sendable (metadata_json m)"
proof -
  have w: "array_index k = None" if "k \<in> {''tags'', ''archived'', ''revision''}" for k
    using that by (intro array_index_word) (auto simp: is_digit_def code_def)
  assume "is_integer (md_revision m)"
  then show ?thesis using w by (simp add: metadata_json_def list_all_iff)
qed

lemma well_stored_save: "well_stored st \<Longrightarrow> is_integer (md_revision m) \<Longrightarrow> well_stored (saveMetadata sc i m st)"
proof -
  assume "well_stored st" "is_integer (md_revision m)"
  then have "sendable (JObj (mp_set (disposition_key sc i) (metadata_json m) (dispositions st)))"
    using dispositions_sendable [of st] sendable_metadata [of m] array_index_slash
    by (auto simp: distinct_mp_set list_all_iff dest: set_mp_set)
  then show ?thesis unfolding well_stored_def saveMetadata_def by auto
qed

text \<open>So the text is a map from projects and calls to their metadata.\<close>

lemma metadata_saved:
  assumes "well_stored st" "is_integer (md_revision m)"
  shows "metadataOf sc' i' (saveMetadata sc i m st) =
    (if disposition_key sc' i' = disposition_key sc i then m else metadataOf sc' i' st)"
proof -
  have "sendable (JObj (mp_set (disposition_key sc i) (metadata_json m) (dispositions st)))"
    using dispositions_sendable [OF assms(1)] sendable_metadata [OF assms(2)] array_index_slash
    by (auto simp: distinct_mp_set list_all_iff dest: set_mp_set)
  from dispositions_text [OF this] show ?thesis
    by (simp add: metadataOf_def saveMetadata_def mp_store.get_put or_val_def del: json_str.simps)
qed

section \<open>The routes\<close>

text \<open>\<open>/\p{Cc}/u\<close>: below U+0020 and U+007F to U+009F, the latter two bytes from U+0080.\<close>

definition has_control :: "string \<Rightarrow> bool" where
  "has_control s \<longleftrightarrow> list_ex (\<lambda>c. code c < 32 \<or> code c = 127) s \<or>
     list_ex (\<lambda>d. has_sub s [char_of (194 :: nat), char_of d]) [128..<160]"

text \<open>The fields of a request's body, which is an object.\<close>

record put_body =
  bd_tags :: "json option"
  bd_archived :: "json option"
  bd_revision :: "json option"

definition tag_ok :: "json \<Rightarrow> bool" where
  "tag_ok v = (case v of JStr t \<Rightarrow> trim t \<noteq> [] \<and> code_points (trim t) \<le> 64 \<and> \<not> has_control t | _ \<Rightarrow> False)"

definition MAX_SAFE :: num where
  "MAX_SAFE = 9007199254740991"

definition safe_integer :: "json option \<Rightarrow> num option" where
  "safe_integer v = (case v of Some (JNum r) \<Rightarrow> if is_integer r \<and> \<bar>r\<bar> \<le> MAX_SAFE then Some r else None | _ \<Rightarrow> None)"

text \<open>The body as it may be saved: every test of the route in one.\<close>

definition read_body :: "put_body \<Rightarrow> call_metadata option" where
  "read_body b =
     (case (bd_tags b, bd_archived b, safe_integer (bd_revision b)) of
        (Some (JArr ts), Some (JBool a), Some r) \<Rightarrow>
          if length ts \<le> 32 \<and> list_all tag_ok ts then map_option (\<lambda>ss. Meta ss a r) (json_texts ts) else None
      | _ \<Rightarrow> None)"

text \<open>\<open>[...new Set(tags.map(t => t.trim().toLowerCase()))].sort()\<close>\<close>

definition text_lt :: "string \<Rightarrow> string \<Rightarrow> bool" where
  "text_lt a b \<longleftrightarrow> a < b"

interpretation text_ord: key_order "\<lambda>s. s" text_lt
  by unfold_locales (simp add: text_lt_def)

definition norm_tags :: "string list \<Rightarrow> string list" where
  "norm_tags ts = sort_by text_lt (uniq (map (\<lambda>t. lower (trim t)) ts))"

definition fail :: "nat \<Rightarrow> string \<Rightarrow> string \<Rightarrow> api_error" where
  "fail status c msg = \<lparr>ae_status = status, ae_code = c, ae_message = msg\<rparr>"

text \<open>\<open>calls sc i\<close>: the project is known and has the call.\<close>

definition getCallMetadata :: "(string \<Rightarrow> string \<Rightarrow> bool) \<Rightarrow> string \<Rightarrow> string \<Rightarrow> string option \<Rightarrow> api_error + call_metadata" where
  "getCallMetadata calls sc i st =
     (if \<not> calls sc i then Inl (fail 404 ''not_found'' ''No such call.'') else Inr (metadataOf sc i st))"

definition putCallMetadata :: "(string \<Rightarrow> string \<Rightarrow> bool) \<Rightarrow> string \<Rightarrow> string \<Rightarrow> put_body \<Rightarrow> string option \<Rightarrow>
    (api_error + call_metadata) \<times> string option" where
  "putCallMetadata calls sc i b st =
     (if \<not> calls sc i then (Inl (fail 404 ''not_found'' ''No such call.''), st)
      else case read_body b of
        None \<Rightarrow> (Inl (fail 400 ''invalid_request'' ''Invalid metadata.''), st)
      | Some m \<Rightarrow>
          (let before = metadataOf sc i st in
           if md_revision m \<noteq> md_revision before
           then (Inl (fail 409 ''revision_conflict'' ''Call metadata changed; reload before saving.''), st)
           else let after = Meta (norm_tags (md_tags m)) (md_archived m) (md_revision before + 1)
                in (Inr after, saveMetadata sc i after st)))"

definition callTags :: "string \<Rightarrow> string list \<Rightarrow> string option \<Rightarrow> string list" where
  "callTags sc ids st = sort_by text_lt (uniq (concat (map (\<lambda>i. md_tags (metadataOf sc i st)) ids)))"

section \<open>What the server keeps\<close>

definition tag_normal :: "string \<Rightarrow> bool" where
  "tag_normal t \<longleftrightarrow> lower t = t \<and> trim t = t \<and> t \<noteq> [] \<and> code_points t \<le> 64 \<and> \<not> has_control t"

definition normal_metadata :: "call_metadata \<Rightarrow> bool" where
  "normal_metadata m \<longleftrightarrow> length (md_tags m) \<le> 32 \<and> list_all tag_normal (md_tags m) \<and> sorted (md_tags m) \<and>
     distinct (md_tags m) \<and> is_integer (md_revision m) \<and> 0 \<le> md_revision m"

definition kept_well :: "string option \<Rightarrow> bool" where
  "kept_well st \<longleftrightarrow> well_stored st \<and> (\<forall>sc i. normal_metadata (metadataOf sc i st))"

definition low_char :: "char \<Rightarrow> char" where
  "low_char c = (if is_upper c then char_of (code c + 32) else c)"

lemma lower_map: "lower s = map low_char s"
  by (simp add: lower_def low_char_def)

lemma low_char_kind [simp]: "is_ws (low_char c) = is_ws c" "low_char (low_char c) = low_char c"
  "128 \<le> code (low_char c) \<longleftrightarrow> 128 \<le> code c" "code (low_char c) < 192 \<longleftrightarrow> code c < 192"
  "code (low_char c) < 32 \<longleftrightarrow> code c < 32" "code (low_char c) = 127 \<longleftrightarrow> code c = 127"
  by (auto simp: low_char_def is_ws_def is_upper_def code_def)

lemma low_char_eq: "\<not> is_upper x \<Longrightarrow> \<not> is_lower x \<Longrightarrow> low_char c = x \<longleftrightarrow> c = x"
  by (auto simp: low_char_def is_upper_def is_lower_def code_def)

lemma trim_lower: "trim (lower t) = lower (trim t)"
  by (simp add: trim_def trim_start_def trim_end_def lower_map dropWhile_map rev_map comp_def)

lemma lower_lower [simp]: "lower (lower t) = lower t"
  by (simp add: lower_map)

lemma code_points_lower [simp]: "code_points (lower t) = code_points t"
  by (simp add: code_points_def lower_map filter_map comp_def)

lemma trim_end_start: "trim_start u = u \<Longrightarrow> trim_start (trim_end u) = trim_end u"
proof -
  assume u: "trim_start u = u"
  obtain z where z: "u = trim_end u @ z"
    unfolding trim_end_def by (metis rev_append rev_rev_ident takeWhile_dropWhile_id)
  show ?thesis
  proof (cases "trim_end u")
    case (Cons c cs)
    with z have "hd u = c" "u \<noteq> []" by (metis hd_append2 list.distinct(1) list.sel(1), simp)
    then have "\<not> is_ws c" using u unfolding trim_start_def by (metis hd_dropWhile)
    with Cons show ?thesis by (simp add: trim_start_def)
  qed (simp add: trim_start_def)
qed

lemma trim_trim [simp]: "trim (trim t) = trim t"
proof -
  have "trim_end (trim_end u) = trim_end u" for u by (simp add: trim_end_def)
  then show ?thesis using trim_end_start [OF trim_start_idem] by (simp add: trim_def)
qed

lemma has_sub_lower:
  assumes "\<not> is_upper a" "\<not> is_lower a" "\<not> is_upper b" "\<not> is_lower b"
  shows "has_sub (lower s) [a, b] = has_sub s [a, b]"
proof -
  have two: "starts_with (x # y) [a, b] \<longleftrightarrow> x = a \<and> y \<noteq> [] \<and> hd y = b" for x :: char and y
    by (cases y) (auto simp: starts_with_def)
  show ?thesis
  proof (induction s)
    case (Cons c cs)
    then show ?case
      by (cases cs) (simp_all add: lower_map two low_char_eq assms)
  qed (simp add: lower_map)
qed

lemma control_lower [simp]: "has_control (lower t) = has_control t"
proof -
  have "list_ex (\<lambda>c. code c < 32 \<or> code c = 127) (lower t) = list_ex (\<lambda>c. code c < 32 \<or> code c = 127) t"
    by (induction t) (simp_all add: lower_map)
  moreover have "has_sub (lower t) [char_of (194 :: nat), char_of d] = has_sub t [char_of (194 :: nat), char_of d]"
    if "d \<in> set [128..<160]" for d
    using that by (intro has_sub_lower) (auto simp: is_upper_def is_lower_def code_def)
  ultimately show ?thesis by (auto simp: has_control_def list_ex_iff)
qed

lemma sublist_trim: "sublist (trim t) t"
proof -
  have "suffix (trim_start t) t" by (simp add: trim_start_def suffix_dropWhile)
  moreover have "prefix (trim_end u) u" for u
    unfolding trim_end_def by (metis rev_rev_ident suffix_dropWhile suffix_to_prefix)
  ultimately show ?thesis unfolding trim_def
    by (meson prefix_imp_sublist sublist_order.order_trans suffix_imp_sublist)
qed

lemma control_trim: "\<not> has_control t \<Longrightarrow> \<not> has_control (trim t)"
proof -
  have "set (trim t) \<subseteq> set t" using sublist_trim by (rule set_mono_sublist)
  moreover have "has_sub (trim t) p \<Longrightarrow> has_sub t p" for p
    using sublist_trim by (auto simp: has_sub_sublist intro: sublist_order.order_trans)
  ultimately show "\<not> has_control t \<Longrightarrow> \<not> has_control (trim t)" by (auto simp: has_control_def list_ex_iff)
qed

lemma tag_normal_norm: "tag_ok (JStr t) \<Longrightarrow> tag_normal (lower (trim t))"
  using control_trim [of t] by (simp add: tag_ok_def tag_normal_def trim_lower) (simp add: lower_map)

lemma norm_id: "list_all tag_normal ts \<Longrightarrow> sorted ts \<Longrightarrow> distinct ts \<Longrightarrow> norm_tags ts = ts"
proof -
  assume n: "list_all tag_normal ts" "sorted ts" "distinct ts"
  then have "map (\<lambda>t. lower (trim t)) ts = ts"
    by (auto simp: list_all_iff tag_normal_def intro: map_idI)
  with n show ?thesis by (simp add: norm_tags_def uniq_distinct text_ord.sort_by_key sorted_sort_id)
qed

lemma tag_ok_normal: "tag_normal t \<Longrightarrow> tag_ok (JStr t)"
  by (simp add: tag_ok_def tag_normal_def)

lemma json_texts_map: "json_texts ts = Some ss \<Longrightarrow> ts = map JStr ss"
  by (induction ts arbitrary: ss rule: json_texts.induct) auto

lemma read_body_ok:
  "read_body b = Some m \<Longrightarrow> length (md_tags m) \<le> 32 \<and> list_all (\<lambda>t. tag_ok (JStr t)) (md_tags m) \<and> is_integer (md_revision m)"
  by (auto simp: read_body_def safe_integer_def list_all_iff dest!: json_texts_map split: option.splits json.splits if_splits)

lemma normal_saved:
  assumes "read_body b = Some m" "0 \<le> r" "is_integer r"
  shows "normal_metadata (Meta (norm_tags (md_tags m)) a (r + 1))"
proof -
  note ok = read_body_ok [OF assms(1)]
  have "length (uniq xs) \<le> length xs" for xs :: "string list"
    by (metis card_length distinct_card distinct_uniq set_uniq)
  from this [of "map (\<lambda>t. lower (trim t)) (md_tags m)"] ok
  have "length (norm_tags (md_tags m)) \<le> 32" by (simp add: norm_tags_def)
  moreover have "is_integer (r + 1)" using assms(3) unfolding is_integer_def by (metis of_int_1 of_int_add floor_of_int)
  moreover have "sorted (norm_tags ts)" for ts using text_ord.keys_sorted [of "uniq (map (\<lambda>t. lower (trim t)) ts)"] by (simp add: norm_tags_def)
  ultimately show ?thesis
    using ok assms(2) tag_normal_norm by (auto simp: normal_metadata_def list_all_iff norm_tags_def)
qed

lemma put_cases:
  assumes "putCallMetadata calls sc i b st = (r, st')"
  obtains (refused) e where "r = Inl e" "st' = st"
  | (saved) m where "calls sc i" "read_body b = Some m" "md_revision m = md_revision (metadataOf sc i st)"
      "r = Inr (Meta (norm_tags (md_tags m)) (md_archived m) (md_revision m + 1))"
      "st' = saveMetadata sc i (Meta (norm_tags (md_tags m)) (md_archived m) (md_revision m + 1)) st"
  using assms by (auto simp: putCallMetadata_def Let_def split: if_splits option.splits)

lemma put_keeps:
  assumes "kept_well st" "putCallMetadata calls sc i b st = (r, st')"
  shows "kept_well st'"
  using assms(2)
proof (cases rule: put_cases)
  case (saved m)
  have cur: "normal_metadata (metadataOf sc i st)" using assms(1) by (simp add: kept_well_def)
  let ?n = "Meta (norm_tags (md_tags m)) (md_archived m) (md_revision m + 1)"
  have n: "normal_metadata ?n"
    using normal_saved [OF saved(2), of "md_revision m"] cur saved(3) by (simp add: normal_metadata_def)
  then have "is_integer (md_revision ?n)" by (simp only: normal_metadata_def)
  with n assms(1) saved(5) show ?thesis
    by (simp add: kept_well_def well_stored_save metadata_saved)
qed (use assms(1) in simp)

lemma kept_none: "kept_well None"
  by (simp add: kept_well_def well_stored_def metadataOf_def dispositions_def or_val_def no_metadata_def normal_metadata_def is_integer_def)

text \<open>What a read saw is still there or has been saved over since.\<close>

definition seen_at :: "call_metadata \<Rightarrow> call_metadata \<Rightarrow> bool" where
  "seen_at m cur \<longleftrightarrow> m = cur \<or> md_revision m < md_revision cur"

lemma put_moves:
  assumes "kept_well st" "putCallMetadata calls sc i b st = (r, st')"
  shows "seen_at (metadataOf sc' i' st) (metadataOf sc' i' st')"
  using assms(2)
proof (cases rule: put_cases)
  case (saved m)
  have "is_integer (md_revision m + 1)"
    using read_body_ok [OF saved(2)] unfolding is_integer_def by (metis of_int_1 of_int_add floor_of_int)
  then have "metadataOf sc' i' st' = (if disposition_key sc' i' = disposition_key sc i
      then Meta (norm_tags (md_tags m)) (md_archived m) (md_revision m + 1) else metadataOf sc' i' st)"
    using assms(1) saved(5) by (simp add: metadata_saved kept_well_def)
  moreover have "disposition_key sc' i' = disposition_key sc i \<Longrightarrow> metadataOf sc' i' st = metadataOf sc i st"
    by (simp add: metadataOf_def)
  ultimately show ?thesis using saved(3) by (simp add: seen_at_def)
qed (simp add: seen_at_def)

text \<open>The answer to a save is what is then stored.\<close>

lemma put_stored:
  assumes "kept_well st" "putCallMetadata calls sc i b st = (Inr m', st')"
  shows "metadataOf sc i st' = m'"
  using assms(2)
proof (cases rule: put_cases)
  case (saved m)
  have "is_integer (md_revision m + 1)"
    using read_body_ok [OF saved(2)] unfolding is_integer_def by (metis of_int_1 of_int_add floor_of_int)
  with assms(1) saved show ?thesis by (simp add: metadata_saved kept_well_def)
qed simp

section \<open>Changes\<close>

text \<open>A record sent as a request's body.\<close>

definition body_of :: "call_metadata \<Rightarrow> put_body" where
  "body_of m = \<lparr>bd_tags = Some (JArr (map JStr (md_tags m))), bd_archived = Some (JBool (md_archived m)),
     bd_revision = Some (JNum (md_revision m))\<rparr>"

record metadata_edit =
  me_id :: string
  me_before :: call_metadata
  me_saved :: call_metadata

record metadata_change =
  mc_id :: string
  mc_tags :: "string list option"
  mc_archived :: "bool option"
  mc_expected :: "call_metadata option"
  mc_undo :: "metadata_edit option"

definition changed :: "metadata_change \<Rightarrow> call_metadata \<Rightarrow> call_metadata" where
  "changed c before = Meta (or_val (mc_tags c) (md_tags before)) (or_val (mc_archived c) (md_archived before)) (md_revision before)"

text \<open>\<open>{ ...undo.before, revision: undo.saved.revision }\<close>\<close>

definition undone :: "metadata_edit \<Rightarrow> call_metadata" where
  "undone u = (me_before u)\<lparr>md_revision := md_revision (me_saved u)\<rparr>"

lemma read_body_of:
  "read_body (body_of m) = (if is_integer (md_revision m) \<and> \<bar>md_revision m\<bar> \<le> MAX_SAFE \<and> length (md_tags m) \<le> 32 \<and>
     list_all (\<lambda>t. tag_ok (JStr t)) (md_tags m) then Some m else None)"
  by (cases m) (auto simp: read_body_def body_of_def safe_integer_def Meta_def list_all_iff comp_def)

text \<open>Other pages' saves, one after the other.\<close>

definition others_save :: "(string \<Rightarrow> string \<Rightarrow> bool) \<Rightarrow> (string \<times> string \<times> put_body) list \<Rightarrow> string option \<Rightarrow> string option" where
  "others_save calls bs st = fold (\<lambda>(sc, i, b) s. snd (putCallMetadata calls sc i b s)) bs st"

lemma others_keep: "kept_well st \<Longrightarrow> kept_well (others_save calls bs st) \<and>
    seen_at (metadataOf sc i st) (metadataOf sc i (others_save calls bs st))"
proof (induction bs arbitrary: st)
  case (Cons x bs)
  obtain sc' i' b r st' where x: "x = (sc', i', b)" "putCallMetadata calls sc' i' b st = (r, st')"
    by (metis prod.exhaust)
  from Cons.IH [OF put_keeps [OF Cons.prems x(2)]] put_moves [OF Cons.prems x(2), of sc i] x show ?case
    by (auto simp: others_save_def seen_at_def)
qed (simp add: others_save_def seen_at_def)

text \<open>C33: What undoing an edit does, whatever other pages saved meanwhile: if the edit still stands the call has its
  earlier tags and flag again, two revisions later; if not, the undo is refused and nothing changes.\<close>

theorem undo_restores:
  assumes "kept_well st" and "putCallMetadata calls sc i (body_of next') st = (Inr saved, st1)"
    and "st2 = others_save calls bs st1" and "md_revision saved \<le> MAX_SAFE"
    and "before = metadataOf sc i st"
  shows "putCallMetadata calls sc i (body_of (undone \<lparr>me_id = i, me_before = before, me_saved = saved\<rparr>)) st2 =
    (if metadataOf sc i st2 = saved
     then (Inr (before\<lparr>md_revision := md_revision before + 2\<rparr>),
           saveMetadata sc i (before\<lparr>md_revision := md_revision before + 2\<rparr>) st2)
     else (Inl (fail 409 ''revision_conflict'' ''Call metadata changed; reload before saving.''), st2))"
proof -
  have b: "normal_metadata before" using assms(1,5) by (simp add: kept_well_def)
  have s1: "metadataOf sc i st1 = saved" by (rule put_stored [OF assms(1,2)])
  note k1 = put_keeps [OF assms(1,2)]
  have sv: "normal_metadata saved" using k1 s1 by (auto simp: kept_well_def)
  from assms(2) have c: "calls sc i" and r: "md_revision saved = md_revision before + 1"
    by (cases rule: put_cases; simp add: assms(5))+
  have "seen_at saved (metadataOf sc i st2)" using others_keep [OF k1] s1 assms(3) by blast
  then have cur: "metadataOf sc i st2 = saved \<longleftrightarrow> md_revision saved = md_revision (metadataOf sc i st2)"
    by (auto simp: seen_at_def)
  have "list_all (\<lambda>t. tag_ok (JStr t)) (md_tags before)"
    using b tag_ok_normal by (auto simp: normal_metadata_def list_all_iff)
  then have rb: "read_body (body_of (undone \<lparr>me_id = i, me_before = before, me_saved = saved\<rparr>)) =
      Some (before\<lparr>md_revision := md_revision saved\<rparr>)"
    using b sv assms(4) by (simp add: read_body_of undone_def normal_metadata_def)
  have n: "norm_tags (md_tags before) = md_tags before" using b by (intro norm_id) (simp_all add: normal_metadata_def)
  have m: "Meta (md_tags before) (md_archived before) (2 + md_revision before) = before\<lparr>md_revision := md_revision before + 2\<rparr>"
    by (cases before) (simp add: Meta_def)
  show ?thesis
  proof (cases "metadataOf sc i st2 = saved")
    case True
    then show ?thesis unfolding putCallMetadata_def rb using c by (simp add: Let_def n m r)
  next
    case False
    with cur have "md_revision saved \<noteq> md_revision (metadataOf sc i st2)" by simp
    with False show ?thesis unfolding putCallMetadata_def rb using c by (simp add: Let_def)
  qed
qed

lemma sample_none: "metadataOf sc i None = no_metadata"
  by (simp add: metadataOf_def dispositions_def or_val_def)

lemma sample_next: "read_body (body_of (Meta [] True 0)) = Some (Meta [] True 0)"
  by (simp add: read_body_of is_integer_def MAX_SAFE_def)

lemma sample_put: "putCallMetadata (\<lambda>_ _. True) sc i (body_of (Meta [] True 0)) None =
    (Inr (Meta [] True 1), saveMetadata sc i (Meta [] True 1) None)"
  by (simp add: putCallMetadata_def sample_next sample_none no_metadata_def norm_tags_def Let_def)

lemma undo_restores_witness:
  "fst (putCallMetadata (\<lambda>_ _. True) ''o/p'' ''c''
     (body_of (undone \<lparr>me_id = ''c'', me_before = no_metadata, me_saved = Meta [] True 1\<rparr>))
     (saveMetadata ''o/p'' ''c'' (Meta [] True 1) None)) = Inr (Meta [] False 2)"
proof -
  let ?st = "saveMetadata ''o/p'' ''c'' (Meta [] True 1) None"
  have now: "metadataOf ''o/p'' ''c'' ?st = Meta [] True 1" by (rule put_stored [OF kept_none sample_put])
  have others: "?st = others_save (\<lambda>_ _. True) [] ?st" by (simp add: others_save_def)
  have small: "md_revision (Meta [] True 1) \<le> MAX_SAFE" by (simp add: MAX_SAFE_def)
  show ?thesis
    using undo_restores [OF kept_none sample_put others small sample_none [symmetric]] now
    by (simp add: no_metadata_def)
qed

end
