(* ===== verification/CallMetadata.thy ===== *)
theory CallMetadata
  imports MetadataStore
begin

text \<open>
  The page that edits a call's metadata (\<open>features/call/use-call-metadata.ts\<close>, over \<open>metadataQuery\<close> and
  \<open>saveCallMetadata\<close> of \<open>lib/api.ts\<close>) as a step relation over its awaits, beside other pages that save too and reads
  that end at any time. The query cache is the library's, modelled by what this code relies on: one read at a time per
  key, a cancelled read leaves no answer, a filter matches the keys it begins.
\<close>

section \<open>The page\<close>

text \<open>A query's key; a filter's key matches the keys it begins.\<close>

type_synonym meta_key = "string \<times> scope \<times> string list"

definition key_under :: "meta_key \<Rightarrow> meta_key \<Rightarrow> bool" where
  "key_under p k \<longleftrightarrow> fst p = fst k \<and> fst (snd p) = fst (snd k) \<and>
     take (length (snd (snd p))) (snd (snd k)) = snd (snd p)"

datatype cached = CachedMetadata call_metadata | CachedOther

record cached_query =
  cq_data :: "cached option"
  cq_error :: "api_error option"

text \<open>One change at a time: waiting for the read it starts from, for the server to handle the save, and for its answer.\<close>

datatype edit_phase =
    Quiet
  | Fetching metadata_change
  | Sending string call_metadata call_metadata
  | Answered string call_metadata "api_error + call_metadata"

datatype edit_error = EditError string | EditRefused api_error

text \<open>The server's text and the page beside it: the scope of the address, the cached queries, the reads of a call's
  metadata under way with their answers, the metadata the page has been given, the keys it asked to have read again,
  and what became of its changes.\<close>

record edit_page =
  ep_store :: "string option"
  ep_scope :: scope
  ep_phase :: edit_phase
  ep_cache :: "(meta_key \<times> cached_query) list"
  ep_reads :: "(string \<times> (api_error + call_metadata)) list"
  ep_known :: "(string \<times> call_metadata) list"
  ep_stale :: "meta_key list"
  ep_results :: "(string \<times> (edit_error + metadata_edit)) list"

text \<open>The hook's own constants: the project it was rendered for and whether the person may edit there.\<close>

record edit_env =
  ee_calls :: "string \<Rightarrow> string \<Rightarrow> bool"
  ee_selected :: scope
  ee_canEdit :: bool

definition canEditIn :: "role option \<Rightarrow> bool" where
  "canEditIn r \<longleftrightarrow> r = Some Admin \<or> r = Some Member"

definition scope_text :: "scope \<Rightarrow> string" where
  "scope_text sc = sc_org sc @ ''/'' @ sc_project sc"

definition metadata_key :: "edit_env \<Rightarrow> string \<Rightarrow> meta_key" where
  "metadata_key env i = (''call-metadata'', ee_selected env, [i])"

definition kept_at :: "edit_env \<Rightarrow> string \<Rightarrow> edit_page \<Rightarrow> call_metadata" where
  "kept_at env i w = metadataOf (scope_text (ee_selected env)) i (ep_store w)"

definition same_scope :: "edit_env \<Rightarrow> edit_page \<Rightarrow> bool" where
  "same_scope env w \<longleftrightarrow> sc_org (ee_selected env) = sc_org (ep_scope w) \<and> sc_project (ee_selected env) = sc_project (ep_scope w)"

definition finish_change :: "string \<Rightarrow> edit_error + metadata_edit \<Rightarrow> edit_page \<Rightarrow> edit_page" where
  "finish_change i r w = w\<lparr>ep_phase := Quiet, ep_results := ep_results w @ [(i, r)]\<rparr>"

definition project_changed :: edit_error where
  "project_changed = EditError ''Project changed. Reopen the call before editing.''"

text \<open>\<open>save\<close>, until its request is sent.\<close>

definition begin_save :: "edit_env \<Rightarrow> string \<Rightarrow> call_metadata \<Rightarrow> call_metadata \<Rightarrow> edit_page \<Rightarrow> edit_page" where
  "begin_save env i before next' w =
     (if \<not> same_scope env w then finish_change i (Inl project_changed) w
      else if \<not> ee_canEdit env then finish_change i (Inl (EditError ''A Member or Admin can change call metadata.'')) w
      else w\<lparr>ep_phase := Sending i before next'\<rparr>)"

text \<open>A read joins the one under way for the same call.\<close>

definition start_read :: "edit_env \<Rightarrow> string \<Rightarrow> edit_page \<Rightarrow> edit_page" where
  "start_read env i w =
     (if i \<in> fst ` set (ep_reads w) then w
      else w\<lparr>ep_reads := (i, getCallMetadata (ee_calls env) (scope_text (ee_selected env)) i (ep_store w)) # ep_reads w\<rparr>)"

definition start_change :: "edit_env \<Rightarrow> metadata_change \<Rightarrow> edit_page \<Rightarrow> edit_page" where
  "start_change env c w =
     (if \<not> same_scope env w then finish_change (mc_id c) (Inl project_changed) w
      else case mc_undo c of
        Some u \<Rightarrow> begin_save env (mc_id c) (me_saved u) (undone u) w
      | None \<Rightarrow>
          (case mc_expected c of
             Some m \<Rightarrow> begin_save env (mc_id c) m (changed c m) w
           | None \<Rightarrow> (start_read env (mc_id c) w)\<lparr>ep_phase := Fetching c\<rparr>))"

definition drop_read :: "string \<Rightarrow> edit_page \<Rightarrow> edit_page" where
  "drop_read i w = w\<lparr>ep_reads := filter (\<lambda>p. fst p \<noteq> i) (ep_reads w)\<rparr>"

definition denied_keys :: "edit_env \<Rightarrow> string \<Rightarrow> meta_key list" where
  "denied_keys env i = [metadata_key env i, (''call'', ee_selected env, [i]), (''call-tags'', ee_selected env, []),
     (''calls'', ee_selected env, [])]"

text \<open>For each key: cancel the reads under it, then drop what they had cached.\<close>

definition deny_key :: "edit_env \<Rightarrow> api_error \<Rightarrow> meta_key \<Rightarrow> edit_page \<Rightarrow> edit_page" where
  "deny_key env e p w =
     w\<lparr>ep_reads := filter (\<lambda>r. \<not> key_under p (metadata_key env (fst r))) (ep_reads w),
       ep_cache := map (\<lambda>(k, q). (k, if key_under p k then q\<lparr>cq_data := None, cq_error := Some e\<rparr> else q)) (ep_cache w)\<rparr>"

definition change_failed :: "edit_env \<Rightarrow> string \<Rightarrow> api_error \<Rightarrow> edit_page \<Rightarrow> edit_page" where
  "change_failed env i e w =
     finish_change i (Inl (EditRefused e))
       (if ae_status e \<in> {401, 403, 404} then fold (deny_key env e) (denied_keys env i) w else w)"

definition query_at :: "meta_key \<Rightarrow> edit_page \<Rightarrow> cached_query" where
  "query_at k w = (case map_of (ep_cache w) k of Some q \<Rightarrow> q | None \<Rightarrow> \<lparr>cq_data = None, cq_error = None\<rparr>)"

definition set_query :: "meta_key \<Rightarrow> cached_query \<Rightarrow> edit_page \<Rightarrow> edit_page" where
  "set_query k q w = w\<lparr>ep_cache := mp_set k q (ep_cache w)\<rparr>"

definition metadata_cached :: "edit_env \<Rightarrow> string \<Rightarrow> edit_page \<Rightarrow> call_metadata option" where
  "metadata_cached env i w = (case cq_data (query_at (metadata_key env i) w) of Some (CachedMetadata m) \<Rightarrow> Some m | _ \<Rightarrow> None)"

text \<open>A read ends: its answer is cached, and a change that waited for it goes on.\<close>

definition end_read :: "edit_env \<Rightarrow> string \<Rightarrow> edit_page \<Rightarrow> edit_page" where
  "end_read env i w =
     (case map_of (ep_reads w) i of
        None \<Rightarrow> w
      | Some (Inr m) \<Rightarrow>
          (let w1 = set_query (metadata_key env i) \<lparr>cq_data = Some (CachedMetadata m), cq_error = None\<rparr>
                 ((drop_read i w)\<lparr>ep_known := (i, m) # ep_known w\<rparr>)
           in case ep_phase w of
                Fetching c \<Rightarrow> if mc_id c = i then begin_save env i m (changed c m) w1 else w1
              | _ \<Rightarrow> w1)
      | Some (Inl e) \<Rightarrow>
          (let w1 = set_query (metadata_key env i) ((query_at (metadata_key env i) w)\<lparr>cq_error := Some e\<rparr>) (drop_read i w)
           in case ep_phase w of
                Fetching c \<Rightarrow> if mc_id c = i then change_failed env i e w1 else w1
              | _ \<Rightarrow> w1))"

text \<open>The server handles the save.\<close>

definition serve :: "edit_env \<Rightarrow> edit_page \<Rightarrow> edit_page" where
  "serve env w =
     (case ep_phase w of
        Sending i before next' \<Rightarrow>
          (let (r, st) = putCallMetadata (ee_calls env) (scope_text (ee_selected env)) i (body_of next') (ep_store w)
           in w\<lparr>ep_store := st, ep_phase := Answered i before r\<rparr>)
      | _ \<Rightarrow> w)"

text \<open>Its answer arrives: older reads are cancelled, a newer cached value stays, the lists are read again.\<close>

definition newer_of :: "call_metadata option \<Rightarrow> call_metadata \<Rightarrow> call_metadata" where
  "newer_of prior saved = (case prior of Some p \<Rightarrow> if md_revision saved < md_revision p then p else saved | None \<Rightarrow> saved)"

definition get_answer :: "edit_env \<Rightarrow> edit_page \<Rightarrow> edit_page" where
  "get_answer env w =
     (case ep_phase w of
        Answered i before (Inl e) \<Rightarrow> change_failed env i e w
      | Answered i before (Inr saved) \<Rightarrow>
          (let k = metadata_key env i; sel = ee_selected env;
               w1 = set_query k \<lparr>cq_data = Some (CachedMetadata (newer_of (metadata_cached env i w) saved)), cq_error = None\<rparr> (drop_read i w)
           in finish_change i (Inr \<lparr>me_id = i, me_before = before, me_saved = saved\<rparr>)
                (w1\<lparr>ep_known := (i, saved) # ep_known w,
                    ep_stale := ep_stale w @ [(''calls'', sel, []), (''call'', sel, [i]), (''call-tags'', sel, [])]\<rparr>))
      | _ \<Rightarrow> w)"

text \<open>What may happen next. A change may name metadata only as the page was given it; another page's save is any save.\<close>

datatype edit_label =
    EStart metadata_change
  | EReadStart string
  | EReadEnd string
  | EServe
  | EAnswer
  | EOther string string put_body
  | EScope scope

definition names_known :: "edit_page \<Rightarrow> metadata_change \<Rightarrow> bool" where
  "names_known w c \<longleftrightarrow>
     (case mc_expected c of Some m \<Rightarrow> (mc_id c, m) \<in> set (ep_known w) | None \<Rightarrow> True) \<and>
     (case mc_undo c of Some u \<Rightarrow> (mc_id c, me_saved u) \<in> set (ep_known w) | None \<Rightarrow> True)"

inductive edit_step :: "edit_env \<Rightarrow> edit_page \<Rightarrow> edit_label \<Rightarrow> edit_page \<Rightarrow> bool" for env where
  Start: "ep_phase w = Quiet \<Longrightarrow> names_known w c \<Longrightarrow> edit_step env w (EStart c) (start_change env c w)"
| ReadStart: "edit_step env w (EReadStart i) (start_read env i w)"
| ReadEnd: "edit_step env w (EReadEnd i) (end_read env i w)"
| Serve: "edit_step env w EServe (serve env w)"
| Answer: "edit_step env w EAnswer (get_answer env w)"
| Other: "edit_step env w (EOther sc i b) (w\<lparr>ep_store := snd (putCallMetadata (ee_calls env) sc i b (ep_store w))\<rparr>)"
| Moved: "edit_step env w (EScope sc) (w\<lparr>ep_scope := sc\<rparr>)"

inductive_cases edit_stepE: "edit_step env w l w'"

inductive edit_run :: "edit_env \<Rightarrow> edit_page \<Rightarrow> edit_label list \<Rightarrow> edit_page \<Rightarrow> bool" for env where
  Stay: "edit_run env w [] w"
| Then: "edit_run env w ls w' \<Longrightarrow> edit_step env w' l w'' \<Longrightarrow> edit_run env w (ls @ [l]) w''"

text \<open>A page that was just opened, over what the server keeps.\<close>

definition opened :: "edit_page \<Rightarrow> bool" where
  "opened w \<longleftrightarrow> kept_well (ep_store w) \<and> ep_phase w = Quiet \<and> ep_cache w = [] \<and> ep_reads w = [] \<and> ep_known w = [] \<and> ep_results w = []"

section \<open>No edit is lost\<close>

definition read_seen :: "call_metadata \<Rightarrow> api_error + call_metadata \<Rightarrow> bool" where
  "read_seen cur r \<longleftrightarrow> (case r of Inr m \<Rightarrow> seen_at m cur | Inl _ \<Rightarrow> True)"

definition phase_ok :: "edit_env \<Rightarrow> string option \<Rightarrow> edit_phase \<Rightarrow> bool" where
  "phase_ok env st p \<longleftrightarrow>
     (case p of
        Sending i b n \<Rightarrow> seen_at b (metadataOf (scope_text (ee_selected env)) i st) \<and> md_revision n = md_revision b
      | Answered i b r \<Rightarrow> read_seen (metadataOf (scope_text (ee_selected env)) i st) r
      | _ \<Rightarrow> True)"

definition edit_ok :: "edit_env \<Rightarrow> edit_page \<Rightarrow> bool" where
  "edit_ok env w \<longleftrightarrow> kept_well (ep_store w) \<and>
     list_all (\<lambda>(i, m). seen_at m (kept_at env i w)) (ep_known w) \<and>
     list_all (\<lambda>(i, r). read_seen (kept_at env i w) r) (ep_reads w) \<and> phase_ok env (ep_store w) (ep_phase w)"

lemma seen_trans: "seen_at a b \<Longrightarrow> seen_at b c \<Longrightarrow> seen_at a c"
  by (auto simp: seen_at_def)

lemma seen_refl [simp]: "seen_at m m"
  by (simp add: seen_at_def)

lemma kept_at_same: "ep_store w' = ep_store w \<Longrightarrow> kept_at env i w' = kept_at env i w"
  by (simp add: kept_at_def)

lemma read_seen_moves: "read_seen a r \<Longrightarrow> seen_at a b \<Longrightarrow> read_seen b r"
  by (auto simp: read_seen_def intro: seen_trans split: sum.splits)

lemma ok_store:
  assumes "edit_ok env w" "kept_well st"
    and moved: "\<And>i. seen_at (kept_at env i w) (metadataOf (scope_text (ee_selected env)) i st)"
  shows "edit_ok env (w\<lparr>ep_store := st\<rparr>)"
proof -
  have k: "kept_at env i (w\<lparr>ep_store := st\<rparr>) = metadataOf (scope_text (ee_selected env)) i st" for i
    by (simp add: kept_at_def)
  have "phase_ok env st (ep_phase w)"
    using assms(1) seen_trans [OF _ moved] read_seen_moves [OF _ moved]
    by (auto simp: edit_ok_def phase_ok_def kept_at_def split: edit_phase.splits)
  moreover have "list_all (\<lambda>(i, m). seen_at m (kept_at env i (w\<lparr>ep_store := st\<rparr>))) (ep_known w)"
    "list_all (\<lambda>(i, r). read_seen (kept_at env i (w\<lparr>ep_store := st\<rparr>)) r) (ep_reads w)"
    using assms(1) seen_trans [OF _ moved] read_seen_moves [OF _ moved] unfolding k
    by (auto simp: edit_ok_def list_all_iff)
  ultimately show ?thesis using assms(2) by (simp add: edit_ok_def)
qed

lemma ok_put:
  assumes "edit_ok env w" "putCallMetadata calls sc i b (ep_store w) = (r, st)"
  shows "edit_ok env (w\<lparr>ep_store := st\<rparr>)"
  using assms put_keeps [OF _ assms(2)] put_moves [OF _ assms(2)]
  by (intro ok_store) (auto simp: edit_ok_def kept_at_def)

lemma ok_finish [intro]: "edit_ok env w \<Longrightarrow> edit_ok env (finish_change i r w)"
  by (simp add: edit_ok_def finish_change_def phase_ok_def kept_at_def)

lemma ok_begin: "edit_ok env w \<Longrightarrow> seen_at b (kept_at env i w) \<Longrightarrow> md_revision n = md_revision b \<Longrightarrow> edit_ok env (begin_save env i b n w)"
  unfolding begin_save_def using ok_finish by (auto simp: edit_ok_def phase_ok_def kept_at_def)

lemma ok_set_query [simp]: "edit_ok env (set_query k q w) = edit_ok env w"
  by (simp add: edit_ok_def set_query_def kept_at_def)

lemma set_query_store [simp]: "ep_store (set_query k q w) = ep_store w" "ep_store (drop_read i w) = ep_store w"
  "ep_phase (drop_read i w) = ep_phase w" "ep_known (drop_read i w) = ep_known w"
  by (simp_all add: set_query_def drop_read_def)

lemma ok_drop [intro]: "edit_ok env w \<Longrightarrow> edit_ok env (drop_read i w)"
  by (auto simp: edit_ok_def drop_read_def kept_at_def list_all_iff)

lemma ok_known: "edit_ok env w \<Longrightarrow> seen_at m (kept_at env i w) \<Longrightarrow> ks = ep_known w \<Longrightarrow> edit_ok env (w\<lparr>ep_known := (i, m) # ks\<rparr>)"
  by (simp add: edit_ok_def kept_at_def)

lemma ok_start_read: "edit_ok env w \<Longrightarrow> edit_ok env (start_read env i w)"
  by (auto simp: edit_ok_def start_read_def kept_at_def read_seen_def getCallMetadata_def)

lemma ok_fetching: "edit_ok env w \<Longrightarrow> edit_ok env (w\<lparr>ep_phase := Fetching c\<rparr>)"
  by (simp add: edit_ok_def phase_ok_def kept_at_def)

lemma ok_deny: "edit_ok env w \<Longrightarrow> edit_ok env (deny_key env e p w)"
  by (auto simp: edit_ok_def deny_key_def kept_at_def list_all_iff)

lemma ok_failed: "edit_ok env w \<Longrightarrow> edit_ok env (change_failed env i e w)"
proof -
  have "edit_ok env w \<Longrightarrow> edit_ok env (fold (deny_key env e) ps w)" for ps
    by (induction ps arbitrary: w) (simp_all add: ok_deny)
  then show "edit_ok env w \<Longrightarrow> edit_ok env (change_failed env i e w)"
    unfolding change_failed_def using ok_finish by (simp split: if_split)
qed

lemma changed_revision [simp]: "md_revision (changed c m) = md_revision m" "md_revision (undone u) = md_revision (me_saved u)"
  by (simp_all add: changed_def undone_def)

lemma ok_start: "edit_ok env w \<Longrightarrow> names_known w c \<Longrightarrow> edit_ok env (start_change env c w)"
proof -
  assume w: "edit_ok env w" and n: "names_known w c"
  have known: "seen_at m (kept_at env (mc_id c) w)" if "(mc_id c, m) \<in> set (ep_known w)" for m
    using w that by (auto simp: edit_ok_def list_all_iff)
  show ?thesis
    using n known ok_finish [OF w] ok_begin [OF w] ok_fetching [OF ok_start_read [OF w]]
    by (auto simp: start_change_def names_known_def split: option.splits)
qed

lemma ok_end_read: "edit_ok env w \<Longrightarrow> edit_ok env (end_read env i w)"
proof (cases "map_of (ep_reads w) i")
  case (Some r)
  assume w: "edit_ok env w"
  from Some have mem: "(i, r) \<in> set (ep_reads w)" by (rule map_of_SomeD)
  show ?thesis
  proof (cases r)
    case (Inr m)
    have m: "seen_at m (kept_at env i w)" using w mem Inr by (auto simp: edit_ok_def list_all_iff read_seen_def)
    let ?w1 = "set_query (metadata_key env i) \<lparr>cq_data = Some (CachedMetadata m), cq_error = None\<rparr>
      ((drop_read i w)\<lparr>ep_known := (i, m) # ep_known w\<rparr>)"
    have w1: "edit_ok env ?w1" using ok_known [OF ok_drop [OF w], of m i i "ep_known w"] m by (simp add: kept_at_def)
    have "seen_at m (kept_at env i ?w1)" using m by (simp add: kept_at_def)
    from ok_begin [OF w1 this] w1 Some Inr show ?thesis
      by (auto simp: end_read_def Let_def split: edit_phase.split)
  next
    case (Inl e)
    then show ?thesis using Some ok_failed ok_drop [OF w] by (auto simp: end_read_def Let_def split: edit_phase.split)
  qed
qed (simp add: end_read_def)

lemma ok_serve: "edit_ok env w \<Longrightarrow> edit_ok env (serve env w)"
proof (cases "ep_phase w")
  case (Sending i b n)
  assume w: "edit_ok env w"
  obtain r st where p: "putCallMetadata (ee_calls env) (scope_text (ee_selected env)) i (body_of n) (ep_store w) = (r, st)"
    by (metis prod.exhaust)
  have "kept_well (ep_store w)" using w by (simp add: edit_ok_def)
  with p have "read_seen (metadataOf (scope_text (ee_selected env)) i st) r"
    by (cases r) (auto simp: read_seen_def dest: put_stored)
  then have "phase_ok env st (Answered i b r)" by (simp add: phase_ok_def)
  with ok_put [OF w p] Sending p show ?thesis by (simp add: serve_def edit_ok_def kept_at_def)
qed (simp_all add: serve_def)

lemma ok_answer: "edit_ok env w \<Longrightarrow> edit_ok env (get_answer env w)"
proof (cases "ep_phase w")
  case (Answered i b r)
  assume w: "edit_ok env w"
  show ?thesis
  proof (cases r)
    case (Inr s)
    have "seen_at s (kept_at env i w)" using w Answered Inr by (simp add: edit_ok_def phase_ok_def read_seen_def kept_at_def)
    with ok_drop [OF w] Answered Inr show ?thesis
      by (simp add: get_answer_def Let_def)
        (simp add: edit_ok_def finish_change_def set_query_def drop_read_def kept_at_def phase_ok_def)
  qed (use w Answered ok_failed in \<open>simp add: get_answer_def\<close>)
qed (simp_all add: get_answer_def)

lemma ok_step: "edit_step env w l w' \<Longrightarrow> edit_ok env w \<Longrightarrow> edit_ok env w'"
proof (erule edit_stepE)
  fix sc i b
  assume w: "edit_ok env w" and w': "w' = w\<lparr>ep_store := snd (putCallMetadata (ee_calls env) sc i b (ep_store w))\<rparr>"
  show "edit_ok env w'" unfolding w' by (rule ok_put [OF w prod.collapse [symmetric]])
next
  fix sc
  assume "edit_ok env w" "w' = w\<lparr>ep_scope := sc\<rparr>"
  then show "edit_ok env w'" by (simp add: edit_ok_def kept_at_def)
qed (auto intro: ok_start ok_start_read ok_end_read ok_serve ok_answer)

lemma ok_run: "edit_run env w0 ls w \<Longrightarrow> edit_ok env w0 \<Longrightarrow> edit_ok env w"
  by (induction rule: edit_run.induct) (auto dest: ok_step)

lemma opened_ok: "opened w \<Longrightarrow> edit_ok env w"
  by (simp add: opened_def edit_ok_def phase_ok_def)

text \<open>C31: No edit is lost: whatever other pages save meanwhile, when the server accepts a change this page sent, the
  metadata it changes is exactly what the page read, and only what the change names is different after it.\<close>

theorem no_lost_edit:
  assumes "opened w0" "edit_run env w0 ls w" "ep_phase w = Sending i before next'"
    and "ep_phase (serve env w) = Answered i before (Inr saved)"
  shows "kept_at env i w = before \<and> kept_at env i (serve env w) = saved \<and>
    saved = Meta (norm_tags (md_tags next')) (md_archived next') (md_revision before + 1)"
proof -
  have ok: "edit_ok env w" by (rule ok_run [OF assms(2) opened_ok [OF assms(1)]])
  obtain st where p: "putCallMetadata (ee_calls env) (scope_text (ee_selected env)) i (body_of next') (ep_store w) = (Inr saved, st)"
    using assms(3,4) by (auto simp: serve_def split: prod.splits)
  have sb: "seen_at before (kept_at env i w)" "md_revision next' = md_revision before"
    using ok assms(3) by (simp_all add: edit_ok_def phase_ok_def kept_at_def)
  have "kept_at env i (serve env w) = saved"
    using put_stored [OF _ p] ok assms(3) p by (simp add: edit_ok_def kept_at_def serve_def)
  moreover from p have "md_revision next' = md_revision (kept_at env i w) \<and>
      saved = Meta (norm_tags (md_tags next')) (md_archived next') (md_revision next' + 1)"
    by (cases rule: put_cases) (auto simp: read_body_of kept_at_def split: if_splits)
  ultimately show ?thesis using sb by (auto simp: seen_at_def)
qed

section \<open>The cache is never older than a save\<close>

definition save_ok :: "edit_env \<Rightarrow> edit_page \<Rightarrow> string \<Rightarrow> call_metadata \<Rightarrow> bool" where
  "save_ok env w i s \<longleftrightarrow> (i, s) \<in> set (ep_known w) \<and>
     (case metadata_cached env i w of Some c \<Rightarrow> md_revision s \<le> md_revision c | None \<Rightarrow> True) \<and>
     (\<forall>m. (i, Inr m) \<in> set (ep_reads w) \<longrightarrow> md_revision s \<le> md_revision m) \<and>
     (case ep_phase w of Answered j b (Inr m) \<Rightarrow> j = i \<longrightarrow> md_revision s \<le> md_revision m | _ \<Rightarrow> True)"

definition saves_ok :: "edit_env \<Rightarrow> edit_page \<Rightarrow> bool" where
  "saves_ok env w \<longleftrightarrow> (\<forall>i ed. (i, Inr ed) \<in> set (ep_results w) \<longrightarrow> save_ok env w i (me_saved ed))"

lemma saves_okI:
  assumes "saves_ok env w" "ep_results w' = ep_results w" "\<And>i s. save_ok env w i s \<Longrightarrow> save_ok env w' i s"
  shows "saves_ok env w'"
  using assms by (auto simp: saves_ok_def)

lemma cached_set_query [simp]: "metadata_cached env j (set_query (metadata_key env i) q w) =
    (if j = i then (case cq_data q of Some (CachedMetadata m) \<Rightarrow> Some m | _ \<Rightarrow> None) else metadata_cached env j w)"
  by (simp add: metadata_cached_def query_at_def set_query_def mp_store.get_put metadata_key_def)

lemma cached_same: "ep_cache w' = ep_cache w \<Longrightarrow> metadata_cached env j w' = metadata_cached env j w"
  by (simp add: metadata_cached_def query_at_def)

lemma map_of_map_vals: "map_of (map (\<lambda>(k, q). (k, f k q)) xs) k = map_option (f k) (map_of xs k)"
  by (induction xs) auto

lemma cached_deny: "metadata_cached env j (deny_key env e p w) =
    (if key_under p (metadata_key env j) then None else metadata_cached env j w)"
  by (cases "map_of (ep_cache w) (metadata_key env j)")
    (simp_all add: metadata_cached_def query_at_def deny_key_def map_of_map_vals)

lemma saved_seen: "edit_ok env w \<Longrightarrow> save_ok env w i s \<Longrightarrow> md_revision s \<le> md_revision (kept_at env i w)"
  by (auto simp: edit_ok_def save_ok_def list_all_iff seen_at_def)

text \<open>A step that leaves the cache alone and adds neither reads nor an answer.\<close>

lemma saves_less:
  assumes "saves_ok env w" "ep_results w' = ep_results w @ [(i, Inl e)] \<or> ep_results w' = ep_results w"
    and "ep_cache w' = ep_cache w" "set (ep_reads w') \<subseteq> set (ep_reads w)" "set (ep_known w) \<subseteq> set (ep_known w')"
    and "ep_phase w' = ep_phase w \<or> (\<forall>j b r. ep_phase w' \<noteq> Answered j b r)"
  shows "saves_ok env w'"
proof -
  have "save_ok env w j s \<Longrightarrow> save_ok env w' j s" for j s
    using assms(3-6) cached_same [OF assms(3)] by (auto simp: save_ok_def split: edit_phase.splits)
  with assms(1,2) show ?thesis by (auto simp: saves_ok_def)
qed

lemma saves_finish: "saves_ok env w \<Longrightarrow> saves_ok env (finish_change i (Inl e) w)"
  by (erule saves_less) (auto simp: finish_change_def)

lemma saves_begin: "saves_ok env w \<Longrightarrow> saves_ok env (begin_save env i b n w)"
  by (auto simp: begin_save_def intro: saves_finish elim: saves_less)

lemma saves_start_read: "edit_ok env w \<Longrightarrow> saves_ok env w \<Longrightarrow> saves_ok env (start_read env i w)"
  by (rule saves_okI, assumption)
    (auto simp: start_read_def getCallMetadata_def save_ok_def metadata_cached_def query_at_def kept_at_def
      dest!: saved_seen)

lemma saves_phase: "saves_ok env w \<Longrightarrow> (\<And>j b r. p \<noteq> Answered j b r) \<Longrightarrow> saves_ok env (w\<lparr>ep_phase := p\<rparr>)"
  by (erule saves_less) auto

lemma saves_start: "edit_ok env w \<Longrightarrow> saves_ok env w \<Longrightarrow> saves_ok env (start_change env c w)"
  by (auto simp: start_change_def intro: saves_finish saves_begin saves_phase saves_start_read split: option.split)

lemma saves_deny: "saves_ok env w \<Longrightarrow> saves_ok env (deny_key env e p w)"
proof -
  have f: "ep_known (deny_key env e p w) = ep_known w" "ep_phase (deny_key env e p w) = ep_phase w"
    "ep_results (deny_key env e p w) = ep_results w" "set (ep_reads (deny_key env e p w)) \<subseteq> set (ep_reads w)"
    by (auto simp: deny_key_def)
  assume "saves_ok env w"
  then show ?thesis using f by (rule_tac saves_okI) (auto simp: save_ok_def cached_deny)
qed

lemma saves_failed: "saves_ok env w \<Longrightarrow> saves_ok env (change_failed env i e w)"
proof -
  have "saves_ok env w \<Longrightarrow> saves_ok env (fold (deny_key env e) ps w)" for ps
    by (induction ps arbitrary: w) (simp_all add: saves_deny)
  then show "saves_ok env w \<Longrightarrow> saves_ok env (change_failed env i e w)"
    unfolding change_failed_def by (auto intro: saves_finish)
qed

lemma saves_end:
  assumes "saves_ok env w" "(i, a) \<in> set (ep_reads w)" "ep_results w1 = ep_results w" "ep_phase w1 = ep_phase w"
    and "set (ep_known w) \<subseteq> set (ep_known w1)" "set (ep_reads w1) \<subseteq> set (ep_reads w)"
    and "\<And>j. metadata_cached env j w1 = (if j = i then (case a of Inr m \<Rightarrow> Some m | Inl _ \<Rightarrow> metadata_cached env j w) else metadata_cached env j w)"
  shows "saves_ok env w1"
proof (rule saves_okI [OF assms(1,3)])
  fix j s
  assume s: "save_ok env w j s"
  have "case metadata_cached env j w1 of Some c \<Rightarrow> md_revision s \<le> md_revision c | None \<Rightarrow> True"
    using s assms(2) unfolding save_ok_def assms(7) by (cases "j = i"; cases a) simp_all
  moreover have "(j, s) \<in> set (ep_known w1)" using s assms(5) by (auto simp: save_ok_def)
  moreover have "\<forall>m. (j, Inr m) \<in> set (ep_reads w1) \<longrightarrow> md_revision s \<le> md_revision m"
    using s assms(6) by (auto simp: save_ok_def)
  ultimately show "save_ok env w1 j s" using s unfolding save_ok_def assms(4) by blast
qed

lemma saves_end_read: "saves_ok env w \<Longrightarrow> saves_ok env (end_read env i w)"
proof (cases "map_of (ep_reads w) i")
  case (Some r)
  assume w: "saves_ok env w"
  from Some have mem: "(i, r) \<in> set (ep_reads w)" by (rule map_of_SomeD)
  show ?thesis
  proof (cases r)
    case (Inr m)
    let ?w1 = "set_query (metadata_key env i) \<lparr>cq_data = Some (CachedMetadata m), cq_error = None\<rparr>
      ((drop_read i w)\<lparr>ep_known := (i, m) # ep_known w\<rparr>)"
    have "saves_ok env ?w1"
    proof (rule saves_end [OF w mem])
      show "metadata_cached env j ?w1 = (if j = i then (case r of Inr m \<Rightarrow> Some m | Inl _ \<Rightarrow> metadata_cached env j w) else metadata_cached env j w)" for j
        using cached_same [of "(drop_read i w)\<lparr>ep_known := (i, m) # ep_known w\<rparr>" w env j] Inr by (simp add: drop_read_def)
    qed (auto simp: set_query_def drop_read_def)
    from saves_begin [OF this] this Some Inr show ?thesis by (simp add: end_read_def Let_def split: edit_phase.split)
  next
    case (Inl e)
    let ?w1 = "set_query (metadata_key env i) ((query_at (metadata_key env i) w)\<lparr>cq_error := Some e\<rparr>) (drop_read i w)"
    have "saves_ok env ?w1"
    proof (rule saves_end [OF w mem])
      show "metadata_cached env j ?w1 = (if j = i then (case r of Inr m \<Rightarrow> Some m | Inl _ \<Rightarrow> metadata_cached env j w) else metadata_cached env j w)" for j
        using cached_same [of "drop_read i w" w env j] Inl by (simp add: drop_read_def) (simp add: metadata_cached_def)
    qed (auto simp: set_query_def drop_read_def)
    from saves_failed [OF this] this Some Inl show ?thesis by (simp add: end_read_def Let_def split: edit_phase.split)
  qed
qed (simp add: end_read_def)

lemma saves_serve: "edit_ok env w \<Longrightarrow> saves_ok env w \<Longrightarrow> saves_ok env (serve env w)"
proof (cases "ep_phase w")
  case (Sending i b n)
  assume w: "edit_ok env w" "saves_ok env w"
  obtain r st where p: "putCallMetadata (ee_calls env) (scope_text (ee_selected env)) i (body_of n) (ep_store w) = (r, st)"
    by (metis prod.exhaust)
  have sv: "serve env w = w\<lparr>ep_store := st, ep_phase := Answered i b r\<rparr>" using Sending p by (simp add: serve_def)
  have later: "md_revision s \<le> md_revision m" if "save_ok env w i s" "r = Inr m" for s m
    using p unfolding that(2)
  proof (cases rule: put_cases)
    case (saved m')
    then show ?thesis using saved_seen [OF w(1) that(1)] by (simp add: kept_at_def)
  qed simp
  have keep: "save_ok env (serve env w) j s" if "save_ok env w j s" for j s
    using that later Sending unfolding sv
    by (cases r) (auto simp: save_ok_def metadata_cached_def query_at_def)
  have "ep_results (serve env w) = ep_results w" by (simp add: sv)
  from saves_okI [OF w(2) this keep] show ?thesis .
qed (simp_all add: serve_def)

lemma saves_answer: "edit_ok env w \<Longrightarrow> saves_ok env w \<Longrightarrow> saves_ok env (get_answer env w)"
proof (cases "ep_phase w")
  case (Answered i b r)
  assume w: "edit_ok env w" "saves_ok env w"
  show ?thesis
  proof (cases r)
    case (Inl e)
    then show ?thesis using Answered saves_failed [OF w(2)] by (simp add: get_answer_def)
  next
    case (Inr m)
    let ?w1 = "set_query (metadata_key env i) \<lparr>cq_data = Some (CachedMetadata (newer_of (metadata_cached env i w) m)), cq_error = None\<rparr>
      (drop_read i w)"
    let ?w' = "get_answer env w"
    have f: "ep_known ?w' = (i, m) # ep_known w" "ep_phase ?w' = Quiet"
      "ep_reads ?w' = filter (\<lambda>p. fst p \<noteq> i) (ep_reads w)" "ep_cache ?w' = ep_cache ?w1"
      "ep_results ?w' = ep_results w @ [(i, Inr \<lparr>me_id = i, me_before = b, me_saved = m\<rparr>)]"
      using Answered Inr by (simp_all add: get_answer_def Let_def finish_change_def set_query_def drop_read_def)
    have c: "metadata_cached env j ?w' = (if j = i then Some (newer_of (metadata_cached env i w) m) else metadata_cached env j w)" for j
      using cached_same [OF f(4), of env j] cached_same [of "drop_read i w" w env j] by (simp add: drop_read_def)
    have n: "md_revision m \<le> md_revision (newer_of p m)" "p = Some q \<Longrightarrow> md_revision q \<le> md_revision (newer_of p m)" for p q
      by (auto simp: newer_of_def split: option.split)
    have "save_ok env ?w' j s" if "save_ok env w j s" for j s
      using that n(1) [of "metadata_cached env i w"] Answered Inr by (auto simp: save_ok_def f c)
    moreover have "save_ok env ?w' i m"
      using n(1) by (auto simp: save_ok_def f c)
    ultimately show ?thesis using w(2) by (auto simp: saves_ok_def f)
  qed
qed (simp_all add: get_answer_def)

lemma saves_step: "edit_step env w l w' \<Longrightarrow> edit_ok env w \<Longrightarrow> saves_ok env w \<Longrightarrow> saves_ok env w'"
proof (erule edit_stepE)
  fix sc i b
  assume "saves_ok env w" "w' = w\<lparr>ep_store := snd (putCallMetadata (ee_calls env) sc i b (ep_store w))\<rparr>"
  then show "saves_ok env w'" by (auto elim: saves_less)
next
  fix sc
  assume "saves_ok env w" "w' = w\<lparr>ep_scope := sc\<rparr>"
  then show "saves_ok env w'" by (auto elim: saves_less)
qed (auto intro: saves_start saves_start_read saves_end_read saves_serve saves_answer)

lemma saves_run: "edit_run env w0 ls w \<Longrightarrow> edit_ok env w0 \<Longrightarrow> saves_ok env w0 \<Longrightarrow> edit_ok env w \<and> saves_ok env w"
  by (induction rule: edit_run.induct) (auto dest: ok_step saves_step)

text \<open>C32: The metadata a page has cached for a call is never older than what the page itself saved there, whatever
  reads were under way when the save was answered.\<close>

theorem cache_not_older:
  assumes "opened w0" "edit_run env w0 ls w" "(i, Inr ed) \<in> set (ep_results w)" "metadata_cached env i w = Some c"
  shows "md_revision (me_saved ed) \<le> md_revision c"
proof -
  have "saves_ok env w0" using assms(1) by (simp add: opened_def saves_ok_def)
  then have "save_ok env w i (me_saved ed)"
    using saves_run [OF assms(2) opened_ok [OF assms(1)]] assms(3) by (simp add: saves_ok_def)
  then show ?thesis using assms(4) by (simp add: save_ok_def)
qed

text \<open>A refusal for want of access, or because the call is gone, ends the change with every cached read of the call
  dropped, and a read that was under way cannot bring its metadata back.\<close>

lemma denied_drops:
  assumes "ae_status e \<in> {401, 403, 404}"
  shows "metadata_cached env i (change_failed env i e w) = None \<and> i \<notin> fst ` set (ep_reads (change_failed env i e w)) \<and>
    end_read env i (change_failed env i e w) = change_failed env i e w"
proof -
  have k: "key_under (metadata_key env i) (metadata_key env i)" by (simp add: key_under_def metadata_key_def)
  have gone: "metadata_cached env i (fold (deny_key env e) ps w) = None \<and> i \<notin> fst ` set (ep_reads (fold (deny_key env e) ps w))"
    if "metadata_cached env i w = None" "i \<notin> fst ` set (ep_reads w)" for ps w
    using that
  proof (induction ps arbitrary: w)
    case (Cons p ps)
    have "metadata_cached env i (deny_key env e p w) = None" using Cons.prems by (simp add: cached_deny)
    moreover have "i \<notin> fst ` set (ep_reads (deny_key env e p w))" using Cons.prems by (auto simp: deny_key_def)
    ultimately show ?case using Cons.IH by simp
  qed simp
  have f: "metadata_cached env i (deny_key env e (metadata_key env i) w) = None"
    "i \<notin> fst ` set (ep_reads (deny_key env e (metadata_key env i) w))"
    using k by (simp add: cached_deny) (use k in \<open>auto simp: deny_key_def\<close>)
  let ?w = "fold (deny_key env e) (denied_keys env i) w"
  have g: "metadata_cached env i ?w = None" "i \<notin> fst ` set (ep_reads ?w)"
    using gone [OF f, of "tl (denied_keys env i)"] by (simp_all add: denied_keys_def)
  have w': "change_failed env i e w = finish_change i (Inl (EditRefused e)) ?w" using assms by (simp add: change_failed_def)
  have r: "i \<notin> fst ` set (ep_reads (change_failed env i e w))" using g(2) by (simp add: w' finish_change_def)
  then have "map_of (ep_reads (change_failed env i e w)) i = None" by (simp add: map_of_eq_None_iff)
  moreover have "metadata_cached env i (change_failed env i e w) = None"
    using g(1) cached_same [of "finish_change i (Inl (EditRefused e)) ?w" ?w env i] by (simp add: w' finish_change_def)
  ultimately show ?thesis using r by (simp add: end_read_def)
qed

section \<open>A change and its undo\<close>

definition sample_env :: edit_env where
  "sample_env = \<lparr>ee_calls = (\<lambda>_ _. True), ee_selected = \<lparr>sc_org = ''o'', sc_project = ''p''\<rparr>, ee_canEdit = True\<rparr>"

definition sample_page :: edit_page where
  "sample_page = \<lparr>ep_store = None, ep_scope = \<lparr>sc_org = ''o'', sc_project = ''p''\<rparr>, ep_phase = Quiet, ep_cache = [],
     ep_reads = [], ep_known = [], ep_stale = [], ep_results = []\<rparr>"

definition sample_change :: metadata_change where
  "sample_change = \<lparr>mc_id = ''c'', mc_tags = None, mc_archived = Some True, mc_expected = None, mc_undo = None\<rparr>"

definition sample_sending :: edit_page where
  "sample_sending = end_read sample_env ''c'' (start_change sample_env sample_change sample_page)"

lemma sample_sent: "sample_sending = sample_page\<lparr>ep_phase := Sending ''c'' no_metadata (Meta [] True 0),
    ep_cache := [(metadata_key sample_env ''c'', \<lparr>cq_data = Some (CachedMetadata no_metadata), cq_error = None\<rparr>)],
    ep_known := [(''c'', no_metadata)]\<rparr>"
  by (simp add: sample_sending_def end_read_def start_change_def same_scope_def sample_env_def sample_page_def sample_change_def
      start_read_def getCallMetadata_def sample_none set_query_def drop_read_def begin_save_def changed_def or_val_def no_metadata_def)

lemma sample_opened: "opened sample_page"
  by (simp add: opened_def sample_page_def kept_none)

lemma sample_reached: "edit_run sample_env sample_page [EStart sample_change, EReadEnd ''c''] sample_sending"
proof -
  have "edit_step sample_env sample_page (EStart sample_change) (start_change sample_env sample_change sample_page)"
    by (rule edit_step.Start) (simp_all add: sample_page_def names_known_def sample_change_def)
  from edit_run.Then [OF edit_run.Then [OF edit_run.Stay this] edit_step.ReadEnd [of _ _ "''c''"]]
  show ?thesis by (simp add: sample_sending_def)
qed

lemma sample_served: "serve sample_env sample_sending = sample_sending\<lparr>ep_store := saveMetadata ''o/p'' ''c'' (Meta [] True 1) None,
    ep_phase := Answered ''c'' no_metadata (Inr (Meta [] True 1))\<rparr>"
  using sample_put by (simp add: serve_def sample_sent sample_env_def sample_page_def scope_text_def)

lemma no_lost_edit_witness: "kept_at sample_env ''c'' (serve sample_env sample_sending) = Meta [] True 1"
proof -
  have "ep_phase sample_sending = Sending ''c'' no_metadata (Meta [] True 0)" by (simp add: sample_sent)
  moreover have "ep_phase (serve sample_env sample_sending) = Answered ''c'' no_metadata (Inr (Meta [] True 1))"
    by (simp add: sample_served)
  ultimately show ?thesis using no_lost_edit [OF sample_opened sample_reached] by blast
qed

lemma cache_not_older_witness:
  "metadata_cached sample_env ''c'' (get_answer sample_env (serve sample_env sample_sending)) = Some (Meta [] True 1) \<and>
   md_revision (Meta [] True 1) \<le> md_revision (Meta [] True 1)"
proof -
  let ?w = "get_answer sample_env (serve sample_env sample_sending)"
  have run: "edit_run sample_env sample_page ([EStart sample_change, EReadEnd ''c''] @ [EServe] @ [EAnswer]) ?w"
    using edit_run.Then [OF edit_run.Then [OF sample_reached edit_step.Serve] edit_step.Answer] by simp
  have "(''c'', Inr \<lparr>me_id = ''c'', me_before = no_metadata, me_saved = Meta [] True 1\<rparr>) \<in> set (ep_results ?w) \<and>
      metadata_cached sample_env ''c'' ?w = Some (Meta [] True 1)"
    by (simp add: get_answer_def Let_def sample_served finish_change_def)
      (simp add: sample_sent sample_page_def set_query_def drop_read_def metadata_cached_def query_at_def newer_of_def no_metadata_def metadata_key_def)
  with cache_not_older [OF sample_opened run, of "''c''" "\<lparr>me_id = ''c'', me_before = no_metadata, me_saved = Meta [] True 1\<rparr>" "Meta [] True 1"]
  show ?thesis by simp
qed

end
