(* ===== verification/Spec2Isabelle.thy ===== *)
theory Spec2Isabelle
  imports FiltersAgree EventStream MockWorkspaces Analytics FilterSchema LiveUpdates LiveKitEnv Setup Insights CallMetadata
begin

text \<open>
VoiceGateway's dashboard (src/dashboard/src): a console for voice agents on LiveKit. It reads an API through a
  generated client, computes what a page says of a call, a trunk, an agent or a source, and keeps a little state of its
  own: the scope in the address, the session, the live connection, the analytics client, a store in the browser. The
  mock API under mocks/ implements the same contract and is what the console is developed and tested against. This
  library models the code that computes and the code that keeps state; the React components that draw the results are
  outside it.

  HOW THE PARTS MEET. A page's address gives the scope (Scope). The scope's reads go through the API client (Api), which
  turns every answer into data or an ApiError. The live connection (EventStream, LiveUpdates) asks for those reads
  again. A call that was read becomes one shape (CallModel) from its spans (CallTrace), then steps and findings
  (CallSteps). The Calls page sends its chips (FilterQuery, FilterSchema) as a query string (CallFilters); the server
  reads it, matches and sorts (CallsQuery).

  LANGUAGE. JsCore: arrays, strings, formatting. JsNum: numbers, Number(text), toFixed, dates. JsOrder:
  Array.prototype.sort, with the locale weak_order for comparators and key_order for those that compare keys; every
  comparator of the code interprets one of them. JsUrl: URLSearchParams and Map, with the locale keyed_store, and
  grouping by a key. JsJson:
  JSON.parse by tokens and a stack, JSON.stringify. JsonRound: parse after stringify gives the value back for what the
  console stores and sends.

  CALLS. CallData: the contract's call, span, turn, event and recording (lib/api-types/types.gen.ts).
  CallTrace (features/call/call-trace.ts): spans in time order, the descendants of a span by a worklist that ends on
  cyclic input, the user turn of an agent turn. CallModel (features/call/call-model.ts): buildModel with one function
  per source; intervals, response times, turn numbers, interruptions. CallSummary: the list's row. CallSteps
  (features/call/call-steps.ts, lib/thresholds.ts): the steps of a turn, the findings, the evidence checks.

  CALL LISTS. FilterQuery (components/reui/filters/filters-query.tsx): the filter tree and every operation on it,
  over an id factory that is passed along. CallFilters (features/calls/call-filters.ts): the loop over the chips, its
  variables a record. CallsQuery (mocks/calls-query.ts): the server's reading of the query string with its exceptions,
  matching, totals, sorting. FiltersAgree relates both sides: the server matches exactly the calls that satisfy every
  chip.

  MENUS. Cascader, CascaderTree, CascaderSelect, CascaderRows (components/reui/cascader/cascader-lib.tsx): the index
  over a tree of nodes, its invariant (consistent), search, selection of whole branches, the visible rows.
  FilterSchema (components/reui/filters/filters-lib.tsx): fields, the flat index that implements the lookup by levels,
  exclusive options, checks.

  CONNECTIONS. EventStream (lib/api-types/core/serverSentEvents.gen.ts): pieces, lines and fields of the event stream,
  attempts with backoff. LiveUpdates (lib/live-updates.ts): the watcher as a step relation, one phase per await. Api
  (lib/api.ts and the generated client's request): outcomes, retries, paging, polling, the search for a room's call.
  Connection (features/connection/connection-model.ts): the state of a project's sources.

  LIVEKIT PAGES. Checks (features/agents/agents-model.ts and sip-model.ts share its shape): a check, its severity as a
  linorder, medians and times that may be no number. MediaRooms (features/media-server/room-drawer.tsx): the read's view
  with times as numbers, a room's origin, watch windows. Agents (features/agents/agents-model.ts): agents gathered from
  LiveKit Cloud and from rooms, their jobs and checks. Sip (features/sip/sip-model.ts, call-path.tsx): routes of
  numbers, the paths drawn of them, checks. Alerts (features/alerts/alerts-model.ts, features/issues/issues-model.ts):
  the pages' views of rules, set-up, incidents and issues. Insights (mocks/insights.ts) is where they meet: the issues
  grouped from the call findings and both pages' checks, the rules' events, the incidents and who resolves them.

  CALL METADATA. MetadataStore (mocks/dispositions.ts and the routes of mocks/handlers.ts): tags and the archived flag
  behind a revision, kept as JSON text; what is stored is always in normal form. CallMetadata
  (features/call/use-call-metadata.ts): the page's change as a step relation over its awaits (edit_run), with other
  pages saving in between, reads under way, refusals and undo.

  PERSON AND BROWSER. Session (lib/session.ts, invitation.ts, providers.ts, client-config.ts, embed.ts,
  live-status.ts): outcomes of signing in, roles, embed tokens, freshness. Analytics (lib/analytics.ts,
  lib/monitoring.ts): what is stripped from an event, and the analytics client's life as a step relation. LocalStore
  (lib/local-store.ts, features/setup/setup-later.ts): storage with memory behind it, under the locale json_store.
  Scope (lib/url-state.ts, lib/workspaces.ts) and MockWorkspaces (mocks/workspaces.ts): projects, their slugs, the
  address rewrite. LiveKitEnv (lib/livekit-env.ts): pasted variables. Setup (features/setup/setup-model.ts,
  lib/format.ts, lib/relative-time.ts): the setup journey and the formats.

  STATE AND EFFECTS. State is a record passed and returned. Code that awaits is an inductive step relation whose labels
  are what ends an await, with runs as lists of labels (analytics_run, live_run, edit_run) and invariants by induction on the run.
  An exception is a left summand or None. A request is a function of what fetch did; a store's read or write takes
  whether the browser refuses.

  BOUNDS AND FUEL. The worklists (descendants, climbing, the parent chain with its memory) are functions with measures.
  The rows of a menu (flatten_walk) follow an index that flat input can make cyclic, so they carry fuel: the deepest
  level plus 2 is proved enough for a nested tree, and None is a walk that has not ended. The search for a room's call
  reads at most 20 pages, as the code does.

  NUMBERS AND TEXT. A number is an exact rational, so rounding of binary floating point is not modelled; NaN and the
  infinities are constructors where the code can meet them. Strings are ASCII with the interface's few other characters
  as UTF-8 bytes. What the platform decides (locale formats, lower-casing, the URL parser, generated ids, the clock, the
  text of a date) is an argument.

  NOT MODELLED. React components, hooks and pages (features/*/*.tsx, components/): they draw what the modelled functions
  return. Vendored interface code (components/reui but for the filter and cascader libraries, components/ui, tremor,
  elevenlabs, ai-elements, gauge). Generated code that only names endpoints (lib/api-types/sdk.gen.ts, the client's
  utils and serializers). The mock API's fixtures and its other request handlers. The Go server (cmd, internal, ee), the Python
  SDK, the site, migrations, deployment and tests are other languages or other programs.
\<close>

end
